(* ===== verification/Basil_Prelude.thy ===== *)
theory Basil_Prelude
  imports Main "HOL-Library.List_Lexorder" "HOL-Library.Char_ord" "HOL-Library.Word"
    "HOL-Library.Product_Lexorder"
begin

text \<open>
  Shared ground of the development: the Rust types the components use and the
  generic facts about them.

  \<^item> \<open>Result<T, E>\<close> is the sum \<open>'e + 'a\<close> (\<open>Inl\<close> the error); the \<open>?\<close> operator is
    \<open>res_bind\<close>, and \<open>collect::<Result<Vec<_>, _>>()\<close> is \<open>res_collect\<close>.
  \<^item> A Rust \<open>str\<close> is a \<open>string\<close> whose characters are the bytes of its UTF-8
    encoding, so that \<open>len()\<close>, \<open>==\<close> and \<open>Ord\<close> (byte-wise lexicographic order) are
    \<open>length\<close>, equality and the list order. \<open>chars()\<close> is \<open>utf8_chars\<close>, which cuts the
    bytes before every byte that is not a continuation byte.
  \<^item> A \<open>BTreeMap\<close> is the association list its iterator yields: strictly sorted by
    key (\<open>bt_wf\<close>).
  \<^item> A \<open>HashMap\<close> is an association list with distinct keys (\<open>hm_wf\<close>) in the order its
    iterator happens to yield, which nothing depends on.
  \<^item> A pair of functions that print and parse a closed set of tokens satisfies the
    \<open>token_codec\<close> contract.
\<close>

named_theorems basil_simps \<open>unfoldings shared by the component proofs\<close>

type_synonym u8 = "8 word"
type_synonym u32 = "32 word"
type_synonym u64 = "64 word"

section \<open>Results\<close>

fun res_bind :: "'e + 'a \<Rightarrow> ('a \<Rightarrow> 'e + 'b) \<Rightarrow> 'e + 'b" where
  "res_bind (Inl e) f = Inl e"
| "res_bind (Inr x) f = f x"

definition res_map_err :: "('e \<Rightarrow> 'f) \<Rightarrow> 'e + 'a \<Rightarrow> 'f + 'a" where
  "res_map_err f r = (case r of Inl e \<Rightarrow> Inl (f e) | Inr x \<Rightarrow> Inr x)"

definition ok_or :: "'a option \<Rightarrow> 'e \<Rightarrow> 'e + 'a" where
  "ok_or v e = (case v of None \<Rightarrow> Inl e | Some x \<Rightarrow> Inr x)"

fun res_collect :: "('a \<Rightarrow> 'e + 'b) \<Rightarrow> 'a list \<Rightarrow> 'e + 'b list" where
  "res_collect f [] = Inr []"
| "res_collect f (x # xs) =
     res_bind (f x) (\<lambda>y. res_bind (res_collect f xs) (\<lambda>ys. Inr (y # ys)))"

lemma res_bind_Inr_iff [simp]:
  "res_bind m f = Inr y \<longleftrightarrow> (\<exists>x. m = Inr x \<and> f x = Inr y)"
  by (cases m) auto

lemma res_bind_Inl_iff:
  "res_bind m f = Inl e \<longleftrightarrow> m = Inl e \<or> (\<exists>x. m = Inr x \<and> f x = Inl e)"
  by (cases m) auto

lemma res_bind_assoc: "res_bind (res_bind m f) g = res_bind m (\<lambda>x. res_bind (f x) g)"
  by (cases m) auto

lemma res_map_err_Inr [simp]: "res_map_err f r = Inr x \<longleftrightarrow> r = Inr x"
  by (auto simp: res_map_err_def split: sum.splits)

lemma ok_or_Inr [simp]: "ok_or v e = Inr x \<longleftrightarrow> v = Some x"
  by (auto simp: ok_or_def split: option.splits)

lemma res_collect_Inr:
  "res_collect f xs = Inr ys \<longleftrightarrow> list_all2 (\<lambda>x y. f x = Inr y) xs ys"
  by (induction xs arbitrary: ys) (auto simp: list_all2_Cons1)

lemma res_collect_Inr_in:
  assumes "res_collect f xs = Inr ys" and "y \<in> set ys"
  shows "\<exists>x \<in> set xs. f x = Inr y"
  using assms by (fastforce simp: res_collect_Inr list_all2_conv_all_nth in_set_conv_nth)

lemma res_collect_Inr_in2:
  assumes "res_collect f xs = Inr ys" and "x \<in> set xs"
  shows "\<exists>y \<in> set ys. f x = Inr y"
  using assms by (fastforce simp: res_collect_Inr list_all2_conv_all_nth in_set_conv_nth)

text \<open>A loop of checks that stops at the first error.\<close>

fun res_each :: "('a \<Rightarrow> 'e + unit) \<Rightarrow> 'a list \<Rightarrow> 'e + unit" where
  "res_each f [] = Inr ()"
| "res_each f (x # xs) = res_bind (f x) (\<lambda>_. res_each f xs)"

lemma res_each_Inr: "res_each f xs = Inr u \<longleftrightarrow> (\<forall>x \<in> set xs. f x = Inr ())"
  by (induction xs) auto

section \<open>Saturating integers\<close>

definition u32_max :: nat where "u32_max = 2 ^ 32 - 1"
definition usize_max :: nat where "usize_max = 2 ^ 64 - 1"
definition u64_max :: nat where "u64_max = 2 ^ 64 - 1"
definition i64_min :: int where "i64_min = - (2 ^ 63)"
definition i64_max :: int where "i64_max = 2 ^ 63 - 1"

definition sat_add_u32 :: "nat \<Rightarrow> nat \<Rightarrow> nat" where
  "sat_add_u32 a b = min (a + b) u32_max"

definition sat_mul_u32 :: "nat \<Rightarrow> nat \<Rightarrow> nat" where
  "sat_mul_u32 a b = min (a * b) u32_max"

definition sat_add_usize :: "nat \<Rightarrow> nat \<Rightarrow> nat" where
  "sat_add_usize a b = min (a + b) usize_max"

definition sat_add_u64 :: "nat \<Rightarrow> nat \<Rightarrow> nat" where
  "sat_add_u64 a b = min (a + b) u64_max"

definition clamp_i64 :: "int \<Rightarrow> int" where
  "clamp_i64 x = max i64_min (min i64_max x)"

definition sat_add_i64 :: "int \<Rightarrow> int \<Rightarrow> int" where
  "sat_add_i64 a b = clamp_i64 (a + b)"

definition sat_sub_i64 :: "int \<Rightarrow> int \<Rightarrow> int" where
  "sat_sub_i64 a b = clamp_i64 (a - b)"

definition is_i64 :: "int \<Rightarrow> bool" where
  "is_i64 x \<longleftrightarrow> i64_min \<le> x \<and> x \<le> i64_max"

lemma clamp_i64_id: "is_i64 x \<Longrightarrow> clamp_i64 x = x"
  by (simp add: clamp_i64_def is_i64_def)

section \<open>Text\<close>

text \<open>\<open>str::split(c)\<close> on a single ASCII character: always at least one piece.\<close>

fun split_on :: "char \<Rightarrow> string \<Rightarrow> string list" where
  "split_on c [] = [[]]"
| "split_on c (x # xs) =
     (if x = c then [] # split_on c xs
      else case split_on c xs of [] \<Rightarrow> [[x]] | p # ps \<Rightarrow> (x # p) # ps)"

text \<open>\<open>[_]::join(sep)\<close>.\<close>

fun join_with :: "string \<Rightarrow> string list \<Rightarrow> string" where
  "join_with sep [] = []"
| "join_with sep [p] = p"
| "join_with sep (p # q # ps) = p @ sep @ join_with sep (q # ps)"

definition strip_prefix :: "string \<Rightarrow> string \<Rightarrow> string option" where
  "strip_prefix p s = (if take (length p) s = p then Some (drop (length p) s) else None)"

definition strip_suffix :: "string \<Rightarrow> string \<Rightarrow> string option" where
  "strip_suffix p s = map_option rev (strip_prefix (rev p) (rev s))"

definition starts_with :: "string \<Rightarrow> string \<Rightarrow> bool" where
  "starts_with p s \<longleftrightarrow> strip_prefix p s \<noteq> None"

fun split_once :: "char \<Rightarrow> string \<Rightarrow> (string \<times> string) option" where
  "split_once c [] = None"
| "split_once c (x # xs) =
     (if x = c then Some ([], xs) else map_option (\<lambda>(a, b). (x # a, b)) (split_once c xs))"

lemma split_on_not_Nil [simp]: "split_on c s \<noteq> []"
  by (induction s) (auto split: list.splits)

lemma split_on_no_sep: "p \<in> set (split_on c s) \<Longrightarrow> c \<notin> set p"
  by (induction s arbitrary: p) (auto split: list.splits if_splits)

lemma split_on_simple [simp]: "c \<notin> set s \<Longrightarrow> split_on c s = [s]"
  by (induction s) auto

lemma split_on_append:
  "c \<notin> set p \<Longrightarrow> split_on c (p @ c # s) = p # split_on c s"
  by (induction p) auto

lemma join_split: "join_with [c] (split_on c s) = s"
proof (induction s)
  case (Cons x xs)
  show ?case
  proof (cases "split_on c xs")
    case (Cons p ps)
    with Cons.IH show ?thesis by (cases ps) auto
  qed simp
qed simp

lemma split_join:
  assumes "ps \<noteq> []" and "\<forall>p \<in> set ps. c \<notin> set p"
  shows "split_on c (join_with [c] ps) = ps"
  using assms
proof (induction ps)
  case (Cons p ps)
  then show ?case by (cases ps) (auto simp: split_on_append)
qed simp

lemma strip_prefix_Some: "strip_prefix p s = Some t \<longleftrightarrow> s = p @ t"
  by (auto simp: strip_prefix_def) (metis append_take_drop_id)

lemma strip_prefix_append [simp]: "strip_prefix p (p @ t) = Some t"
  by (simp add: strip_prefix_Some)

lemma strip_suffix_Some: "strip_suffix p s = Some t \<longleftrightarrow> s = t @ p"
  by (auto simp: strip_suffix_def strip_prefix_Some) (metis rev_append rev_rev_ident)

lemma split_once_Some:
  "split_once c s = Some (a, b) \<longleftrightarrow> s = a @ c # b \<and> c \<notin> set a"
  by (induction s arbitrary: a b) (auto simp: Cons_eq_append_conv)


subsection \<open>UTF-8 characters\<close>

definition byte_of :: "char \<Rightarrow> nat" where
  "byte_of c = of_char c"

definition is_cont_byte :: "char \<Rightarrow> bool" where
  "is_cont_byte c \<longleftrightarrow> 128 \<le> byte_of c \<and> byte_of c < 192"

function utf8_chars :: "string \<Rightarrow> string list" where
  "utf8_chars [] = []"
| "utf8_chars (b # bs) = (b # takeWhile is_cont_byte bs) # utf8_chars (dropWhile is_cont_byte bs)"
  by pat_completeness auto
termination
  by (relation "measure length") (auto simp: le_imp_less_Suc length_dropWhile_le)

lemma concat_utf8_chars [simp]: "concat (utf8_chars s) = s"
  by (induction s rule: utf8_chars.induct) auto

text \<open>The scalar value of one character, from its one to four bytes.\<close>

fun scalar_value :: "string \<Rightarrow> nat" where
  "scalar_value [a] = byte_of a"
| "scalar_value [a, b] = (byte_of a mod 32) * 64 + byte_of b mod 64"
| "scalar_value [a, b, c] = (byte_of a mod 16) * 4096 + (byte_of b mod 64) * 64 + byte_of c mod 64"
| "scalar_value [a, b, c, d] =
     (byte_of a mod 8) * 262144 + (byte_of b mod 64) * 4096 + (byte_of c mod 64) * 64
       + byte_of d mod 64"
| "scalar_value _ = 0"

text \<open>\<open>char::is_control\<close>: the Unicode category Cc.\<close>

definition is_control :: "string \<Rightarrow> bool" where
  "is_control ch \<longleftrightarrow> (let v = scalar_value ch in v < 32 \<or> (127 \<le> v \<and> v < 160))"

definition has_control :: "string \<Rightarrow> bool" where
  "has_control s \<longleftrightarrow> list_ex is_control (utf8_chars s)"

text \<open>Digits in a given base, as \<open>Display\<close> (10) and \<open>LowerHex\<close> (16) print them.\<close>

definition digit_char :: "nat \<Rightarrow> char" where
  "digit_char d = (if d < 10 then char_of (48 + d) else char_of (87 + d))"

fun show_base :: "nat \<Rightarrow> nat \<Rightarrow> string" where
  "show_base b n =
     (if n < b \<or> b < 2 then [digit_char n] else show_base b (n div b) @ [digit_char (n mod b)])"

declare show_base.simps [simp del]

definition show_nat :: "nat \<Rightarrow> string" where
  "show_nat n = show_base 10 n"

text \<open>\<open>char::escape_default\<close>.\<close>

definition escape_default :: "string \<Rightarrow> string" where
  "escape_default ch =
     (let v = scalar_value ch in
      if v = 9 then [CHR 0x5C, CHR ''t'']
      else if v = 13 then [CHR 0x5C, CHR ''r'']
      else if v = 10 then [CHR 0x5C, CHR ''n'']
      else if v = 39 \<or> v = 34 \<or> v = 92 then CHR 0x5C # ch
      else if 32 \<le> v \<and> v \<le> 126 then ch
      else [CHR 0x5C, CHR ''u'', CHR ''{''] @ show_base 16 v @ [CHR ''}''])"

definition escape_str :: "string \<Rightarrow> string" where
  "escape_str s = concat (map escape_default (utf8_chars s))"

text \<open>
  \<open>str::trim\<close>: the encodings of the characters with the Unicode property
  \<open>White_Space\<close>.
\<close>

definition white_space :: "string list" where
  "white_space =
     map (\<lambda>n. [char_of n]) [9, 10, 11, 12, 13, 32 :: nat] @
     map (map (char_of :: nat \<Rightarrow> char))
       ([[0xC2, 0x85], [0xC2, 0xA0], [0xE1, 0x9A, 0x80]] @
        map (\<lambda>n. [0xE2, 0x80, n]) [0x80, 0x81, 0x82, 0x83, 0x84, 0x85, 0x86, 0x87, 0x88, 0x89, 0x8A,
                                   0xA8, 0xA9, 0xAF] @
        [[0xE2, 0x81, 0x9F], [0xE3, 0x80, 0x80]])"

definition is_white_space :: "string \<Rightarrow> bool" where
  "is_white_space ch \<longleftrightarrow> ch \<in> set white_space"

definition trim :: "string \<Rightarrow> string" where
  "trim s = concat (rev (dropWhile is_white_space (rev (dropWhile is_white_space (utf8_chars s)))))"

definition is_blank :: "string \<Rightarrow> bool" where
  "is_blank s \<longleftrightarrow> trim s = []"

section \<open>ASCII classes\<close>

definition is_ascii_lowercase :: "char \<Rightarrow> bool" where
  "is_ascii_lowercase c \<longleftrightarrow> 97 \<le> byte_of c \<and> byte_of c \<le> 122"

definition is_ascii_uppercase :: "char \<Rightarrow> bool" where
  "is_ascii_uppercase c \<longleftrightarrow> 65 \<le> byte_of c \<and> byte_of c \<le> 90"

definition is_ascii_digit :: "char \<Rightarrow> bool" where
  "is_ascii_digit c \<longleftrightarrow> 48 \<le> byte_of c \<and> byte_of c \<le> 57"

definition is_ascii_alphanumeric :: "char \<Rightarrow> bool" where
  "is_ascii_alphanumeric c \<longleftrightarrow> is_ascii_lowercase c \<or> is_ascii_uppercase c \<or> is_ascii_digit c"

section \<open>Maps\<close>

text \<open>
  What the components use of a map: lookup, insertion, removal. Both map types
  satisfy the contract; the lemmas proved from it hold of both.
\<close>

locale kv_map =
  fixes get :: "'m \<Rightarrow> 'k \<Rightarrow> 'v option"
    and put :: "'k \<Rightarrow> 'v \<Rightarrow> 'm \<Rightarrow> 'm"
    and del :: "'k \<Rightarrow> 'm \<Rightarrow> 'm"
    and wf :: "'m \<Rightarrow> bool"
    and size_of :: "'m \<Rightarrow> nat"
  assumes get_put: "wf m \<Longrightarrow> get (put k v m) = (get m)(k \<mapsto> v)"
    and get_del: "wf m \<Longrightarrow> get (del k m) = (get m)(k := None)"
    and wf_put: "wf m \<Longrightarrow> wf (put k v m)"
    and wf_del: "wf m \<Longrightarrow> wf (del k m)"
    and size_card: "wf m \<Longrightarrow> size_of m = card (dom (get m))"
    and finite_dom: "wf m \<Longrightarrow> finite (dom (get m))"
begin

lemma get_put_same: "wf m \<Longrightarrow> get (put k v m) k = Some v"
  by (simp add: get_put)

lemma get_put_other: "wf m \<Longrightarrow> k' \<noteq> k \<Longrightarrow> get (put k v m) k' = get m k'"
  by (simp add: get_put)

lemma size_put_new: "wf m \<Longrightarrow> get m k = None \<Longrightarrow> size_of (put k v m) = Suc (size_of m)"
  by (simp add: size_card wf_put get_put finite_dom domIff)

lemma size_put_old: "wf m \<Longrightarrow> get m k = Some w \<Longrightarrow> size_of (put k v m) = size_of m"
  by (simp add: size_card wf_put get_put insert_absorb domI)

lemma size_del_old: "wf m \<Longrightarrow> get m k = Some w \<Longrightarrow> Suc (size_of (del k m)) = size_of m"
  by (simp add: size_card wf_del get_del)
    (metis card_Suc_Diff1 domI finite_dom)

lemma size_del_absent: "wf m \<Longrightarrow> get m k = None \<Longrightarrow> size_of (del k m) = size_of m"
  by (simp add: size_card wf_del get_del) (simp add: domIff)

lemma size_put_le: "wf m \<Longrightarrow> size_of (put k v m) \<le> Suc (size_of m)"
  by (cases "get m k") (simp_all add: size_put_new size_put_old)

lemma put_put_last_wins: "wf m \<Longrightarrow> get (put k v2 (put k v1 m)) = get (put k v2 m)"
  by (simp add: get_put wf_put)

end

type_synonym ('k, 'v) btree = "('k \<times> 'v) list"

definition bt_wf :: "('k :: linorder, 'v) btree \<Rightarrow> bool" where
  "bt_wf m \<longleftrightarrow> sorted_wrt (<) (map fst m)"

definition bt_get :: "('k, 'v) btree \<Rightarrow> 'k \<Rightarrow> 'v option" where
  "bt_get m k = map_of m k"

fun bt_insert :: "'k :: linorder \<Rightarrow> 'v \<Rightarrow> ('k, 'v) btree \<Rightarrow> ('k, 'v) btree" where
  "bt_insert k v [] = [(k, v)]"
| "bt_insert k v ((k', v') # m) =
     (if k < k' then (k, v) # (k', v') # m
      else if k = k' then (k, v) # m
      else (k', v') # bt_insert k v m)"

definition bt_remove :: "'k \<Rightarrow> ('k, 'v) btree \<Rightarrow> ('k, 'v) btree" where
  "bt_remove k m = filter (\<lambda>(k', _). k' \<noteq> k) m"

definition bt_retain :: "('k \<Rightarrow> 'v \<Rightarrow> bool) \<Rightarrow> ('k, 'v) btree \<Rightarrow> ('k, 'v) btree" where
  "bt_retain p m = filter (\<lambda>(k, v). p k v) m"

text \<open>\<open>entry(k).or_insert(v)\<close>.\<close>

definition bt_or_insert :: "'k :: linorder \<Rightarrow> 'v \<Rightarrow> ('k, 'v) btree \<Rightarrow> ('k, 'v) btree" where
  "bt_or_insert k v m = (case bt_get m k of Some _ \<Rightarrow> m | None \<Rightarrow> bt_insert k v m)"

definition bt_of_list :: "('k :: linorder \<times> 'v) list \<Rightarrow> ('k, 'v) btree" where
  "bt_of_list xs = fold (\<lambda>(k, v) m. bt_insert k v m) xs []"

lemma bt_get_insert: "bt_get (bt_insert k v m) = (bt_get m)(k \<mapsto> v)"
  by (induction k v m rule: bt_insert.induct) (auto simp: bt_get_def fun_eq_iff)

lemma set_bt_insert_keys [simp]: "fst ` set (bt_insert k v m) = insert k (fst ` set m)"
  by (induction k v m rule: bt_insert.induct) auto

lemma bt_wf_Nil [simp]: "bt_wf []"
  by (simp add: bt_wf_def)

lemma bt_wf_insert [simp]: "bt_wf m \<Longrightarrow> bt_wf (bt_insert k v m)"
proof (induction k v m rule: bt_insert.induct)
  case (2 k v k' v' m)
  have "bt_wf m" using "2.prems" by (simp add: bt_wf_def)
  with "2" show ?case
    by (auto simp: bt_wf_def)
qed (simp add: bt_wf_def)

lemma bt_wf_distinct: "bt_wf m \<Longrightarrow> distinct (map fst m)"
  unfolding bt_wf_def by (simp add: strict_sorted_iff)

lemma bt_wf_filter [simp]: "bt_wf m \<Longrightarrow> bt_wf (filter p m)"
  by (induction m) (auto simp: bt_wf_def)

lemma map_of_filter_key:
  "distinct (map fst m) \<Longrightarrow> map_of (filter (\<lambda>(k, v). p k v) m) k =
     (case map_of m k of Some v \<Rightarrow> if p k v then Some v else None | None \<Rightarrow> None)"
  by (induction m) (force split: option.splits simp: rev_image_eqI)+

lemma bt_get_retain:
  "bt_wf m \<Longrightarrow> bt_get (bt_retain p m) k =
     (case bt_get m k of Some v \<Rightarrow> if p k v then Some v else None | None \<Rightarrow> None)"
  by (simp add: bt_get_def bt_retain_def map_of_filter_key bt_wf_distinct)

lemma bt_wf_retain [simp]: "bt_wf m \<Longrightarrow> bt_wf (bt_retain p m)"
  by (simp add: bt_retain_def)

lemma bt_wf_or_insert [simp]: "bt_wf m \<Longrightarrow> bt_wf (bt_or_insert k v m)"
  by (simp add: bt_or_insert_def split: option.splits)

lemma bt_get_or_insert:
  "bt_get (bt_or_insert k v m) j =
     (if j = k then (case bt_get m k of Some w \<Rightarrow> Some w | None \<Rightarrow> Some v) else bt_get m j)"
  by (simp add: bt_or_insert_def bt_get_insert split: option.splits)

lemma bt_get_in_set: "bt_wf m \<Longrightarrow> bt_get m k = Some v \<longleftrightarrow> (k, v) \<in> set m"
  by (simp add: bt_get_def bt_wf_distinct)

lemma bt_wf_of_list [simp]: "bt_wf (bt_of_list xs)"
proof -
  have "bt_wf m \<Longrightarrow> bt_wf (fold (\<lambda>(k, v) m. bt_insert k v m) xs m)" for m
    by (induction xs arbitrary: m) auto
  then show ?thesis by (simp add: bt_of_list_def)
qed

lemma map_of_rev: "distinct (map fst xs) \<Longrightarrow> map_of (rev xs) = map_of xs"
  by (subst map_of_inject_set) (simp_all add: rev_map [symmetric])

lemma bt_get_of_list: "bt_get (bt_of_list xs) = map_of (rev xs)"
proof -
  have "bt_get (fold (\<lambda>(k, v) m. bt_insert k v m) xs m) = bt_get m ++ map_of (rev xs)" for m
    by (induction xs arbitrary: m)
      (auto simp: bt_get_insert fun_eq_iff map_add_def split: option.splits)
  then show ?thesis by (simp add: bt_of_list_def bt_get_def fun_eq_iff map_add_def split: option.splits)
qed

interpretation bt: kv_map bt_get bt_insert bt_remove bt_wf length
proof (unfold_locales, goal_cases)
  case (1 m k v) then show ?case by (simp add: bt_get_insert)
next
  case (2 m k)
  then show ?case
    by (auto simp: bt_get_def bt_remove_def map_of_filter_key bt_wf_distinct fun_eq_iff
        split: option.splits)
next
  case (3 m k v) then show ?case by simp
next
  case (4 m k) then show ?case by (simp add: bt_remove_def)
next
  case (5 m)
  then show ?case
    by (metis (no_types, lifting) bt_get_def bt_wf_distinct distinct_card dom_map_of_conv_image_fst
        ext length_map list.set_map)
next
  case (6 m) then show ?case by (simp add: bt_get_def[abs_def] finite_dom_map_of)
qed

type_synonym ('k, 'v) hashmap = "('k \<times> 'v) list"

definition hm_wf :: "('k, 'v) hashmap \<Rightarrow> bool" where
  "hm_wf m \<longleftrightarrow> distinct (map fst m)"

definition hm_get :: "('k, 'v) hashmap \<Rightarrow> 'k \<Rightarrow> 'v option" where
  "hm_get m k = map_of m k"

fun hm_insert :: "'k \<Rightarrow> 'v \<Rightarrow> ('k, 'v) hashmap \<Rightarrow> ('k, 'v) hashmap" where
  "hm_insert k v [] = [(k, v)]"
| "hm_insert k v ((k', v') # m) = (if k = k' then (k, v) # m else (k', v') # hm_insert k v m)"

definition hm_remove :: "'k \<Rightarrow> ('k, 'v) hashmap \<Rightarrow> ('k, 'v) hashmap" where
  "hm_remove k m = filter (\<lambda>(k', _). k' \<noteq> k) m"

lemma hm_get_insert: "hm_get (hm_insert k v m) = (hm_get m)(k \<mapsto> v)"
  by (induction k v m rule: hm_insert.induct) (auto simp: hm_get_def fun_eq_iff)

lemma set_hm_insert_keys [simp]: "fst ` set (hm_insert k v m) = insert k (fst ` set m)"
  by (induction k v m rule: hm_insert.induct) auto

lemma hm_wf_insert [simp]: "hm_wf m \<Longrightarrow> hm_wf (hm_insert k v m)"
  unfolding hm_wf_def by (induction k v m rule: hm_insert.induct) auto

lemma hm_wf_remove [simp]: "hm_wf m \<Longrightarrow> hm_wf (hm_remove k m)"
  by (simp add: hm_wf_def hm_remove_def distinct_map_filter)

lemma hm_wf_Nil [simp]: "hm_wf []"
  by (simp add: hm_wf_def)

lemma hm_get_Nil [simp]: "hm_get [] k = None"
  by (simp add: hm_get_def)

interpretation hm: kv_map hm_get hm_insert hm_remove hm_wf length
proof (unfold_locales, goal_cases)
  case (1 m k v) then show ?case by (simp add: hm_get_insert)
next
  case (2 m k)
  then show ?case
    by (auto simp: hm_get_def hm_remove_def map_of_filter_key hm_wf_def fun_eq_iff
        split: option.splits)
next
  case (3 m k v) then show ?case by simp
next
  case (4 m k) then show ?case by simp
next
  case (5 m)
  then show ?case
    by (metis (no_types, lifting) hm_get_def hm_wf_def distinct_card dom_map_of_conv_image_fst
        ext length_map list.set_map)
next
  case (6 m) then show ?case by (simp add: hm_get_def[abs_def] finite_dom_map_of)
qed

section \<open>Token codecs\<close>

text \<open>
  A closed set of values printed as text and parsed back: parsing inverts printing.
  Printing is then injective, so two different values never share a token in an
  audit record or a document.
\<close>

locale token_codec =
  fixes tok :: "'a \<Rightarrow> string"
    and prs :: "string \<Rightarrow> 'a option"
    and dom_ok :: "'a \<Rightarrow> bool"
  assumes prs_tok: "dom_ok x \<Longrightarrow> prs (tok x) = Some x"
begin

lemma tok_inj: "dom_ok x \<Longrightarrow> dom_ok y \<Longrightarrow> tok x = tok y \<longleftrightarrow> x = y"
  by (metis option.inject prs_tok)

lemma tok_inj_on: "inj_on tok (Collect dom_ok)"
  by (auto simp: inj_on_def tok_inj)

lemma distinct_toks: "distinct xs \<Longrightarrow> \<forall>x \<in> set xs. dom_ok x \<Longrightarrow> distinct (map tok xs)"
  by (simp add: distinct_map inj_on_def tok_inj)

end

text \<open>A codec in both directions: whatever parses is the printed form of its value.\<close>

locale strict_codec = token_codec +
  assumes tok_prs: "prs s = Some x \<Longrightarrow> dom_ok x \<and> tok x = s"
begin

lemma prs_inj: "prs s = Some x \<Longrightarrow> prs t = Some x \<Longrightarrow> s = t"
  using tok_prs by metis

lemma prs_Some_iff: "prs s = Some x \<longleftrightarrow> dom_ok x \<and> s = tok x"
  using tok_prs prs_tok by blast

end

section \<open>First-match search\<close>

text \<open>
  A loop that returns at the first element that hits. The laws are the two unfoldings of
  the loop; what a client uses is that the outcome exists exactly when some element hits,
  whatever the order.
\<close>

locale first_match =
  fixes search :: "'r list \<Rightarrow> 'a option" and hit :: "'r \<Rightarrow> 'a option"
  assumes search_Nil: "search [] = None"
    and search_Cons: "search (r # rs) = (case hit r of Some a \<Rightarrow> Some a | None \<Rightarrow> search rs)"
begin

lemma search_None_iff: "search rs = None \<longleftrightarrow> (\<forall>r \<in> set rs. hit r = None)"
  by (induction rs) (auto simp: search_Nil search_Cons split: option.splits)

lemma search_Some_in: "search rs = Some a \<Longrightarrow> \<exists>r \<in> set rs. hit r = Some a"
  by (induction rs) (auto simp: search_Nil search_Cons split: option.splits)

lemma search_append:
  "search (rs @ ts) = (case search rs of Some a \<Rightarrow> Some a | None \<Rightarrow> search ts)"
  by (induction rs) (auto simp: search_Nil search_Cons split: option.splits)

lemma search_first:
  "search rs = Some a \<Longrightarrow>
     \<exists>us r ts. rs = us @ r # ts \<and> (\<forall>u \<in> set us. hit u = None) \<and> hit r = Some a"
proof (induction rs)
  case (Cons r rs)
  show ?case
  proof (cases "hit r")
    case None
    with Cons obtain us q ts where "rs = us @ q # ts" "\<forall>u \<in> set us. hit u = None" "hit q = Some a"
      by (auto simp: search_Cons)
    with None show ?thesis
      by (intro exI [of _ "r # us"] exI [of _ q] exI [of _ ts]) simp
  next
    case (Some b)
    with Cons.prems show ?thesis
      by (intro exI [of _ "[]"] exI [of _ r] exI [of _ rs]) (simp add: search_Cons)
  qed
qed (simp add: search_Nil)

end

section \<open>Bytes\<close>

definition bytes_of :: "string \<Rightarrow> u8 list" where
  "bytes_of s = map (\<lambda>c. word_of_nat (byte_of c)) s"

fun le_bytes :: "nat \<Rightarrow> nat \<Rightarrow> u8 list" where
  "le_bytes 0 n = []"
| "le_bytes (Suc k) n = word_of_nat (n mod 256) # le_bytes k (n div 256)"

text \<open>\<open>to_be_bytes\<close> of an integer of \<open>k\<close> bytes.\<close>

definition be_bytes :: "nat \<Rightarrow> nat \<Rightarrow> u8 list" where
  "be_bytes k n = rev (le_bytes k n)"

lemma length_le_bytes [simp]: "length (le_bytes k n) = k"
  by (induction k arbitrary: n) auto

lemma length_be_bytes [simp]: "length (be_bytes k n) = k"
  by (simp add: be_bytes_def)

lemma word8_of_nat_eq: "a < 256 \<Longrightarrow> b < 256 \<Longrightarrow> (word_of_nat a :: u8) = word_of_nat b \<longleftrightarrow> a = b"
  by (auto dest!: arg_cong [of _ _ unat] simp: unat_of_nat)

lemma le_bytes_inj: "a < 256 ^ k \<Longrightarrow> b < 256 ^ k \<Longrightarrow> le_bytes k a = le_bytes k b \<longleftrightarrow> a = b"
proof (induction k arbitrary: a b)
  case (Suc k)
  have "a div 256 < 256 ^ k" "b div 256 < 256 ^ k"
    using Suc.prems by (simp_all add: less_mult_imp_div_less mult.commute)
  with Suc.IH show ?case
    by (simp add: word8_of_nat_eq) (metis div_mult_mod_eq)
qed simp

lemma be_bytes_inj: "a < 256 ^ k \<Longrightarrow> b < 256 ^ k \<Longrightarrow> be_bytes k a = be_bytes k b \<longleftrightarrow> a = b"
  by (simp add: be_bytes_def le_bytes_inj)

lemma byte_of_less: "byte_of c < 256"
  by (simp add: byte_of_def)

lemma byte_of_inj: "byte_of a = byte_of b \<longleftrightarrow> a = b"
  by (simp add: byte_of_def)

lemma length_bytes_of [simp]: "length (bytes_of s) = length s"
  by (simp add: bytes_of_def)

lemma bytes_of_inj [simp]: "bytes_of a = bytes_of b \<longleftrightarrow> a = b"
  unfolding bytes_of_def by (rule inj_map_eq_map) (simp add: inj_def word8_of_nat_eq byte_of_less byte_of_inj)

section \<open>Runs of a step relation and single-use stores\<close>

text \<open>A run of a labelled step relation, as the list of its labels.\<close>

inductive steps :: "('s \<Rightarrow> 'e \<Rightarrow> 's \<Rightarrow> bool) \<Rightarrow> 's \<Rightarrow> 'e list \<Rightarrow> 's \<Rightarrow> bool"
  for step :: "'s \<Rightarrow> 'e \<Rightarrow> 's \<Rightarrow> bool" where
  steps_nil: "steps step s [] s"
| steps_cons: "step s e t \<Longrightarrow> steps step t es u \<Longrightarrow> steps step s (e # es) u"

inductive_cases steps_ConsE: "steps step s (e # es) u"

lemma steps_invariant:
  assumes "steps step s es t" and "holds s" and "\<And>s e t. holds s \<Longrightarrow> step s e t \<Longrightarrow> holds t"
  shows "holds t"
  using assms(1,2) by (induction rule: steps.induct) (auto intro: assms(3))

text \<open>
  The contract of a store of single-use tickets: a step makes at most the ticket it issues
  live, and a consumed ticket was live and is not live afterwards. The lemma is
  exactly-once consumption over every run.
\<close>

locale single_use =
  fixes step :: "'s \<Rightarrow> 'e \<Rightarrow> 's \<Rightarrow> bool" and holds :: "'s \<Rightarrow> bool"
    and live :: "'s \<Rightarrow> 'c set" and issued :: "'e \<Rightarrow> 'c option" and consumed :: "'e \<Rightarrow> 'c option"
  assumes inv_step: "holds s \<Longrightarrow> step s e t \<Longrightarrow> holds t"
    and live_step: "holds s \<Longrightarrow> step s e t \<Longrightarrow> live t \<subseteq> live s \<union> set_option (issued e)"
    and consumed_live: "holds s \<Longrightarrow> step s e t \<Longrightarrow> consumed e = Some c \<Longrightarrow> c \<in> live s \<and> c \<notin> live t"
begin

lemma exactly_once:
  assumes "steps step s es t" and "holds s"
  shows "length (filter (\<lambda>e. consumed e = Some c) es) + (if c \<in> live t then 1 else 0)
     \<le> length (filter (\<lambda>e. issued e = Some c) es) + (if c \<in> live s then 1 else 0)"
  using assms
proof (induction rule: steps.induct)
  case (steps_cons s e t es u)
  have "length (filter (\<lambda>e. consumed e = Some c) es) + (if c \<in> live u then 1 else 0)
      \<le> length (filter (\<lambda>e. issued e = Some c) es) + (if c \<in> live t then 1 else 0)"
    using steps_cons inv_step by blast
  moreover have "(if consumed e = Some c then 1 else 0) + (if c \<in> live t then 1 else 0)
      \<le> (if issued e = Some c then 1 else 0) + (if c \<in> live s then 1 else (0 :: nat))"
    using live_step [OF steps_cons.prems steps_cons.hyps(1)]
      consumed_live [OF steps_cons.prems steps_cons.hyps(1), of c]
    by auto
  ultimately show ?case by (auto split: if_splits)
qed simp

end

end
