(* ===== verification/Glob.thy ===== *)
theory Glob
  imports Basil_Prelude
begin

text \<open>
  Target globs (\<open>core/catalog/glob.rs\<close>): the parser, the printer and the matcher of
  policy targets. A wildcard is only valid as the last segment; \<open>*\<close> stands for exactly
  one segment, \<open>**\<close> for one or more, and the whole term \<open>*\<close> for every key.

  Results: the printer and the parser are inverse on well-formed globs (the
  interpretation \<open>glob_codec\<close>), the matcher agrees with a reference reading of the
  pattern (\<open>glob_denotes\<close>), and the gate predicate \<open>matches_all\<close> recognises exactly the
  globs that match every key.
\<close>

datatype GlobSeg = Literal string | Star | DoubleStar

datatype KeyGlob = AnyKey | Pattern "GlobSeg list"

datatype GlobError =
    GlobEmpty string
  | WildcardNotLast string string
  | IntraSegment string string

fun parse_segs :: "string \<Rightarrow> nat \<Rightarrow> nat \<Rightarrow> string list \<Rightarrow> GlobError + GlobSeg list" where
  "parse_segs s lst i [] = Inr []"
| "parse_segs s lst i (seg # rest) =
     (if seg = [] then Inl (GlobEmpty s)
      else let is_last = (i = lst) in
        res_bind
          (if seg = ''*'' then
             if \<not> is_last then Inl (WildcardNotLast s ''*'') else Inr Star
           else if seg = ''**'' then
             if \<not> is_last then Inl (WildcardNotLast s ''**'') else Inr DoubleStar
           else if CHR ''*'' \<in> set seg then Inl (IntraSegment s seg)
           else Inr (Literal seg))
          (\<lambda>g. res_bind (parse_segs s lst (Suc i) rest) (\<lambda>gs. Inr (g # gs))))"

definition KeyGlob_parse :: "string \<Rightarrow> GlobError + KeyGlob" where
  "KeyGlob_parse s =
     (if s = ''*'' then Inr AnyKey
      else if s = [] then Inl (GlobEmpty s)
      else let raw = split_on (CHR ''.'') s; lst = length raw - 1 in
        res_bind (parse_segs s lst 0 raw) (\<lambda>segs. Inr (Pattern segs)))"

fun seg_source :: "GlobSeg \<Rightarrow> string" where
  "seg_source (Literal s) = s"
| "seg_source Star = ''*''"
| "seg_source DoubleStar = ''**''"

fun source :: "KeyGlob \<Rightarrow> string" where
  "source AnyKey = ''*''"
| "source (Pattern segs) = join_with ''.'' (map seg_source segs)"

fun lead_matches :: "GlobSeg list \<Rightarrow> string list \<Rightarrow> bool" where
  "lead_matches (Literal lit # segs) (k # ks) = (lit = k \<and> lead_matches segs ks)"
| "lead_matches (Star # segs) (k # ks) = False"
| "lead_matches (DoubleStar # segs) (k # ks) = False"
| "lead_matches _ _ = True"

definition pattern_matches :: "GlobSeg list \<Rightarrow> string list \<Rightarrow> bool" where
  "pattern_matches segs key =
     (if segs = [] then False
      else let last_seg = last segs; lead = butlast segs in
        if length key < length lead then False
        else if \<not> lead_matches lead key then False
        else let tail = drop (length lead) key in
          (case last_seg of
             Star \<Rightarrow> length tail = 1
           | DoubleStar \<Rightarrow> tail \<noteq> []
           | Literal lit \<Rightarrow> length tail = 1 \<and> hd tail = lit))"

definition glob_matches :: "KeyGlob \<Rightarrow> string \<Rightarrow> bool" where
  "glob_matches g dotted_key =
     (let key = split_on (CHR ''.'') dotted_key in
      case g of AnyKey \<Rightarrow> True | Pattern segs \<Rightarrow> pattern_matches segs key)"

definition is_any_key :: "KeyGlob \<Rightarrow> bool" where
  "is_any_key g = (case g of AnyKey \<Rightarrow> True | Pattern _ \<Rightarrow> False)"

definition matches_all :: "KeyGlob \<Rightarrow> bool" where
  "matches_all g = (case g of AnyKey \<Rightarrow> True | Pattern segs \<Rightarrow> segs = [DoubleStar])"

section \<open>Well-formed globs and the reference reading\<close>

definition lit_ok :: "string \<Rightarrow> bool" where
  "lit_ok l \<longleftrightarrow> l \<noteq> [] \<and> CHR ''.'' \<notin> set l \<and> CHR ''*'' \<notin> set l"

definition is_lit :: "GlobSeg \<Rightarrow> bool" where
  "is_lit g \<longleftrightarrow> (\<exists>l. g = Literal l \<and> lit_ok l)"

definition last_ok :: "GlobSeg \<Rightarrow> bool" where
  "last_ok g \<longleftrightarrow> g = Star \<or> g = DoubleStar \<or> is_lit g"

definition glob_wf :: "KeyGlob \<Rightarrow> bool" where
  "glob_wf g = (case g of AnyKey \<Rightarrow> True
     | Pattern segs \<Rightarrow> segs \<noteq> [] \<and> (\<forall>x \<in> set (butlast segs). is_lit x) \<and> last_ok (last segs)
         \<and> segs \<noteq> [Star])"

text \<open>
  The reference reading: the key's segments are the literal prefix followed by what the
  last segment stands for.
\<close>

fun last_denotes :: "GlobSeg \<Rightarrow> string list \<Rightarrow> bool" where
  "last_denotes (Literal l) ks \<longleftrightarrow> ks = [l]"
| "last_denotes Star ks \<longleftrightarrow> length ks = 1"
| "last_denotes DoubleStar ks \<longleftrightarrow> ks \<noteq> []"

inductive glob_denotes :: "KeyGlob \<Rightarrow> string \<Rightarrow> bool" where
  any: "glob_denotes AnyKey k"
| pattern: "split_on (CHR ''.'') k = lits @ tl_ks \<Longrightarrow> last_denotes g tl_ks \<Longrightarrow>
     glob_denotes (Pattern (map Literal lits @ [g])) k"

inductive_simps glob_denotes_AnyKey [simp]: "glob_denotes AnyKey k"
inductive_cases glob_denotes_PatternE: "glob_denotes (Pattern segs) k"

section \<open>The parser and the printer\<close>

lemma seg_source_no_dot:
  "is_lit g \<Longrightarrow> CHR ''.'' \<notin> set (seg_source g)"
  "last_ok g \<Longrightarrow> CHR ''.'' \<notin> set (seg_source g)"
  by (auto simp: is_lit_def last_ok_def lit_ok_def)

lemma seg_source_eq_cases:
  assumes "CHR ''.'' \<notin> set seg"
  shows "last_ok g \<and> seg_source g = seg \<longleftrightarrow>
     seg \<noteq> [] \<and> (seg = ''*'' \<and> g = Star \<or> seg = ''**'' \<and> g = DoubleStar \<or>
       CHR ''*'' \<notin> set seg \<and> g = Literal seg)"
  using assms by (cases g) (auto simp: last_ok_def is_lit_def lit_ok_def)

lemma is_lit_source_iff:
  assumes "CHR ''.'' \<notin> set seg"
  shows "is_lit g \<and> seg_source g = seg \<longleftrightarrow> seg \<noteq> [] \<and> CHR ''*'' \<notin> set seg \<and> g = Literal seg"
  using assms by (cases g) (auto simp: is_lit_def lit_ok_def)

lemma parse_segs_Inr:
  assumes "raw \<noteq> []" and "lst = i + length raw - 1" and "\<forall>p \<in> set raw. CHR ''.'' \<notin> set p"
  shows "parse_segs s lst i raw = Inr segs \<longleftrightarrow>
     segs \<noteq> [] \<and> map seg_source segs = raw \<and> (\<forall>x \<in> set (butlast segs). is_lit x) \<and> last_ok (last segs)"
  using assms
proof (induction raw arbitrary: i segs)
  case (Cons seg rest)
  show ?case
  proof (cases "rest = []")
    case True
    with Cons.prems have "i = lst" by simp
    with True Cons.prems show ?thesis
      using seg_source_eq_cases [of seg "hd segs"]
      by (cases segs) (auto simp: Let_def)
  next
    case False
    with Cons.prems have "i \<noteq> lst" and
      IH: "\<And>gs. parse_segs s lst (Suc i) rest = Inr gs \<longleftrightarrow>
        gs \<noteq> [] \<and> map seg_source gs = rest \<and> (\<forall>x \<in> set (butlast gs). is_lit x) \<and> last_ok (last gs)"
      using Cons.IH [of "Suc i"] by (auto simp: neq_Nil_conv)
    with False Cons.prems show ?thesis
      using is_lit_source_iff [of seg "hd segs"]
      by (cases segs) (auto simp: Let_def)
  qed
qed simp

lemma KeyGlob_parse_Pattern:
  assumes "s \<noteq> ''*''" and "s \<noteq> []"
  shows "KeyGlob_parse s = Inr g \<longleftrightarrow> (\<exists>segs. g = Pattern segs \<and> segs \<noteq> [] \<and>
     map seg_source segs = split_on (CHR ''.'') s \<and>
     (\<forall>x \<in> set (butlast segs). is_lit x) \<and> last_ok (last segs))"
proof -
  let ?raw = "split_on (CHR ''.'') s"
  have "parse_segs s (length ?raw - 1) 0 ?raw = Inr segs \<longleftrightarrow>
     segs \<noteq> [] \<and> map seg_source segs = ?raw \<and> (\<forall>x \<in> set (butlast segs). is_lit x) \<and> last_ok (last segs)"
    for segs
    by (rule parse_segs_Inr) (auto simp: split_on_no_sep)
  with assms show ?thesis by (auto simp: KeyGlob_parse_def Let_def)
qed

lemma seg_sources_no_dot:
  assumes "\<forall>x \<in> set (butlast segs). is_lit x" and "last_ok (last segs)"
  shows "\<forall>p \<in> set (map seg_source segs). CHR ''.'' \<notin> set p"
proof (cases segs rule: rev_cases)
  case (snoc ys y)
  with assms show ?thesis by (auto simp: seg_source_no_dot)
qed simp

lemma source_not_Nil: "glob_wf g \<Longrightarrow> source g \<noteq> []"
proof (cases g)
  case (Pattern segs)
  assume wf: "glob_wf g"
  then obtain x xs where segs: "segs = x # xs" using Pattern by (cases segs) (auto simp: glob_wf_def)
  with wf Pattern have "seg_source x \<noteq> []"
    by (cases xs) (auto simp: glob_wf_def last_ok_def is_lit_def lit_ok_def split: if_splits)
  with Pattern segs show ?thesis by (cases xs) auto
qed simp

lemma source_star_iff:
  assumes "glob_wf g"
  shows "source g = ''*'' \<longleftrightarrow> g = AnyKey"
proof (cases g)
  case (Pattern segs)
  have "source g \<noteq> ''*''"
  proof
    assume eq: "source g = ''*''"
    have "split_on (CHR ''.'') (source g) = map seg_source segs"
      using assms Pattern seg_sources_no_dot [of segs]
      by (auto simp: glob_wf_def intro!: split_join)
    with eq have "map seg_source segs = [''*'']" by simp
    then obtain x where "segs = [x]" "seg_source x = ''*''" by auto
    with assms Pattern show False
      by (cases x) (auto simp: glob_wf_def last_ok_def is_lit_def lit_ok_def)
  qed
  with Pattern show ?thesis by simp
qed simp

lemma parse_of_source: "glob_wf g \<Longrightarrow> KeyGlob_parse (source g) = Inr g"
proof (cases g)
  case (Pattern segs)
  assume wf: "glob_wf g"
  with Pattern have "split_on (CHR ''.'') (source g) = map seg_source segs"
    using seg_sources_no_dot [of segs] by (auto simp: glob_wf_def intro!: split_join)
  with wf Pattern source_not_Nil [of g] source_star_iff [of g] show ?thesis
    by (simp add: KeyGlob_parse_Pattern glob_wf_def)
qed (simp add: KeyGlob_parse_def)

lemma source_of_parse:
  assumes "KeyGlob_parse s = Inr g"
  shows "glob_wf g \<and> source g = s"
proof (cases "s = ''*''")
  case True
  with assms show ?thesis by (auto simp: KeyGlob_parse_def glob_wf_def)
next
  case star: False
  have "s \<noteq> []" using assms by (auto simp: KeyGlob_parse_def)
  with star assms obtain segs where g: "g = Pattern segs" "segs \<noteq> []"
    "map seg_source segs = split_on (CHR ''.'') s"
    "\<forall>x \<in> set (butlast segs). is_lit x" "last_ok (last segs)"
    by (auto simp: KeyGlob_parse_Pattern)
  have src: "source g = s" using g(1,3) by (simp add: join_split)
  have "segs \<noteq> [Star]"
  proof
    assume "segs = [Star]"
    with g(1) src have "s = ''*''" by simp
    with star show False by simp
  qed
  with g src show ?thesis by (simp add: glob_wf_def)
qed

definition parse_opt :: "string \<Rightarrow> KeyGlob option" where
  "parse_opt s = (case KeyGlob_parse s of Inl _ \<Rightarrow> None | Inr g \<Rightarrow> Some g)"

interpretation glob_codec: strict_codec source parse_opt glob_wf
  by unfold_locales
    (auto simp: parse_opt_def parse_of_source dest: source_of_parse split: sum.splits)

section \<open>Matching\<close>

lemma lead_matches_literals:
  "length ls \<le> length ks \<Longrightarrow> lead_matches (map Literal ls) ks \<longleftrightarrow> take (length ls) ks = ls"
proof (induction ls arbitrary: ks)
  case (Cons l ls)
  then show ?case by (cases ks) auto
qed simp

lemma wf_Pattern_split:
  assumes "glob_wf (Pattern segs)"
  obtains ls g where "segs = map Literal ls @ [g]"
proof -
  from assms have ne: "segs \<noteq> []" and lits: "\<forall>x \<in> set (butlast segs). is_lit x"
    by (auto simp: glob_wf_def)
  then have "\<forall>x \<in> set (butlast segs). \<exists>l. x = Literal l" by (auto simp: is_lit_def)
  then obtain ls where "butlast segs = map Literal ls"
    by (metis ex_map_conv)
  with ne have "segs = map Literal ls @ [last segs]" by (metis append_butlast_last_id)
  with that show ?thesis by blast
qed

lemma pattern_matches_iff:
  "pattern_matches (map Literal ls @ [g]) ks \<longleftrightarrow> (\<exists>tl_ks. ks = ls @ tl_ks \<and> last_denotes g tl_ks)"
proof (cases "length ks < length ls")
  case True
  then show ?thesis by (auto simp: pattern_matches_def Let_def)
next
  case False
  have "last_denotes g (drop (length ls) ks) \<longleftrightarrow>
     (case g of Star \<Rightarrow> length (drop (length ls) ks) = 1
       | DoubleStar \<Rightarrow> drop (length ls) ks \<noteq> []
       | Literal lit \<Rightarrow> length (drop (length ls) ks) = 1 \<and> hd (drop (length ls) ks) = lit)"
    by (cases g; cases "drop (length ls) ks") auto
  with False show ?thesis
    by (auto simp: pattern_matches_def Let_def lead_matches_literals)
       (metis append_take_drop_id)
qed

lemma glob_matches_denotes:
  assumes "glob_wf g"
  shows "glob_matches g k \<longleftrightarrow> glob_denotes g k"
proof (cases g)
  case (Pattern segs)
  with assms obtain ls x where segs: "segs = map Literal ls @ [x]" by (auto elim: wf_Pattern_split)
  have "glob_denotes g k \<longleftrightarrow> (\<exists>tl_ks. split_on (CHR ''.'') k = ls @ tl_ks \<and> last_denotes x tl_ks)"
    unfolding Pattern segs
    by (auto elim!: glob_denotes_PatternE intro: glob_denotes.pattern simp: inj_map_eq_map inj_def)
  with Pattern segs show ?thesis
    by (auto simp: glob_matches_def pattern_matches_iff)
qed (simp add: glob_matches_def)

text \<open>A glob other than \<open>*\<close> and \<open>**\<close> misses one of the keys \<open>a\<close> and \<open>b\<close>.\<close>

lemma not_matches_all_misses:
  assumes "glob_wf g" and "\<not> matches_all g"
  shows "\<not> glob_matches g ''a'' \<or> \<not> glob_matches g ''b''"
proof (cases g)
  case (Pattern segs)
  with assms obtain ls x where segs: "segs = map Literal ls @ [x]" by (auto elim: wf_Pattern_split)
  show ?thesis
  proof (cases ls)
    case Nil
    with assms Pattern segs show ?thesis
      by (cases x) (auto simp: glob_matches_def pattern_matches_def matches_all_def glob_wf_def)
  next
    case (Cons l ls')
    with Pattern segs have "g = Pattern (map Literal (l # ls') @ [x])" by simp
    then show ?thesis
      by (simp only: glob_matches_def pattern_matches_iff KeyGlob.case Let_def) auto
  qed
qed (use assms in \<open>simp add: matches_all_def\<close>)

lemma matches_all_matches: "matches_all g \<Longrightarrow> glob_matches g k"
  by (cases g) (auto simp: matches_all_def glob_matches_def pattern_matches_def)

section \<open>Properties\<close>

text \<open>
  C39: parsing and printing of key globs are inverse to each other. Parsing accepts a text
  exactly when it is the printed form of a well-formed glob, so every glob the parser
  returns prints back to the very text it was read from, and no two texts denote one glob.
\<close>

theorem glob_parse_print: "KeyGlob_parse s = Inr g \<longleftrightarrow> glob_wf g \<and> source g = s"
  using parse_of_source source_of_parse by blast

text \<open>
  The matcher computes the documented reading of a parsed glob (\<open>glob_denotes\<close>): literal
  leading segments match themselves, a final \<open>*\<close> stands for exactly one segment, a final
  \<open>**\<close> for one or more, and \<open>*\<close> alone for every key.
\<close>

theorem glob_matches_reference:
  "KeyGlob_parse s = Inr g \<Longrightarrow> glob_matches g k \<longleftrightarrow> glob_denotes g k"
  using source_of_parse glob_matches_denotes by blast

lemma glob_matches_reference_witness:
  "KeyGlob_parse ''db.*'' = Inr (Pattern [Literal ''db'', Star]) \<and>
   (glob_matches (Pattern [Literal ''db'', Star]) ''db.main'' \<longleftrightarrow>
    glob_denotes (Pattern [Literal ''db'', Star]) ''db.main'') \<and>
   glob_matches (Pattern [Literal ''db'', Star]) ''db.main''"
proof -
  have p: "KeyGlob_parse ''db.*'' = Inr (Pattern [Literal ''db'', Star])" by code_simp
  have "glob_matches (Pattern [Literal ''db'', Star]) ''db.main''" by code_simp
  with p glob_matches_reference [OF p, of "''db.main''"] show ?thesis by simp
qed

text \<open>
  C34: \<open>matches_all\<close> is exact for parsed globs: it holds exactly of the globs that match every
  key, so the loader's test for an all-keys rule has neither misses nor false alarms.
\<close>

theorem matches_all_exact:
  "KeyGlob_parse s = Inr g \<Longrightarrow> matches_all g \<longleftrightarrow> (\<forall>k. glob_matches g k)"
  using source_of_parse not_matches_all_misses matches_all_matches by blast

lemma matches_all_exact_witness:
  "KeyGlob_parse ''**'' = Inr (Pattern [DoubleStar]) \<and>
   (matches_all (Pattern [DoubleStar]) \<longleftrightarrow> (\<forall>k. glob_matches (Pattern [DoubleStar]) k)) \<and>
   matches_all (Pattern [DoubleStar])"
proof -
  have p: "KeyGlob_parse ''**'' = Inr (Pattern [DoubleStar])" by code_simp
  have "matches_all (Pattern [DoubleStar])" by code_simp
  with p matches_all_exact [OF p] show ?thesis by simp
qed

end
