(* ===== verification/Policy.thy ===== *)
theory Policy
  imports Glob
begin

text \<open>
  The vocabulary of the authorization policy (\<open>core/catalog/policy.rs\<close>): operations and
  their tokens, action terms, rules, the name and membership tables, and the resolved
  grants the decision point searches. Constructors of \<open>Op\<close> carry the prefix \<open>Op\<close>, since
  names such as \<open>Set\<close> and \<open>List\<close> belong to the library.

  Results: operation tokens are a strict codec (\<open>op_codec\<close>), so an audit token names one
  operation; the operations a wildcard action expands to never include an administrative
  or purpose-specific one.
\<close>

datatype Op =
    OpGet
  | OpList
  | OpGetPublicKey
  | OpVerify
  | OpSign
  | OpEncrypt
  | OpDecrypt
  | OpMint
  | OpSignNatsJwt
  | OpValidateNatsJwt
  | OpEncryptNatsCurve
  | OpDecryptNatsCurve
  | OpValidate
  | OpSet
  | OpRotate
  | OpImport
  | OpNewKey
  | OpEnrollNixCacheKey
  | OpSignNixCacheFingerprint
  | OpReload
  | OpExplain
  | OpRevoke
  | OpWatch
  | OpConnectionStatus
  | OpConnectionDrop
  | OpUseSoftwareCustody

definition ALL_OPS :: "Op list" where
  "ALL_OPS = [OpGet, OpList, OpGetPublicKey, OpVerify,
     OpSign, OpEncrypt, OpDecrypt, OpMint, OpSignNatsJwt, OpValidateNatsJwt,
     OpEncryptNatsCurve, OpDecryptNatsCurve, OpValidate, OpSet,
     OpRotate, OpImport, OpNewKey]"

definition is_write :: "Op \<Rightarrow> bool" where
  "is_write op \<longleftrightarrow> op \<in> {OpSet, OpRotate, OpImport, OpNewKey, OpEnrollNixCacheKey}"

fun op_token :: "Op \<Rightarrow> string" where
  "op_token OpGet = ''get''"
| "op_token OpList = ''list''"
| "op_token OpGetPublicKey = ''get_public_key''"
| "op_token OpVerify = ''verify''"
| "op_token OpSign = ''sign''"
| "op_token OpEncrypt = ''encrypt''"
| "op_token OpDecrypt = ''decrypt''"
| "op_token OpMint = ''mint''"
| "op_token OpSignNatsJwt = ''sign_nats_jwt''"
| "op_token OpValidateNatsJwt = ''validate_nats_jwt''"
| "op_token OpEncryptNatsCurve = ''encrypt_nats_curve''"
| "op_token OpDecryptNatsCurve = ''decrypt_nats_curve''"
| "op_token OpValidate = ''validate''"
| "op_token OpSet = ''set''"
| "op_token OpRotate = ''rotate''"
| "op_token OpImport = ''import''"
| "op_token OpNewKey = ''new_key''"
| "op_token OpEnrollNixCacheKey = ''enroll_nix_cache_key''"
| "op_token OpSignNixCacheFingerprint = ''sign_nix_cache_fingerprint''"
| "op_token OpReload = ''reload''"
| "op_token OpExplain = ''explain''"
| "op_token OpRevoke = ''revoke''"
| "op_token OpWatch = ''watch''"
| "op_token OpConnectionStatus = ''connection_status''"
| "op_token OpConnectionDrop = ''connection_drop''"
| "op_token OpUseSoftwareCustody = ''use_software_custody''"

datatype ActionTermError = BadAction string | UnknownOp string

definition op_parse :: "string \<Rightarrow> ActionTermError + Op" where
  "op_parse token =
     (if token = ''get'' then Inr OpGet
      else if token = ''list'' then Inr OpList
      else if token = ''get_public_key'' then Inr OpGetPublicKey
      else if token = ''verify'' then Inr OpVerify
      else if token = ''sign'' then Inr OpSign
      else if token = ''encrypt'' then Inr OpEncrypt
      else if token = ''decrypt'' then Inr OpDecrypt
      else if token = ''mint'' then Inr OpMint
      else if token = ''sign_nats_jwt'' then Inr OpSignNatsJwt
      else if token = ''validate_nats_jwt'' then Inr OpValidateNatsJwt
      else if token = ''encrypt_nats_curve'' then Inr OpEncryptNatsCurve
      else if token = ''decrypt_nats_curve'' then Inr OpDecryptNatsCurve
      else if token = ''validate'' then Inr OpValidate
      else if token = ''set'' then Inr OpSet
      else if token = ''rotate'' then Inr OpRotate
      else if token = ''import'' then Inr OpImport
      else if token = ''new_key'' then Inr OpNewKey
      else if token = ''enroll_nix_cache_key'' then Inr OpEnrollNixCacheKey
      else if token = ''sign_nix_cache_fingerprint'' then Inr OpSignNixCacheFingerprint
      else if token = ''reload'' then Inr OpReload
      else if token = ''explain'' then Inr OpExplain
      else if token = ''revoke'' then Inr OpRevoke
      else if token = ''watch'' then Inr OpWatch
      else if token = ''connection_status'' then Inr OpConnectionStatus
      else if token = ''connection_drop'' then Inr OpConnectionDrop
      else if token = ''use_software_custody'' then Inr OpUseSoftwareCustody
      else Inl (UnknownOp token))"

text \<open>The derived \<open>Ord\<close> of \<open>Op\<close> is declaration order.\<close>

fun op_rank :: "Op \<Rightarrow> nat" where
  "op_rank OpGet = 0"
| "op_rank OpList = 1"
| "op_rank OpGetPublicKey = 2"
| "op_rank OpVerify = 3"
| "op_rank OpSign = 4"
| "op_rank OpEncrypt = 5"
| "op_rank OpDecrypt = 6"
| "op_rank OpMint = 7"
| "op_rank OpSignNatsJwt = 8"
| "op_rank OpValidateNatsJwt = 9"
| "op_rank OpEncryptNatsCurve = 10"
| "op_rank OpDecryptNatsCurve = 11"
| "op_rank OpValidate = 12"
| "op_rank OpSet = 13"
| "op_rank OpRotate = 14"
| "op_rank OpImport = 15"
| "op_rank OpNewKey = 16"
| "op_rank OpEnrollNixCacheKey = 17"
| "op_rank OpSignNixCacheFingerprint = 18"
| "op_rank OpReload = 19"
| "op_rank OpExplain = 20"
| "op_rank OpRevoke = 21"
| "op_rank OpWatch = 22"
| "op_rank OpConnectionStatus = 23"
| "op_rank OpConnectionDrop = 24"
| "op_rank OpUseSoftwareCustody = 25"

definition op_table :: "Op list" where
  "op_table = ALL_OPS @ [OpEnrollNixCacheKey, OpSignNixCacheFingerprint, OpReload, OpExplain,
     OpRevoke, OpWatch, OpConnectionStatus, OpConnectionDrop, OpUseSoftwareCustody]"

lemma op_table_rank: "op_table ! op_rank x = x"
  by (cases x) (simp_all add: op_table_def ALL_OPS_def)

lemma op_rank_inj [simp]: "op_rank x = op_rank y \<longleftrightarrow> x = y"
  by (metis op_table_rank)

instantiation Op :: linorder
begin

definition less_eq_Op :: "Op \<Rightarrow> Op \<Rightarrow> bool" where
  "less_eq_Op x y \<longleftrightarrow> op_rank x \<le> op_rank y"

definition less_Op :: "Op \<Rightarrow> Op \<Rightarrow> bool" where
  "less_Op x y \<longleftrightarrow> op_rank x < op_rank y"

instance
  by standard (auto simp: less_eq_Op_def less_Op_def)

end

lemma op_parse_token: "op_parse (op_token x) = Inr x"
  by (cases x) (simp_all add: op_parse_def)

lemma op_parse_Inr: "op_parse s = Inr x \<Longrightarrow> op_token x = s"
  by (auto simp: op_parse_def split: if_splits)

definition op_parse_opt :: "string \<Rightarrow> Op option" where
  "op_parse_opt s = (case op_parse s of Inl _ \<Rightarrow> None | Inr x \<Rightarrow> Some x)"

interpretation op_codec: strict_codec op_token op_parse_opt "\<lambda>_. True"
  by unfold_locales (auto simp: op_parse_opt_def op_parse_token dest: op_parse_Inr split: sum.splits)

section \<open>Signature keys and action terms\<close>

datatype SignatureKeyAlgorithm = SigEd25519 | SigNatsNkey

datatype ActionTerm = Role string | OpTerm Op | AnyOp

definition ActionTerm_parse :: "string \<Rightarrow> ActionTermError + ActionTerm" where
  "ActionTerm_parse t =
     (if t = ''*'' then Inr AnyOp
      else case strip_prefix ''role:'' t of
        Some role \<Rightarrow> Inr (Role role)
      | None \<Rightarrow> (case strip_prefix ''op:'' t of
          Some op \<Rightarrow> res_bind (op_parse op) (\<lambda>x. Inr (OpTerm x))
        | None \<Rightarrow> Inl (BadAction t)))"

text \<open>The spelling of a term in a grant's provenance (built in the loader).\<close>

fun action_spelling :: "ActionTerm \<Rightarrow> string" where
  "action_spelling (Role r) = ''role:'' @ r"
| "action_spelling (OpTerm x) = ''op:'' @ op_token x"
| "action_spelling AnyOp = ''*''"

lemma strip_prefix_role_op [simp]: "strip_prefix ''role:'' (CHR ''o'' # s) = None"
  by (simp add: strip_prefix_def)

lemma ActionTerm_parse_spelling: "ActionTerm_parse (action_spelling a) = Inr a"
proof (cases a)
  case (Role r)
  then show ?thesis using strip_prefix_append [of "''role:''" r] by (simp add: ActionTerm_parse_def)
next
  case (OpTerm x)
  then show ?thesis using strip_prefix_append [of "''op:''" "op_token x"]
    by (simp add: ActionTerm_parse_def op_parse_token)
qed (simp add: ActionTerm_parse_def)

lemma ActionTerm_parse_Inr: "ActionTerm_parse s = Inr a \<Longrightarrow> action_spelling a = s"
  by (auto simp: ActionTerm_parse_def strip_prefix_Some op_parse_Inr split: if_splits option.splits)

definition action_parse_opt :: "string \<Rightarrow> ActionTerm option" where
  "action_parse_opt s = (case ActionTerm_parse s of Inl _ \<Rightarrow> None | Inr a \<Rightarrow> Some a)"

interpretation action_codec: strict_codec action_spelling action_parse_opt "\<lambda>_. True"
  by unfold_locales
    (auto simp: action_parse_opt_def ActionTerm_parse_spelling dest: ActionTerm_parse_Inr
      split: sum.splits)

section \<open>Rules, tables and resolved grants\<close>

type_synonym SubjectName = string

record Rule =
  rule_id :: string
  rule_subjects :: "SubjectName list"
  rule_action :: "ActionTerm list"
  rule_target :: "KeyGlob list"
  rule_comment :: "string option"

record NameTable =
  users :: "(u32, string) btree"
  groups :: "(u32, string) btree"

record Config =
  names :: NameTable
  memberships :: "(u32, u32 list) btree"

definition name_num :: "string option \<Rightarrow> u32 \<Rightarrow> string" where
  "name_num name num =
     (case name of None \<Rightarrow> show_nat (unat num)
      | Some n \<Rightarrow> n @ ''('' @ show_nat (unat num) @ '')'')"

definition user_name_num :: "Config \<Rightarrow> u32 \<Rightarrow> string" where
  "user_name_num cfg uid = name_num (bt_get (users (names cfg)) uid) uid"

definition group_name_num :: "Config \<Rightarrow> u32 \<Rightarrow> string" where
  "group_name_num cfg gid = name_num (bt_get (groups (names cfg)) gid) gid"

definition groups_of :: "Config \<Rightarrow> u32 \<Rightarrow> u32 list option" where
  "groups_of cfg uid = bt_get (memberships cfg) uid"

record Grant =
  g_op :: Op
  g_target :: KeyGlob
  g_rule_id :: string
  g_action :: string

record ResolvedRule =
  rr_subjects :: "SubjectName list"
  rr_grants :: "Grant list"

section \<open>Which operations a wildcard covers\<close>

definition is_admin_op :: "Op \<Rightarrow> bool" where
  "is_admin_op op \<longleftrightarrow>
     op \<in> {OpReload, OpExplain, OpRevoke, OpWatch, OpConnectionStatus, OpConnectionDrop}"

lemma ALL_OPS_iff:
  "op \<in> set ALL_OPS \<longleftrightarrow> \<not> is_admin_op op \<and>
     op \<notin> {OpEnrollNixCacheKey, OpSignNixCacheFingerprint, OpUseSoftwareCustody}"
  by (cases op) (simp_all add: ALL_OPS_def is_admin_op_def)

lemma distinct_ALL_OPS: "distinct ALL_OPS"
  by (simp add: ALL_OPS_def)

end
