(* ===== verification/Evidence.thy ===== *)
theory Evidence
  imports Policy
begin

text \<open>
  Authorization evidence (\<open>core/catalog/evidence.rs\<close>): the immutable snapshot of what is
  known about a caller, three-state predicates over it, recursive \<open>all\<close>/\<open>any\<close> subject
  expressions, and the resolution of exactly one domain-scoped subject. The loops of
  \<open>evaluate_all\<close> and \<open>evaluate_any\<close> keep their early returns and their flags.

  Results: the loops compute the strong Kleene connectives; evaluation is monotone in the
  available evidence, so missing evidence never produces an answer that more evidence
  would contradict; the signature-path evaluator agrees with the plain one and reports a
  binding exactly when a verified signature leaf carries the match; resolution succeeds
  exactly when one subject matches and none is undetermined.
\<close>

section \<open>Selectors, predicates and expressions\<close>

definition MAX_EXPRESSION_DEPTH :: nat where "MAX_EXPRESSION_DEPTH = 8"
definition MAX_EXPRESSION_LEAVES :: nat where "MAX_EXPRESSION_LEAVES = 64"
definition MAX_REPORTED_SUBJECTS :: nat where "MAX_REPORTED_SUBJECTS = 8"

datatype AuthorizationDomain = HostProcess | SystemdUnitDomain

fun domain_token :: "AuthorizationDomain \<Rightarrow> string" where
  "domain_token HostProcess = ''host-process''"
| "domain_token SystemdUnitDomain = ''systemd-unit''"

datatype LocalAccountSource = Passwd | Group

datatype IdentitySelector = Numeric u32 | LocalName string u32 LocalAccountSource

fun selector_id :: "IdentitySelector \<Rightarrow> u32" where
  "selector_id (Numeric i) = i"
| "selector_id (LocalName n i s) = i"

definition is_symbolic :: "IdentitySelector \<Rightarrow> bool" where
  "is_symbolic s = (case s of LocalName _ _ _ \<Rightarrow> True | Numeric _ \<Rightarrow> False)"

record SystemdSelector =
  sel_name :: string
  sel_manager_user :: "IdentitySelector option"

datatype CredentialSlot = Real | Effective | Saved | Filesystem

datatype EvidencePredicate =
    ProcessUid IdentitySelector
  | ProcessUidSlot CredentialSlot IdentitySelector
  | ProcessGid IdentitySelector
  | ProcessGidSlot CredentialSlot IdentitySelector
  | ProcessGidSupplementary IdentitySelector
  | ProcessExecutableDigest string
  | SystemdUnit SystemdSelector
  | SystemdTemplate SystemdSelector
  | InvocationSignatureKey SignatureKeyAlgorithm string

datatype EvidenceExpression =
    EvAll "EvidenceExpression list"
  | EvAny "EvidenceExpression list"
  | EvLeaf EvidencePredicate

text \<open>\<open>iter().max().unwrap_or(0)\<close> on naturals is the maximum with 0.\<close>

fun depth :: "EvidenceExpression \<Rightarrow> nat" where
  "depth (EvLeaf p) = 0"
| "depth (EvAll cs) = 1 + foldr max (map depth cs) 0"
| "depth (EvAny cs) = 1 + foldr max (map depth cs) 0"

fun leaf_count :: "EvidenceExpression \<Rightarrow> nat" where
  "leaf_count (EvLeaf p) = 1"
| "leaf_count (EvAll cs) = sum_list (map leaf_count cs)"
| "leaf_count (EvAny cs) = sum_list (map leaf_count cs)"

text \<open>The leaves in the order \<open>visit_leaves\<close> visits them.\<close>

fun visit_leaves :: "EvidenceExpression \<Rightarrow> EvidencePredicate list" where
  "visit_leaves (EvLeaf p) = [p]"
| "visit_leaves (EvAll cs) = concat (map visit_leaves cs)"
| "visit_leaves (EvAny cs) = concat (map visit_leaves cs)"

section \<open>Evidence and three-state results\<close>

datatype EvidenceState = StMatch | StNoMatch | StUnavailable

fun state_token :: "EvidenceState \<Rightarrow> string" where
  "state_token StMatch = ''match''"
| "state_token StNoMatch = ''no-match''"
| "state_token StUnavailable = ''unavailable''"

datatype 'a EvidenceValue = Available 'a | Unavailable

fun ev_compare :: "'a EvidenceValue \<Rightarrow> 'a \<Rightarrow> EvidenceState" where
  "ev_compare (Available actual) expected = (if actual = expected then StMatch else StNoMatch)"
| "ev_compare Unavailable expected = StUnavailable"

record CredentialSlots =
  cs_real :: u32
  cs_effective :: u32
  cs_saved :: u32
  cs_filesystem :: u32

definition uniform :: "u32 \<Rightarrow> CredentialSlots" where
  "uniform i = \<lparr>cs_real = i, cs_effective = i, cs_saved = i, cs_filesystem = i\<rparr>"

fun slot :: "CredentialSlots \<Rightarrow> CredentialSlot \<Rightarrow> u32" where
  "slot cs Real = cs_real cs"
| "slot cs Effective = cs_effective cs"
| "slot cs Saved = cs_saved cs"
| "slot cs Filesystem = cs_filesystem cs"

definition all_equal :: "CredentialSlots \<Rightarrow> u32 \<Rightarrow> bool" where
  "all_equal cs expected \<longleftrightarrow> cs_real cs = expected \<and> cs_effective cs = expected \<and>
     cs_saved cs = expected \<and> cs_filesystem cs = expected"

record ProcessEvidence =
  uids :: "CredentialSlots EvidenceValue"
  gids :: "CredentialSlots EvidenceValue"
  supplementary_gids :: "u32 list EvidenceValue"
  executable_digest :: "string EvidenceValue"

record SystemdEvidence =
  sd_unit :: string
  sd_template :: "string option"
  sd_manager_user :: "u32 option"

record SignatureKeyEvidence =
  sk_algorithm :: SignatureKeyAlgorithm
  sk_public :: string

record EvidenceSnapshot =
  ev_domain :: "AuthorizationDomain EvidenceValue"
  ev_process :: ProcessEvidence
  ev_systemd :: "SystemdEvidence EvidenceValue"
  ev_signature_key :: "SignatureKeyEvidence EvidenceValue"

definition compare_slots ::
    "CredentialSlots EvidenceValue \<Rightarrow> u32 \<Rightarrow> CredentialSlot option \<Rightarrow> EvidenceState" where
  "compare_slots evidence expected sl =
     (case evidence of
        Available actual \<Rightarrow>
          if (case sl of None \<Rightarrow> all_equal actual expected | Some s \<Rightarrow> slot actual s = expected)
          then StMatch else StNoMatch
      | Unavailable \<Rightarrow> StUnavailable)"

definition compare_membership :: "u32 list EvidenceValue \<Rightarrow> u32 \<Rightarrow> EvidenceState" where
  "compare_membership evidence expected =
     (case evidence of
        Available actual \<Rightarrow> if expected \<in> set actual then StMatch else StNoMatch
      | Unavailable \<Rightarrow> StUnavailable)"

definition compare_systemd ::
    "SystemdEvidence EvidenceValue \<Rightarrow> string \<Rightarrow> u32 option \<Rightarrow> bool \<Rightarrow> EvidenceState" where
  "compare_systemd evidence nm manager_user template =
     (case evidence of
        Available actual \<Rightarrow>
          let actual_name = (if template then sd_template actual else Some (sd_unit actual)) in
          if actual_name = Some nm \<and> sd_manager_user actual = manager_user
          then StMatch else StNoMatch
      | Unavailable \<Rightarrow> StUnavailable)"

fun snapshot_evaluate :: "EvidenceSnapshot \<Rightarrow> EvidencePredicate \<Rightarrow> EvidenceState" where
  "snapshot_evaluate ev (ProcessUid s) = compare_slots (uids (ev_process ev)) (selector_id s) None"
| "snapshot_evaluate ev (ProcessUidSlot sl s) =
     compare_slots (uids (ev_process ev)) (selector_id s) (Some sl)"
| "snapshot_evaluate ev (ProcessGid s) = compare_slots (gids (ev_process ev)) (selector_id s) None"
| "snapshot_evaluate ev (ProcessGidSlot sl s) =
     compare_slots (gids (ev_process ev)) (selector_id s) (Some sl)"
| "snapshot_evaluate ev (ProcessGidSupplementary s) =
     compare_membership (supplementary_gids (ev_process ev)) (selector_id s)"
| "snapshot_evaluate ev (ProcessExecutableDigest d) =
     ev_compare (executable_digest (ev_process ev)) d"
| "snapshot_evaluate ev (SystemdUnit s) =
     compare_systemd (ev_systemd ev) (sel_name s) (map_option selector_id (sel_manager_user s)) False"
| "snapshot_evaluate ev (SystemdTemplate s) =
     compare_systemd (ev_systemd ev) (sel_name s) (map_option selector_id (sel_manager_user s)) True"
| "snapshot_evaluate ev (InvocationSignatureKey a p) =
     ev_compare (ev_signature_key ev) \<lparr>sk_algorithm = a, sk_public = p\<rparr>"

section \<open>Expressions\<close>

text \<open>The boolean argument of the two loops is \<open>saw_unavailable\<close>.\<close>

fun evaluate :: "EvidenceExpression \<Rightarrow> EvidenceSnapshot \<Rightarrow> EvidenceState"
  and evaluate_all :: "EvidenceExpression list \<Rightarrow> EvidenceSnapshot \<Rightarrow> bool \<Rightarrow> EvidenceState"
  and evaluate_any :: "EvidenceExpression list \<Rightarrow> EvidenceSnapshot \<Rightarrow> bool \<Rightarrow> EvidenceState" where
  "evaluate (EvLeaf p) ev = snapshot_evaluate ev p"
| "evaluate (EvAll cs) ev = evaluate_all cs ev False"
| "evaluate (EvAny cs) ev = evaluate_any cs ev False"
| "evaluate_all [] ev saw_unavailable = (if saw_unavailable then StUnavailable else StMatch)"
| "evaluate_all (c # cs) ev saw_unavailable =
     (case evaluate c ev of
        StNoMatch \<Rightarrow> StNoMatch
      | StUnavailable \<Rightarrow> evaluate_all cs ev True
      | StMatch \<Rightarrow> evaluate_all cs ev saw_unavailable)"
| "evaluate_any [] ev saw_unavailable = (if saw_unavailable then StUnavailable else StNoMatch)"
| "evaluate_any (c # cs) ev saw_unavailable =
     (case evaluate c ev of
        StMatch \<Rightarrow> StMatch
      | StUnavailable \<Rightarrow> evaluate_any cs ev True
      | StNoMatch \<Rightarrow> evaluate_any cs ev saw_unavailable)"

definition is_signature_leaf :: "EvidencePredicate \<Rightarrow> bool" where
  "is_signature_leaf p = (case p of InvocationSignatureKey _ _ \<Rightarrow> True | _ \<Rightarrow> False)"

text \<open>
  The loop of the \<open>All\<close> arm carries \<open>state\<close> and \<open>signature_bound\<close>; the loop of the \<open>Any\<close>
  arm carries \<open>saw_match\<close>, \<open>saw_unavailable\<close> and \<open>signature_bound\<close>.
\<close>

fun evaluate_with_signature_path ::
    "EvidenceExpression \<Rightarrow> EvidenceSnapshot \<Rightarrow> EvidenceState \<times> bool"
  and sig_path_all ::
    "EvidenceExpression list \<Rightarrow> EvidenceSnapshot \<Rightarrow> EvidenceState \<Rightarrow> bool \<Rightarrow> EvidenceState \<times> bool"
  and sig_path_any ::
    "EvidenceExpression list \<Rightarrow> EvidenceSnapshot \<Rightarrow> bool \<Rightarrow> bool \<Rightarrow> bool \<Rightarrow> EvidenceState \<times> bool" where
  "evaluate_with_signature_path (EvLeaf p) ev = (snapshot_evaluate ev p, is_signature_leaf p)"
| "evaluate_with_signature_path (EvAll cs) ev = sig_path_all cs ev StMatch False"
| "evaluate_with_signature_path (EvAny cs) ev = sig_path_any cs ev False False False"
| "sig_path_all [] ev st bound = (st, st = StMatch \<and> bound)"
| "sig_path_all (c # cs) ev st bound =
     (case evaluate_with_signature_path c ev of (child_state, child_bound) \<Rightarrow>
        let bound' = (bound \<or> (child_state = StMatch \<and> child_bound)) in
        if child_state = StNoMatch then (StNoMatch, False)
        else sig_path_all cs ev (if child_state = StUnavailable then StUnavailable else st) bound')"
| "sig_path_any [] ev saw_match saw_unavailable bound =
     (if saw_match then (StMatch, bound)
      else if saw_unavailable then (StUnavailable, False)
      else (StNoMatch, False))"
| "sig_path_any (c # cs) ev saw_match saw_unavailable bound =
     (case evaluate_with_signature_path c ev of (child_state, child_bound) \<Rightarrow>
        (case child_state of
           StMatch \<Rightarrow> sig_path_any cs ev True saw_unavailable (bound \<or> child_bound)
         | StUnavailable \<Rightarrow> sig_path_any cs ev saw_match True bound
         | StNoMatch \<Rightarrow> sig_path_any cs ev saw_match saw_unavailable bound))"

definition evaluate_for_resolution :: "EvidenceExpression \<Rightarrow> EvidenceSnapshot \<Rightarrow> EvidenceState" where
  "evaluate_for_resolution e ev =
     (let require_signature = (case ev_signature_key ev of Available _ \<Rightarrow> True | Unavailable \<Rightarrow> False)
      in case evaluate_with_signature_path e ev of (st, signature_bound) \<Rightarrow>
        if require_signature \<and> st = StMatch \<and> \<not> signature_bound then StNoMatch else st)"

section \<open>Subjects and their resolution\<close>

record SubjectDefinition =
  sub_domain :: AuthorizationDomain
  sub_break_glass :: bool
  sub_match :: EvidenceExpression

record ResolvedPolicy =
  subjects :: "(SubjectName, SubjectDefinition) btree"
  rules :: "ResolvedRule list"

definition grant_count :: "ResolvedPolicy \<Rightarrow> nat" where
  "grant_count p = sum_list (map (length \<circ> rr_grants) (rules p))"

record SubjectResolution =
  res_domain :: AuthorizationDomain
  res_subject :: "SubjectName option"
  matching_subjects :: "SubjectName list"
  matching_count :: nat
  no_match_count :: nat
  unavailable_count :: nat
  matching_subjects_truncated :: bool

datatype EvidenceResolutionError =
    DomainUnavailable
  | NoSubject SubjectResolution
  | AmbiguousSubject SubjectResolution
  | EvidenceUnavailable SubjectResolution

fun resolve_loop ::
    "AuthorizationDomain \<Rightarrow> EvidenceSnapshot \<Rightarrow> (SubjectName \<times> SubjectDefinition) list \<Rightarrow>
     SubjectName list \<Rightarrow> nat \<Rightarrow> nat \<Rightarrow> nat \<Rightarrow> SubjectName list \<times> nat \<times> nat \<times> nat" where
  "resolve_loop domain ev [] matching mc nc uc = (matching, mc, nc, uc)"
| "resolve_loop domain ev ((nm, def) # rest) matching mc nc uc =
     (if sub_domain def \<noteq> domain then resolve_loop domain ev rest matching mc nc uc
      else case evaluate_for_resolution (sub_match def) ev of
        StMatch \<Rightarrow> resolve_loop domain ev rest
          (if length matching < MAX_REPORTED_SUBJECTS then matching @ [nm] else matching) (mc + 1) nc uc
      | StNoMatch \<Rightarrow> resolve_loop domain ev rest matching mc (nc + 1) uc
      | StUnavailable \<Rightarrow> resolve_loop domain ev rest matching mc nc (uc + 1))"

definition resolve_subject ::
    "(SubjectName, SubjectDefinition) btree \<Rightarrow> EvidenceSnapshot \<Rightarrow>
     EvidenceResolutionError + SubjectResolution" where
  "resolve_subject subs ev =
     (case ev_domain ev of
        Unavailable \<Rightarrow> Inl DomainUnavailable
      | Available domain \<Rightarrow>
          (case resolve_loop domain ev subs [] 0 0 0 of (matching, mc, nc, uc) \<Rightarrow>
             let subject = (if mc = 1 \<and> uc = 0
                   then (case matching of [] \<Rightarrow> None | x # _ \<Rightarrow> Some x) else None);
                 resolution = \<lparr>res_domain = domain, res_subject = subject,
                   matching_subjects = matching, matching_count = mc, no_match_count = nc,
                   unavailable_count = uc,
                   matching_subjects_truncated = (mc > MAX_REPORTED_SUBJECTS)\<rparr>
             in if mc > 1 then Inl (AmbiguousSubject resolution)
                else if uc > 0 then Inl (EvidenceUnavailable resolution)
                else if mc = 0 then Inl (NoSubject resolution)
                else Inr resolution))"


section \<open>The connectives are Kleene's\<close>

definition kleene_all :: "EvidenceState list \<Rightarrow> EvidenceState" where
  "kleene_all xs = (if StNoMatch \<in> set xs then StNoMatch
     else if StUnavailable \<in> set xs then StUnavailable else StMatch)"

definition kleene_any :: "EvidenceState list \<Rightarrow> EvidenceState" where
  "kleene_any xs = (if StMatch \<in> set xs then StMatch
     else if StUnavailable \<in> set xs then StUnavailable else StNoMatch)"

lemma evaluate_all_eq:
  "evaluate_all cs ev saw =
     (if StNoMatch \<in> set (map (\<lambda>c. evaluate c ev) cs) then StNoMatch
      else if saw \<or> StUnavailable \<in> set (map (\<lambda>c. evaluate c ev) cs) then StUnavailable else StMatch)"
  by (induction cs arbitrary: saw) (auto split: EvidenceState.splits)

lemma evaluate_any_eq:
  "evaluate_any cs ev saw =
     (if StMatch \<in> set (map (\<lambda>c. evaluate c ev) cs) then StMatch
      else if saw \<or> StUnavailable \<in> set (map (\<lambda>c. evaluate c ev) cs) then StUnavailable else StNoMatch)"
  by (induction cs arbitrary: saw) (auto split: EvidenceState.splits)

lemma evaluate_EvAll: "evaluate (EvAll cs) ev = kleene_all (map (\<lambda>c. evaluate c ev) cs)"
  unfolding evaluate.simps evaluate_all_eq kleene_all_def by simp

lemma evaluate_EvAny: "evaluate (EvAny cs) ev = kleene_any (map (\<lambda>c. evaluate c ev) cs)"
  unfolding evaluate.simps evaluate_any_eq kleene_any_def by simp

lemma kleene_all_Match: "kleene_all xs = StMatch \<longleftrightarrow> (\<forall>x \<in> set xs. x = StMatch)"
  by (auto simp: kleene_all_def) (metis EvidenceState.exhaust)

lemma kleene_any_Match: "kleene_any xs = StMatch \<longleftrightarrow> StMatch \<in> set xs"
  by (auto simp: kleene_any_def)

section \<open>Monotonicity in the evidence\<close>

text \<open>
  Evidence grows when unavailable parts become available; a result grows when
  \<open>StUnavailable\<close> becomes one of the two answers.
\<close>

fun ev_le :: "'a EvidenceValue \<Rightarrow> 'a EvidenceValue \<Rightarrow> bool" where
  "ev_le Unavailable y = True"
| "ev_le (Available x) y = (y = Available x)"

definition state_le :: "EvidenceState \<Rightarrow> EvidenceState \<Rightarrow> bool" where
  "state_le x y \<longleftrightarrow> x = StUnavailable \<or> x = y"

definition snapshot_le :: "EvidenceSnapshot \<Rightarrow> EvidenceSnapshot \<Rightarrow> bool" where
  "snapshot_le a b \<longleftrightarrow>
     ev_le (ev_domain a) (ev_domain b) \<and>
     ev_le (uids (ev_process a)) (uids (ev_process b)) \<and>
     ev_le (gids (ev_process a)) (gids (ev_process b)) \<and>
     ev_le (supplementary_gids (ev_process a)) (supplementary_gids (ev_process b)) \<and>
     ev_le (executable_digest (ev_process a)) (executable_digest (ev_process b)) \<and>
     ev_le (ev_systemd a) (ev_systemd b) \<and>
     ev_le (ev_signature_key a) (ev_signature_key b)"

lemma ev_le_cases: "ev_le x y \<Longrightarrow> x = Unavailable \<or> x = y"
  by (cases x) auto

lemma compare_mono:
  "ev_le x y \<Longrightarrow> state_le (ev_compare x e) (ev_compare y e)"
  "ev_le s t \<Longrightarrow> state_le (compare_slots s n sl) (compare_slots t n sl)"
  "ev_le g h \<Longrightarrow> state_le (compare_membership g n) (compare_membership h n)"
  "ev_le u v \<Longrightarrow> state_le (compare_systemd u nm mu tm) (compare_systemd v nm mu tm)"
  by (auto simp: state_le_def compare_slots_def compare_membership_def compare_systemd_def
      dest: ev_le_cases)

lemma snapshot_evaluate_mono:
  assumes "snapshot_le a b"
  shows "state_le (snapshot_evaluate a p) (snapshot_evaluate b p)"
  using assms by (cases p) (simp_all add: snapshot_le_def compare_mono)

locale kleene_connective =
  fixes con :: "EvidenceState list \<Rightarrow> EvidenceState"
  assumes con_mono: "list_all2 state_le xs ys \<Longrightarrow> state_le (con xs) (con ys)"
begin

lemma con_map_mono:
  assumes "\<And>c. c \<in> set cs \<Longrightarrow> state_le (f c) (g c)"
  shows "state_le (con (map f cs)) (con (map g cs))"
  using assms by (intro con_mono) (simp add: list_all2_conv_all_nth)

end

lemma state_le_listE:
  assumes "list_all2 state_le xs ys"
  shows "StMatch \<in> set xs \<Longrightarrow> StMatch \<in> set ys"
    and "StNoMatch \<in> set xs \<Longrightarrow> StNoMatch \<in> set ys"
    and "StUnavailable \<notin> set xs \<Longrightarrow> xs = ys"
  using assms by (induction xs ys rule: list_all2_induct) (auto simp: state_le_def)

interpretation conn_all: kleene_connective kleene_all
proof
  fix xs ys assume "list_all2 state_le xs ys"
  from state_le_listE [OF this] show "state_le (kleene_all xs) (kleene_all ys)"
    by (auto simp: kleene_all_def state_le_def)
qed

interpretation conn_any: kleene_connective kleene_any
proof
  fix xs ys assume "list_all2 state_le xs ys"
  from state_le_listE [OF this] show "state_le (kleene_any xs) (kleene_any ys)"
    by (auto simp: kleene_any_def state_le_def)
qed

lemma evaluate_mono:
  "snapshot_le a b \<Longrightarrow> state_le (evaluate e a) (evaluate e b)"
proof (induction e)
  case (EvAll cs)
  then show ?case unfolding evaluate_EvAll by (intro conn_all.con_map_mono) auto
next
  case (EvAny cs)
  then show ?case unfolding evaluate_EvAny by (intro conn_any.con_map_mono) auto
next
  case (EvLeaf p)
  then show ?case by (simp add: snapshot_evaluate_mono)
qed

section \<open>Signature paths\<close>

text \<open>The match rests on a verified signature leaf.\<close>

fun signature_carries :: "EvidenceSnapshot \<Rightarrow> EvidenceExpression \<Rightarrow> bool" where
  "signature_carries ev (EvLeaf p) \<longleftrightarrow> is_signature_leaf p \<and> snapshot_evaluate ev p = StMatch"
| "signature_carries ev (EvAll cs) \<longleftrightarrow>
     (\<forall>c \<in> set cs. evaluate c ev = StMatch) \<and> (\<exists>c \<in> set cs. signature_carries ev c)"
| "signature_carries ev (EvAny cs) \<longleftrightarrow> (\<exists>c \<in> set cs. signature_carries ev c)"

lemma signature_carries_match: "signature_carries ev e \<Longrightarrow> evaluate e ev = StMatch"
proof (induction e)
  case (EvAll cs)
  then show ?case unfolding evaluate_EvAll kleene_all_Match by auto
next
  case (EvAny cs)
  then show ?case unfolding evaluate_EvAny kleene_any_Match by force
qed simp

definition sig_path_ok :: "EvidenceSnapshot \<Rightarrow> EvidenceExpression \<Rightarrow> bool" where
  "sig_path_ok ev e \<longleftrightarrow> fst (evaluate_with_signature_path e ev) = evaluate e ev \<and>
     (evaluate e ev = StMatch \<longrightarrow> snd (evaluate_with_signature_path e ev) = signature_carries ev e)"

lemma sig_path_all_eq:
  assumes "\<forall>c \<in> set cs. sig_path_ok ev c" and "st \<noteq> StNoMatch"
  shows "sig_path_all cs ev st bound =
     (if \<exists>c \<in> set cs. evaluate c ev = StNoMatch then (StNoMatch, False)
      else if st = StUnavailable \<or> (\<exists>c \<in> set cs. evaluate c ev = StUnavailable)
      then (StUnavailable, False)
      else (StMatch, bound \<or> (\<exists>c \<in> set cs. signature_carries ev c)))"
  using assms
proof (induction cs arbitrary: st bound)
  case Nil
  then show ?case by (cases st) auto
next
  case (Cons c cs)
  obtain s b where path: "evaluate_with_signature_path c ev = (s, b)" by fastforce
  have c: "s = evaluate c ev" "s = StMatch \<longrightarrow> b = signature_carries ev c"
    using Cons.prems(1) path by (auto simp: sig_path_ok_def)
  have nc: "s \<noteq> StMatch \<Longrightarrow> \<not> signature_carries ev c" using c(1) signature_carries_match by metis
  show ?case
    using Cons.IH Cons.prems c nc
    by (cases s) (simp_all add: path Let_def)
qed

lemma sig_path_any_eq:
  assumes "\<forall>c \<in> set cs. sig_path_ok ev c"
  shows "sig_path_any cs ev sm su bound =
     (if sm \<or> (\<exists>c \<in> set cs. evaluate c ev = StMatch)
      then (StMatch, bound \<or> (\<exists>c \<in> set cs. signature_carries ev c))
      else if su \<or> (\<exists>c \<in> set cs. evaluate c ev = StUnavailable) then (StUnavailable, False)
      else (StNoMatch, False))"
  using assms
proof (induction cs arbitrary: sm su bound)
  case (Cons c cs)
  obtain s b where path: "evaluate_with_signature_path c ev = (s, b)" by fastforce
  have c: "s = evaluate c ev" "s = StMatch \<longrightarrow> b = signature_carries ev c"
    using Cons.prems path by (auto simp: sig_path_ok_def)
  have nc: "s \<noteq> StMatch \<Longrightarrow> \<not> signature_carries ev c" using c(1) signature_carries_match by metis
  show ?case
    using Cons.IH Cons.prems c nc
    by (cases s) (simp_all add: path)
qed simp

lemma sig_path_ok_all: "sig_path_ok ev e"
proof (induction e)
  case (EvAll cs)
  then have eq: "\<forall>c \<in> set cs. sig_path_ok ev c" by simp
  show ?case
    unfolding sig_path_ok_def evaluate_EvAll evaluate_with_signature_path.simps
      sig_path_all_eq [OF eq, of StMatch, simplified]
    by (auto simp: kleene_all_def image_iff) (metis EvidenceState.exhaust)+
next
  case (EvAny cs)
  then have eq: "\<forall>c \<in> set cs. sig_path_ok ev c" by simp
  show ?case
    unfolding sig_path_ok_def evaluate_EvAny evaluate_with_signature_path.simps sig_path_any_eq [OF eq]
    by (auto simp: kleene_any_def image_iff) metis+
next
  case (EvLeaf p)
  then show ?case by (auto simp: sig_path_ok_def)
qed

lemma evaluate_for_resolution_Match:
  "evaluate_for_resolution e ev = StMatch \<longleftrightarrow>
     evaluate e ev = StMatch \<and> (ev_signature_key ev \<noteq> Unavailable \<longrightarrow> signature_carries ev e)"
  using sig_path_ok_all [of ev e]
  by (cases "evaluate_with_signature_path e ev")
    (auto simp: evaluate_for_resolution_def sig_path_ok_def split: EvidenceValue.splits)

lemma evaluate_for_resolution_Unavailable:
  "evaluate_for_resolution e ev = StUnavailable \<longleftrightarrow> evaluate e ev = StUnavailable"
  using sig_path_ok_all [of ev e]
  by (cases "evaluate_with_signature_path e ev")
    (auto simp: evaluate_for_resolution_def sig_path_ok_def split: EvidenceValue.splits)

lemma signature_carries_leaf:
  "signature_carries ev e \<Longrightarrow> \<exists>a p. InvocationSignatureKey a p \<in> set (visit_leaves e) \<and>
     ev_signature_key ev = Available \<lparr>sk_algorithm = a, sk_public = p\<rparr>"
proof (induction e)
  case (EvLeaf p)
  then show ?case
    by (cases p; cases "ev_signature_key ev")
      (auto simp: is_signature_leaf_def split: if_splits)
qed fastforce+

section \<open>Resolution\<close>

definition candidates ::
    "AuthorizationDomain \<Rightarrow> EvidenceSnapshot \<Rightarrow> EvidenceState \<Rightarrow>
     (SubjectName \<times> SubjectDefinition) list \<Rightarrow> SubjectName list" where
  "candidates domain ev st subs =
     map fst (filter (\<lambda>(n, d). sub_domain d = domain \<and>
       evaluate_for_resolution (sub_match d) ev = st) subs)"

lemma resolve_loop_eq:
  assumes "length matching \<le> MAX_REPORTED_SUBJECTS"
  shows "resolve_loop domain ev subs matching mc nc uc =
     (matching @ take (MAX_REPORTED_SUBJECTS - length matching) (candidates domain ev StMatch subs),
      mc + length (candidates domain ev StMatch subs),
      nc + length (candidates domain ev StNoMatch subs),
      uc + length (candidates domain ev StUnavailable subs))"
  using assms
proof (induction subs arbitrary: matching mc nc uc)
  case (Cons x subs)
  then show ?case
    by (cases x)
      (auto simp: candidates_def take_Cons' split: EvidenceState.splits)
qed (simp add: candidates_def)

lemma resolve_subject_cases:
  assumes "ev_domain ev = Available domain"
  shows "\<exists>r. resolve_subject subs ev =
       (if length (candidates domain ev StMatch subs) > 1 then Inl (AmbiguousSubject r)
        else if candidates domain ev StUnavailable subs \<noteq> [] then Inl (EvidenceUnavailable r)
        else if candidates domain ev StMatch subs = [] then Inl (NoSubject r) else Inr r) \<and>
     res_domain r = domain \<and>
     matching_count r = length (candidates domain ev StMatch subs) \<and>
     no_match_count r = length (candidates domain ev StNoMatch subs) \<and>
     unavailable_count r = length (candidates domain ev StUnavailable subs) \<and>
     matching_subjects r = take MAX_REPORTED_SUBJECTS (candidates domain ev StMatch subs) \<and>
     (matching_subjects_truncated r \<longleftrightarrow> matching_subjects r \<noteq> candidates domain ev StMatch subs) \<and>
     res_subject r = (if length (candidates domain ev StMatch subs) = 1 \<and>
        candidates domain ev StUnavailable subs = []
        then Some (hd (candidates domain ev StMatch subs)) else None)"
proof -
  let ?m = "candidates domain ev StMatch subs"
  have hd: "length ?m = 1 \<Longrightarrow> take MAX_REPORTED_SUBJECTS ?m = [hd ?m]"
    by (cases ?m) (auto simp: MAX_REPORTED_SUBJECTS_def)
  show ?thesis
    using assms hd
    by (auto simp: resolve_subject_def resolve_loop_eq Let_def split: list.splits)
qed

lemma candidates_iff:
  assumes "bt_wf subs"
  shows "nm \<in> set (candidates domain ev st subs) \<longleftrightarrow>
     (\<exists>def. bt_get subs nm = Some def \<and> sub_domain def = domain \<and>
        evaluate_for_resolution (sub_match def) ev = st)"
  unfolding candidates_def bt_get_in_set [OF assms]
  by (auto simp: image_iff Bex_def split: prod.splits)

lemma distinct_candidates: "bt_wf subs \<Longrightarrow> distinct (candidates domain ev st subs)"
  unfolding candidates_def by (intro distinct_map_filter bt_wf_distinct)

lemma state_NoMatch_iff: "s = StNoMatch \<longleftrightarrow> s \<noteq> StMatch \<and> s \<noteq> StUnavailable"
  by (cases s) simp_all

lemma singleton_iff_distinct:
  "distinct xs \<Longrightarrow> xs = [x] \<longleftrightarrow> x \<in> set xs \<and> (\<forall>y \<in> set xs. y = x)"
  by (cases xs) (auto, (metis distinct.simps(2) list.set_intros(1) neq_Nil_conv)?)

definition resolves_to ::
    "(SubjectName, SubjectDefinition) btree \<Rightarrow> EvidenceSnapshot \<Rightarrow> AuthorizationDomain \<Rightarrow>
     SubjectName \<Rightarrow> bool" where
  "resolves_to subs ev domain nm \<longleftrightarrow>
     (\<exists>r. resolve_subject subs ev = Inr r \<and> res_domain r = domain \<and> res_subject r = Some nm)"

lemma resolves_to_candidates:
  "resolves_to subs ev domain nm \<longleftrightarrow> ev_domain ev = Available domain \<and>
     candidates domain ev StMatch subs = [nm] \<and> candidates domain ev StUnavailable subs = []"
proof (cases "ev_domain ev")
  case (Available d)
  let ?M = "candidates d ev StMatch subs" and ?U = "candidates d ev StUnavailable subs"
  from resolve_subject_cases [OF Available, of subs] obtain r where
    r: "resolve_subject subs ev =
       (if length ?M > 1 then Inl (AmbiguousSubject r)
        else if ?U \<noteq> [] then Inl (EvidenceUnavailable r)
        else if ?M = [] then Inl (NoSubject r) else Inr r)"
    and d: "res_domain r = d"
    and s: "res_subject r = (if length ?M = 1 \<and> ?U = [] then Some (hd ?M) else None)" by blast
  show ?thesis
  proof (cases "length ?M = 1 \<and> ?U = []")
    case True
    then obtain x where "?M = [x]" by (auto simp: length_Suc_conv)
    with r d s True Available show ?thesis by (auto simp: resolves_to_def)
  next
    case False
    then have "\<nexists>r'. resolve_subject subs ev = Inr r' \<and> res_subject r' = Some nm"
      using r s by (auto split: if_splits)
    with False Available show ?thesis by (auto simp: resolves_to_def)
  qed
qed (simp add: resolves_to_def resolve_subject_def)

lemma resolve_subject_Inr_subject:
  assumes "resolve_subject subs ev = Inr r"
  shows "\<exists>nm. res_subject r = Some nm"
proof (cases "ev_domain ev")
  case (Available d)
  let ?M = "candidates d ev StMatch subs" and ?U = "candidates d ev StUnavailable subs"
  from resolve_subject_cases [OF Available, of subs] obtain r' where
    r: "resolve_subject subs ev =
       (if length ?M > 1 then Inl (AmbiguousSubject r')
        else if ?U \<noteq> [] then Inl (EvidenceUnavailable r')
        else if ?M = [] then Inl (NoSubject r') else Inr r')"
    and s: "res_subject r' = (if length ?M = 1 \<and> ?U = [] then Some (hd ?M) else None)" by blast
  have "length ?M = 1 \<and> ?U = [] \<and> r = r'"
    using assms r by (cases ?M) (auto split: if_splits)
  with s show ?thesis by simp
qed (use assms in \<open>simp add: resolve_subject_def\<close>)

lemma resolves_to_iff:
  assumes "bt_wf subs"
  shows "resolves_to subs ev domain nm \<longleftrightarrow> ev_domain ev = Available domain \<and>
     (\<exists>def. bt_get subs nm = Some def \<and> sub_domain def = domain \<and>
        evaluate_for_resolution (sub_match def) ev = StMatch) \<and>
     (\<forall>nm' def'. bt_get subs nm' = Some def' \<and> sub_domain def' = domain \<and> nm' \<noteq> nm \<longrightarrow>
        evaluate_for_resolution (sub_match def') ev = StNoMatch)"
  (is "_ \<longleftrightarrow> _ \<and> ?one \<and> ?rest")
proof -
  let ?M = "candidates domain ev StMatch subs" and ?U = "candidates domain ev StUnavailable subs"
  have "?M = [nm] \<and> ?U = [] \<longleftrightarrow> nm \<in> set ?M \<and> (\<forall>y. y \<in> set ?M \<longrightarrow> y = nm) \<and> (\<forall>y. y \<notin> set ?U)"
    by (simp add: singleton_iff_distinct [OF distinct_candidates [OF assms]] Ball_def flip: set_empty)
  also have "\<dots> \<longleftrightarrow> ?one \<and> ?rest"
    unfolding candidates_iff [OF assms]
    by (auto simp: state_NoMatch_iff) (metis EvidenceState.distinct(3) option.inject)+
  finally show ?thesis by (simp add: resolves_to_candidates)
qed

section \<open>Properties\<close>

text \<open>
  The early-returning loops of \<open>evaluate_all\<close> and \<open>evaluate_any\<close> compute the strong Kleene
  conjunction and disjunction of the children's states, on the expression level.
\<close>

theorem evaluate_kleene:
  "evaluate (EvAll cs) ev = kleene_all (map (\<lambda>c. evaluate c ev) cs) \<and>
   evaluate (EvAny cs) ev = kleene_any (map (\<lambda>c. evaluate c ev) cs)"
  by (simp add: evaluate_EvAll evaluate_EvAny del: evaluate.simps)

text \<open>
  Evaluation is monotone in the evidence. When unavailable parts of a snapshot become
  available, an expression that was decided keeps its verdict; only an undetermined one
  may become decided.
\<close>

theorem evaluate_evidence_monotone:
  "snapshot_le a b \<Longrightarrow> evaluate e a \<noteq> StUnavailable \<Longrightarrow> evaluate e b = evaluate e a"
  using evaluate_mono [of a b e] by (auto simp: state_le_def)

definition ev_none :: EvidenceSnapshot where
  "ev_none = \<lparr>ev_domain = Available HostProcess,
     ev_process = \<lparr>uids = Available (uniform 7), gids = Unavailable, supplementary_gids = Unavailable,
       executable_digest = Unavailable\<rparr>,
     ev_systemd = Unavailable, ev_signature_key = Unavailable\<rparr>"

definition ev_more :: EvidenceSnapshot where
  "ev_more = ev_none\<lparr>ev_process := (ev_process ev_none)\<lparr>supplementary_gids := Available [5]\<rparr>\<rparr>"

lemma evaluate_evidence_monotone_witness:
  "evaluate (EvAny [EvLeaf (ProcessUid (Numeric 7)), EvLeaf (ProcessGid (Numeric 5))]) ev_more = StMatch"
proof -
  have "snapshot_le ev_none ev_more" by (simp add: snapshot_le_def ev_more_def ev_none_def)
  moreover have "evaluate (EvAny [EvLeaf (ProcessUid (Numeric 7)), EvLeaf (ProcessGid (Numeric 5))]) ev_none = StMatch"
    by (simp add: ev_none_def compare_slots_def all_equal_def uniform_def)
  ultimately show ?thesis
    using evaluate_evidence_monotone [of ev_none ev_more
      "EvAny [EvLeaf (ProcessUid (Numeric 7)), EvLeaf (ProcessGid (Numeric 5))]"] by simp
qed

text \<open>
  The evaluator used for resolution refines the plain one. It reports a match exactly
  when the expression matches and, if the invocation carried a verified signature key, a
  leaf naming that key carries the match; it reports unavailable exactly when the plain
  evaluation does.
\<close>

theorem evaluate_for_resolution_exact:
  "(evaluate_for_resolution e ev = StMatch \<longleftrightarrow>
      evaluate e ev = StMatch \<and> (ev_signature_key ev = Unavailable \<or> signature_carries ev e)) \<and>
   (evaluate_for_resolution e ev = StUnavailable \<longleftrightarrow> evaluate e ev = StUnavailable)"
  by (auto simp: evaluate_for_resolution_Match evaluate_for_resolution_Unavailable)

text \<open>
  C6: a sealed invocation cannot resolve to a subject that does not name its key: when a
  verified signature key is part of the evidence and an expression matches for resolution,
  one of the expression's leaves is that key with that algorithm.
\<close>

theorem sealed_match_names_key:
  assumes "ev_signature_key ev = Available k" and "evaluate_for_resolution e ev = StMatch"
  shows "InvocationSignatureKey (sk_algorithm k) (sk_public k) \<in> set (visit_leaves e)"
  using assms signature_carries_leaf [of ev e] by (auto simp: evaluate_for_resolution_Match)

definition ev_signed :: EvidenceSnapshot where
  "ev_signed = ev_none\<lparr>ev_signature_key := Available \<lparr>sk_algorithm = SigEd25519, sk_public = ''K''\<rparr>\<rparr>"

lemma sealed_match_names_key_witness:
  "InvocationSignatureKey SigEd25519 ''K'' \<in>
     set (visit_leaves (EvAll [EvLeaf (ProcessUid (Numeric 7)), EvLeaf (InvocationSignatureKey SigEd25519 ''K'')]))"
proof -
  have "ev_signature_key ev_signed = Available \<lparr>sk_algorithm = SigEd25519, sk_public = ''K''\<rparr>"
    by (simp add: ev_signed_def)
  moreover have "evaluate_for_resolution
      (EvAll [EvLeaf (ProcessUid (Numeric 7)), EvLeaf (InvocationSignatureKey SigEd25519 ''K'')]) ev_signed = StMatch"
    by (simp add: evaluate_for_resolution_def ev_signed_def ev_none_def compare_slots_def all_equal_def
        uniform_def is_signature_leaf_def Let_def)
  ultimately show ?thesis using sealed_match_names_key by fastforce
qed

text \<open>
  C3: subject resolution is exact. It yields \<open>nm\<close> in \<open>domain\<close> exactly when that domain was
  established, the definition of \<open>nm\<close> belongs to it and matches, and every other subject of
  the domain conclusively does not match.
\<close>

theorem resolve_subject_exact:
  assumes "bt_wf subs"
  shows "(\<exists>r. resolve_subject subs ev = Inr r \<and> res_domain r = domain \<and> res_subject r = Some nm) \<longleftrightarrow>
     ev_domain ev = Available domain \<and>
     (\<exists>def. bt_get subs nm = Some def \<and> sub_domain def = domain \<and>
        evaluate_for_resolution (sub_match def) ev = StMatch) \<and>
     (\<forall>nm' def'. bt_get subs nm' = Some def' \<and> sub_domain def' = domain \<and> nm' \<noteq> nm \<longrightarrow>
        evaluate_for_resolution (sub_match def') ev = StNoMatch)"
  using resolves_to_iff [OF assms] unfolding resolves_to_def .

definition two_subjects :: "(SubjectName, SubjectDefinition) btree" where
  "two_subjects =
     [(''a'', \<lparr>sub_domain = HostProcess, sub_break_glass = False, sub_match = EvLeaf (ProcessUid (Numeric 7))\<rparr>),
      (''b'', \<lparr>sub_domain = HostProcess, sub_break_glass = False, sub_match = EvLeaf (ProcessUid (Numeric 8))\<rparr>)]"

lemma resolve_subject_exact_witness:
  "ev_domain ev_none = Available HostProcess \<and>
   evaluate_for_resolution (EvLeaf (ProcessUid (Numeric 8))) ev_none = StNoMatch"
proof -
  have wf: "bt_wf two_subjects" by (simp add: bt_wf_def two_subjects_def)
  have "\<exists>r. resolve_subject two_subjects ev_none = Inr r \<and> res_domain r = HostProcess \<and> res_subject r = Some ''a''"
    by (simp add: two_subjects_def resolve_subject_def ev_none_def evaluate_for_resolution_def compare_slots_def
        all_equal_def uniform_def is_signature_leaf_def Let_def MAX_REPORTED_SUBJECTS_def)
  with resolve_subject_exact [OF wf, of ev_none HostProcess "''a''"] have
    "ev_domain ev_none = Available HostProcess"
    "\<forall>nm' def'. bt_get two_subjects nm' = Some def' \<and> sub_domain def' = HostProcess \<and> nm' \<noteq> ''a'' \<longrightarrow>
        evaluate_for_resolution (sub_match def') ev_none = StNoMatch" by blast+
  from this(1) this(2) [rule_format, of "''b''" "snd (two_subjects ! 1)"] show ?thesis
    by (simp add: two_subjects_def bt_get_def)
qed

text \<open>
  Every outcome of resolution fails closed and counts exactly. With the domain
  established, more than one match is ambiguous, otherwise any undetermined subject makes
  the outcome unavailable, otherwise no match is an error; the reported counts are the
  numbers of candidates in each state and the reported names a bounded prefix of the
  matches.
\<close>

theorem resolve_subject_outcomes:
  assumes "ev_domain ev = Available domain"
  shows "\<exists>r. resolve_subject subs ev =
       (if length (candidates domain ev StMatch subs) > 1 then Inl (AmbiguousSubject r)
        else if candidates domain ev StUnavailable subs \<noteq> [] then Inl (EvidenceUnavailable r)
        else if candidates domain ev StMatch subs = [] then Inl (NoSubject r) else Inr r) \<and>
     matching_count r = length (candidates domain ev StMatch subs) \<and>
     no_match_count r = length (candidates domain ev StNoMatch subs) \<and>
     unavailable_count r = length (candidates domain ev StUnavailable subs) \<and>
     matching_subjects r = take MAX_REPORTED_SUBJECTS (candidates domain ev StMatch subs) \<and>
     (matching_subjects_truncated r \<longleftrightarrow> matching_subjects r \<noteq> candidates domain ev StMatch subs)"
  using resolve_subject_cases [OF assms] by blast

lemma resolve_subject_outcomes_witness:
  "\<exists>r. resolve_subject two_subjects ev_none = Inr r \<and> matching_count r = 1 \<and> no_match_count r = 1"
proof -
  have "candidates HostProcess ev_none StMatch two_subjects = [''a''] \<and>
      candidates HostProcess ev_none StNoMatch two_subjects = [''b''] \<and>
      candidates HostProcess ev_none StUnavailable two_subjects = []"
    by (simp add: candidates_def two_subjects_def ev_none_def evaluate_for_resolution_def compare_slots_def
        all_equal_def uniform_def is_signature_leaf_def Let_def)
  with resolve_subject_outcomes [of ev_none HostProcess two_subjects] show ?thesis
    by (auto simp: ev_none_def)
qed

definition mixed_expression :: EvidenceExpression where
  "mixed_expression = EvAny [EvLeaf (ProcessUid (Numeric 7)),
     EvAll [EvLeaf (InvocationSignatureKey SigEd25519 ''K''), EvLeaf (ProcessExecutableDigest ''D'')]]"

definition ev_signed_more :: EvidenceSnapshot where
  "ev_signed_more =
     ev_signed\<lparr>ev_process := (ev_process ev_signed)\<lparr>executable_digest := Available ''D''\<rparr>\<rparr>"

text \<open>
  With a signature key present, a \<open>NoMatch\<close> of the resolution evaluator is not always
  conclusive. The expression below does not match for resolution while the executable
  digest is unavailable, and matches once the digest is known; the plain evaluator is
  monotone, the resolution evaluator is not.
\<close>

theorem resolution_not_monotone:
  "snapshot_le ev_signed ev_signed_more \<and>
   evaluate_for_resolution mixed_expression ev_signed = StNoMatch \<and>
   evaluate_for_resolution mixed_expression ev_signed_more = StMatch"
  by (simp add: snapshot_le_def mixed_expression_def ev_signed_more_def ev_signed_def ev_none_def
      evaluate_for_resolution_def compare_slots_def all_equal_def uniform_def is_signature_leaf_def Let_def)

end
