(* ===== verification/Actor.thy ===== *)
theory Actor
  imports Evidence
begin

text \<open>
  Authenticated actors (\<open>core/actor.rs\<close>) and the captured peer facts they are built from
  (the data part of \<open>core/peer.rs\<close>). The SHA-256 digest and the unpadded URL-safe base64
  encoder of the key fingerprint come from other crates; they are the arguments \<open>sha256\<close>
  and \<open>b64\<close>. The enrichment of a peer from \<open>/proc\<close> is the argument \<open>enrich_linux\<close>.

  Results: an actor is produced exactly when subject resolution is unique, it always
  carries a registered subject in the subject's own domain, a verified signature key is
  always recorded among its proofs, and error conversion keeps the counts.
\<close>

section \<open>Peers\<close>

record PeerInfo =
  peer_pid :: "u32 option"
  peer_uid :: "u32 option"
  peer_gid :: "u32 option"
  peer_executable_path :: "string option"
  peer_attestation_class :: string
  peer_subject_id :: "string option"
  peer_signature_valid :: bool
  peer_display_label :: "string option"

definition PeerInfo_default :: PeerInfo where
  "PeerInfo_default = \<lparr>peer_pid = None, peer_uid = None, peer_gid = None,
     peer_executable_path = None, peer_attestation_class = ''Unknown'', peer_subject_id = None,
     peer_signature_valid = False, peer_display_label = None\<rparr>"

definition from_unix_cred ::
    "(PeerInfo \<Rightarrow> PeerInfo) \<Rightarrow> u32 option \<Rightarrow> u32 \<Rightarrow> u32 \<Rightarrow> PeerInfo" where
  "from_unix_cred enrich_linux pid uid gid =
     enrich_linux (PeerInfo_default\<lparr>peer_pid := pid, peer_uid := Some uid, peer_gid := Some gid\<rparr>)"

text \<open>\<open>required_peer_info\<close>: an absent, negative or zero process id is an I/O error.\<close>

datatype PeerError = NoPositivePid

definition required_peer_info ::
    "(PeerInfo \<Rightarrow> PeerInfo) \<Rightarrow> int option \<Rightarrow> u32 \<Rightarrow> u32 \<Rightarrow> PeerError + PeerInfo" where
  "required_peer_info enrich_linux pid uid gid =
     (case pid of
        Some p \<Rightarrow> if p \<ge> 0 \<and> p \<noteq> 0 then Inr (from_unix_cred enrich_linux (Some (word_of_int p)) uid gid)
                  else Inl NoPositivePid
      | None \<Rightarrow> Inl NoPositivePid)"

section \<open>Actors\<close>

datatype WorkloadIdentity = SystemdIdentity string "u32 option"

datatype ProofKind = ProcessCredentials | SystemdUnitProof | SignatureKey | ProviderJwt

record ProofSummary =
  proof_kind :: ProofKind
  proof_subject :: SubjectName
  proof_fingerprint :: "string option"

record PresenterInfo =
  pres_pid :: "u32 option"
  pres_uid :: "u32 option"
  pres_gid :: "u32 option"
  pres_executable_path :: "string option"
  pres_display_label :: "string option"

definition presenter_from :: "PeerInfo \<Rightarrow> PresenterInfo" where
  "presenter_from peer = \<lparr>pres_pid = peer_pid peer, pres_uid = peer_uid peer,
     pres_gid = peer_gid peer, pres_executable_path = peer_executable_path peer,
     pres_display_label = peer_display_label peer\<rparr>"

datatype TransportKind = UnixSocket

record AuthenticatedActor =
  actor_domain :: AuthorizationDomain
  actor_subject :: SubjectName
  actor_workload_identity :: "WorkloadIdentity option"
  authenticated_by :: "ProofSummary list"
  presenter :: PresenterInfo
  transport :: TransportKind

definition unix_uid :: "AuthenticatedActor \<Rightarrow> u32 option" where
  "unix_uid a = pres_uid (presenter a)"

section \<open>Why resolution stopped\<close>

datatype SubjectResolutionError =
    SreMissingPeerCredentials
  | SreDomainUnavailable
  | SreNoSubject AuthorizationDomain nat
  | SreAmbiguousSubject AuthorizationDomain "SubjectName list" nat bool nat nat
  | SreEvidenceUnavailable AuthorizationDomain "SubjectName list" bool nat nat nat

fun sre_domain :: "SubjectResolutionError \<Rightarrow> AuthorizationDomain option" where
  "sre_domain SreMissingPeerCredentials = None"
| "sre_domain SreDomainUnavailable = None"
| "sre_domain (SreNoSubject d _) = Some d"
| "sre_domain (SreAmbiguousSubject d _ _ _ _ _) = Some d"
| "sre_domain (SreEvidenceUnavailable d _ _ _ _ _) = Some d"

fun sre_evidence_state :: "SubjectResolutionError \<Rightarrow> EvidenceState" where
  "sre_evidence_state (SreNoSubject _ _) = StNoMatch"
| "sre_evidence_state (SreAmbiguousSubject _ _ _ _ _ _) = StMatch"
| "sre_evidence_state SreMissingPeerCredentials = StUnavailable"
| "sre_evidence_state SreDomainUnavailable = StUnavailable"
| "sre_evidence_state (SreEvidenceUnavailable _ _ _ _ _ _) = StUnavailable"

fun sre_matching_subjects :: "SubjectResolutionError \<Rightarrow> SubjectName list" where
  "sre_matching_subjects (SreAmbiguousSubject _ prefix _ _ _ _) = prefix"
| "sre_matching_subjects (SreEvidenceUnavailable _ prefix _ _ _ _) = prefix"
| "sre_matching_subjects _ = []"

fun sre_subject_counts :: "SubjectResolutionError \<Rightarrow> nat \<times> nat \<times> nat" where
  "sre_subject_counts SreMissingPeerCredentials = (0, 0, 0)"
| "sre_subject_counts SreDomainUnavailable = (0, 0, 0)"
| "sre_subject_counts (SreNoSubject _ nc) = (0, nc, 0)"
| "sre_subject_counts (SreAmbiguousSubject _ _ mc _ nc uc) = (mc, nc, uc)"
| "sre_subject_counts (SreEvidenceUnavailable _ _ _ mc nc uc) = (mc, nc, uc)"

fun sre_truncated :: "SubjectResolutionError \<Rightarrow> bool" where
  "sre_truncated (SreAmbiguousSubject _ _ _ truncated _ _) = truncated"
| "sre_truncated (SreEvidenceUnavailable _ _ truncated _ _ _) = truncated"
| "sre_truncated _ = False"

fun map_resolution_error :: "EvidenceResolutionError \<Rightarrow> SubjectResolutionError" where
  "map_resolution_error DomainUnavailable = SreDomainUnavailable"
| "map_resolution_error (NoSubject r) = SreNoSubject (res_domain r) (no_match_count r)"
| "map_resolution_error (AmbiguousSubject r) =
     SreAmbiguousSubject (res_domain r) (matching_subjects r) (matching_count r)
       (matching_subjects_truncated r) (no_match_count r) (unavailable_count r)"
| "map_resolution_error (EvidenceUnavailable r) =
     SreEvidenceUnavailable (res_domain r) (matching_subjects r) (matching_subjects_truncated r)
       (matching_count r) (no_match_count r) (unavailable_count r)"

section \<open>Resolution of an actor\<close>

fun workload_identity :: "EvidenceSnapshot \<Rightarrow> AuthorizationDomain \<Rightarrow> WorkloadIdentity option" where
  "workload_identity ev HostProcess = None"
| "workload_identity ev SystemdUnitDomain =
     (case ev_systemd ev of
        Available s \<Rightarrow> Some (SystemdIdentity (sd_unit s) (sd_manager_user s))
      | Unavailable \<Rightarrow> None)"

definition signature_key_fingerprint ::
    "(string \<Rightarrow> string) \<Rightarrow> (string \<Rightarrow> string) \<Rightarrow> SignatureKeyEvidence \<Rightarrow> string" where
  "signature_key_fingerprint sha256 b64 key =
     (let algorithm = (case sk_algorithm key of SigEd25519 \<Rightarrow> ''ed25519'' | SigNatsNkey \<Rightarrow> ''nats-nkey'')
      in ''sha256:'' @ b64 (sha256 (algorithm @ '':'' @ sk_public key)))"

fun domain_proof :: "AuthorizationDomain \<Rightarrow> ProofKind" where
  "domain_proof HostProcess = ProcessCredentials"
| "domain_proof SystemdUnitDomain = SystemdUnitProof"

definition resolve_evidence_actor ::
    "(string \<Rightarrow> string) \<Rightarrow> (string \<Rightarrow> string) \<Rightarrow> ResolvedPolicy \<Rightarrow> EvidenceSnapshot \<Rightarrow> PeerInfo \<Rightarrow>
     SubjectResolutionError + AuthenticatedActor" where
  "resolve_evidence_actor sha256 b64 policy ev peer =
     res_bind (res_map_err map_resolution_error (resolve_subject (subjects policy) ev))
       (\<lambda>resolution. case res_subject resolution of
          None \<Rightarrow> Inl SreDomainUnavailable
        | Some subject \<Rightarrow>
            let proofs = [\<lparr>proof_kind = domain_proof (res_domain resolution),
                  proof_subject = subject, proof_fingerprint = None\<rparr>];
                proofs' = (case ev_signature_key ev of
                    Available signature_key \<Rightarrow> proofs @ [\<lparr>proof_kind = SignatureKey,
                      proof_subject = subject,
                      proof_fingerprint = Some (signature_key_fingerprint sha256 b64 signature_key)\<rparr>]
                  | Unavailable \<Rightarrow> proofs)
            in Inr \<lparr>actor_domain = res_domain resolution, actor_subject = subject,
                 actor_workload_identity = workload_identity ev (res_domain resolution),
                 authenticated_by = proofs', presenter = presenter_from peer,
                 transport = UnixSocket\<rparr>)"

definition EvidenceSnapshot_default :: EvidenceSnapshot where
  "EvidenceSnapshot_default = \<lparr>ev_domain = Unavailable,
     ev_process = \<lparr>uids = Unavailable, gids = Unavailable, supplementary_gids = Unavailable,
       executable_digest = Unavailable\<rparr>,
     ev_systemd = Unavailable, ev_signature_key = Unavailable\<rparr>"

definition host_process_snapshot :: "Config \<Rightarrow> PeerInfo \<Rightarrow> u32 \<Rightarrow> EvidenceSnapshot" where
  "host_process_snapshot config peer uid =
     (let supplementary = (case groups_of config uid of Some gs \<Rightarrow> gs | None \<Rightarrow> [])
      in EvidenceSnapshot_default\<lparr>ev_domain := Available HostProcess,
           ev_process := \<lparr>uids = Available (uniform uid),
             gids = (case peer_gid peer of None \<Rightarrow> Unavailable | Some gid \<Rightarrow> Available (uniform gid)),
             supplementary_gids = Available supplementary,
             executable_digest = Unavailable\<rparr>\<rparr>)"

definition resolve_unix_actor ::
    "(string \<Rightarrow> string) \<Rightarrow> (string \<Rightarrow> string) \<Rightarrow> ResolvedPolicy \<Rightarrow> Config \<Rightarrow> PeerInfo \<Rightarrow> u32 \<Rightarrow>
     SubjectResolutionError + AuthenticatedActor" where
  "resolve_unix_actor sha256 b64 policy config peer uid =
     res_bind (resolve_evidence_actor sha256 b64 policy (host_process_snapshot config peer uid) peer)
       (\<lambda>actor. Inr (actor\<lparr>presenter :=
          (presenter actor)\<lparr>pres_display_label := Some (user_name_num config uid)\<rparr>\<rparr>))"

definition resolve_local_actor ::
    "(string \<Rightarrow> string) \<Rightarrow> (string \<Rightarrow> string) \<Rightarrow> ResolvedPolicy \<Rightarrow> Config \<Rightarrow> PeerInfo \<Rightarrow>
     SubjectResolutionError + AuthenticatedActor" where
  "resolve_local_actor sha256 b64 policy config peer =
     (case peer_uid peer of
        None \<Rightarrow> Inl SreMissingPeerCredentials
      | Some uid \<Rightarrow> resolve_unix_actor sha256 b64 policy config peer uid)"

section \<open>Facts\<close>

lemma resolve_evidence_actor_Inr:
  assumes "resolve_evidence_actor sha256 b64 policy ev peer = Inr a"
  shows "resolves_to (subjects policy) ev (actor_domain a) (actor_subject a)"
    and "presenter a = presenter_from peer"
    and "actor_workload_identity a = workload_identity ev (actor_domain a)"
    and "\<forall>p \<in> set (authenticated_by a). proof_subject p = actor_subject a"
    and "proof_kind ` set (authenticated_by a) =
       insert (domain_proof (actor_domain a))
         (if ev_signature_key ev = Unavailable then {} else {SignatureKey})"
proof -
  obtain r where r: "resolve_subject (subjects policy) ev = Inr r"
    using assms by (auto simp: resolve_evidence_actor_def)
  obtain nm where nm: "res_subject r = Some nm" using r resolve_subject_Inr_subject by blast
  note eqs = assms [unfolded resolve_evidence_actor_def r Let_def, simplified, simplified nm]
  show "resolves_to (subjects policy) ev (actor_domain a) (actor_subject a)"
    and "presenter a = presenter_from peer"
    and "actor_workload_identity a = workload_identity ev (actor_domain a)"
    and "\<forall>p \<in> set (authenticated_by a). proof_subject p = actor_subject a"
    and "proof_kind ` set (authenticated_by a) =
       insert (domain_proof (actor_domain a))
         (if ev_signature_key ev = Unavailable then {} else {SignatureKey})"
    using eqs r nm by (cases "ev_signature_key ev"; force simp: resolves_to_def)+
qed

lemma resolve_evidence_actor_ok:
  assumes "resolves_to (subjects policy) ev domain nm"
  shows "\<exists>a. resolve_evidence_actor sha256 b64 policy ev peer = Inr a \<and>
     actor_subject a = nm \<and> actor_domain a = domain"
  using assms
  by (auto simp: resolve_evidence_actor_def resolves_to_def Let_def res_map_err_def)

text \<open>The guard for a missing subject in a successful resolution is never taken.\<close>

lemma resolve_evidence_actor_Inl:
  "resolve_evidence_actor sha256 b64 policy ev peer = Inl e \<longleftrightarrow>
     (\<exists>x. resolve_subject (subjects policy) ev = Inl x \<and> e = map_resolution_error x)"
proof (cases "resolve_subject (subjects policy) ev")
  case (Inr r)
  then obtain nm where "res_subject r = Some nm" using resolve_subject_Inr_subject by blast
  with Inr show ?thesis by (simp add: resolve_evidence_actor_def res_map_err_def Let_def)
qed (auto simp: resolve_evidence_actor_def res_map_err_def)

lemma resolve_unix_actor_Inr:
  assumes "resolve_unix_actor sha256 b64 policy config peer uid = Inr a"
  shows "resolves_to (subjects policy) (host_process_snapshot config peer uid) HostProcess (actor_subject a)"
    and "actor_domain a = HostProcess"
proof -
  obtain a' where a': "resolve_evidence_actor sha256 b64 policy (host_process_snapshot config peer uid) peer = Inr a'"
    and eq: "actor_subject a = actor_subject a'" "actor_domain a = actor_domain a'"
    using assms by (auto simp: resolve_unix_actor_def)
  have "actor_domain a' = HostProcess"
    using resolve_evidence_actor_Inr(1) [OF a']
    by (auto simp: resolves_to_candidates host_process_snapshot_def Let_def)
  with resolve_evidence_actor_Inr(1) [OF a'] eq
  show "resolves_to (subjects policy) (host_process_snapshot config peer uid) HostProcess (actor_subject a)"
    and "actor_domain a = HostProcess" by simp_all
qed

end
