(* ===== verification/Cose_Party.thy ===== *)
theory Cose_Party
  imports Basil_Prelude
begin

text \<open>
  The identifier errors of the COSE profile (\<open>basil-cose/src/error.rs\<close>) and the party
  identities of its key derivation (\<open>kdf.rs\<close>), which the key catalog pins and the COSE codec
  reads and writes. \<open>None\<close> is the nil (anonymous) identity.
\<close>

datatype ProfileError =
    KeyIdLength nat
  | MessageIdLength nat
  | EmptySubject
  | ContentTypeForm
  | EmptyPartyIdentity
  | EmptySignature
  | FreshnessChallengeLength nat
  | ResponsePublicKeyCoseShape
  | ResponsePublicKeyHighBitAlias
  | ResponsePublicKeyNonContributory

type_synonym PartyIdentity = "(u8 list) option"

definition PartyIdentity_from_bytes :: "u8 list \<Rightarrow> ProfileError + PartyIdentity" where
  "PartyIdentity_from_bytes b = (if b = [] then Inl EmptyPartyIdentity else Inr (Some b))"

record KdfParties =
  kdf_party_u :: PartyIdentity
  kdf_party_v :: PartyIdentity

definition anonymous :: KdfParties where
  "anonymous = \<lparr>kdf_party_u = None, kdf_party_v = None\<rparr>"

end
