(* ===== verification/Catalog_Schema.thy ===== *)
theory Catalog_Schema
  imports Nkey Cose_Party
begin

text \<open>
  The key catalog (\<open>core/catalog/schema.rs\<close>): backends, key entries and their derived
  facts (effective engine, credential-issuer and materialize-to-use predicates, labels,
  capability tokens, sealing pins, Nix cache identities). Base64 is a third-party crate
  and appears as a parameter of the public-key deserializer.
\<close>

section \<open>Closed enumerations\<close>

datatype BackendKind = Vault | Keystore | AwsKms | GcpKms

datatype Class = Asymmetric | Symmetric | ClassValue | ClassPublic | Sealing

datatype Engine = Transit | Kv2 | Pki

fun engine_token :: "Engine \<Rightarrow> string" where
  "engine_token Transit = ''transit''"
| "engine_token Kv2 = ''kv2''"
| "engine_token Pki = ''pki''"

datatype Capability =
    ByokImport | PrehashSign | PqcTransit | PkiCrl | JwtAuth | ApproleAuth | Other string

fun capability_token :: "Capability \<Rightarrow> string" where
  "capability_token ByokImport = ''byok-import''"
| "capability_token PrehashSign = ''prehash-sign''"
| "capability_token PqcTransit = ''pqc-transit''"
| "capability_token PkiCrl = ''pki-crl''"
| "capability_token JwtAuth = ''jwt-auth''"
| "capability_token ApproleAuth = ''approle-auth''"
| "capability_token (Other s) = s"

definition is_known :: "Capability \<Rightarrow> bool" where
  "is_known c = (case c of Other _ \<Rightarrow> False | _ \<Rightarrow> True)"

definition capability_from :: "string \<Rightarrow> Capability" where
  "capability_from s =
     (if s = ''byok-import'' then ByokImport
      else if s = ''prehash-sign'' then PrehashSign
      else if s = ''pqc-transit'' then PqcTransit
      else if s = ''pki-crl'' then PkiCrl
      else if s = ''jwt-auth'' then JwtAuth
      else if s = ''approle-auth'' then ApproleAuth
      else Other s)"

datatype KeyAlgorithm =
    Ed25519 | Ed25519Nkey | Rsa2048 | EcdsaP256 | EcdsaP384 | EcdsaP521 | Aes256Gcm | ChaCha20Poly1305
  | X25519 | MlKem512 | MlKem768 | MlKem1024 | MlDsa44 | MlDsa65 | MlDsa87

fun alg_token :: "KeyAlgorithm \<Rightarrow> string" where
  "alg_token Ed25519 = ''ed25519''"
| "alg_token Ed25519Nkey = ''ed25519-nkey''"
| "alg_token Rsa2048 = ''rsa-2048''"
| "alg_token EcdsaP256 = ''ecdsa-p256''"
| "alg_token EcdsaP384 = ''ecdsa-p384''"
| "alg_token EcdsaP521 = ''ecdsa-p521''"
| "alg_token Aes256Gcm = ''aes-256-gcm''"
| "alg_token ChaCha20Poly1305 = ''chacha20-poly1305''"
| "alg_token X25519 = ''x25519''"
| "alg_token MlKem512 = ''ml-kem-512''"
| "alg_token MlKem768 = ''ml-kem-768''"
| "alg_token MlKem1024 = ''ml-kem-1024''"
| "alg_token MlDsa44 = ''ml-dsa-44''"
| "alg_token MlDsa65 = ''ml-dsa-65''"
| "alg_token MlDsa87 = ''ml-dsa-87''"

text \<open>The key types of the wire protocol (\<open>crates/basil-proto/src/types.rs\<close>).\<close>

datatype KeyType =
    WireEd25519 | WireEd25519Nkey | WireRsa2048 | WireEcdsaP256 | WireEcdsaP384 | WireEcdsaP521
  | WireMlDsa44 | WireMlDsa65 | WireMlDsa87 | WireMlKem512 | WireMlKem768 | WireMlKem1024

fun from_wire_key_type :: "KeyType \<Rightarrow> KeyAlgorithm" where
  "from_wire_key_type WireEd25519 = Ed25519"
| "from_wire_key_type WireEd25519Nkey = Ed25519Nkey"
| "from_wire_key_type WireRsa2048 = Rsa2048"
| "from_wire_key_type WireEcdsaP256 = EcdsaP256"
| "from_wire_key_type WireEcdsaP384 = EcdsaP384"
| "from_wire_key_type WireEcdsaP521 = EcdsaP521"
| "from_wire_key_type WireMlDsa44 = MlDsa44"
| "from_wire_key_type WireMlDsa65 = MlDsa65"
| "from_wire_key_type WireMlDsa87 = MlDsa87"
| "from_wire_key_type WireMlKem512 = MlKem512"
| "from_wire_key_type WireMlKem768 = MlKem768"
| "from_wire_key_type WireMlKem1024 = MlKem1024"

definition is_spiffe_jwt_svid_profile :: "KeyAlgorithm \<Rightarrow> bool" where
  "is_spiffe_jwt_svid_profile a \<longleftrightarrow> a \<in> {Rsa2048, EcdsaP256, EcdsaP384}"

text \<open>Every algorithm of this build maps to \<open>None\<close> in the source's exhaustive match.\<close>

definition required_capability :: "KeyAlgorithm \<Rightarrow> Capability option" where
  "required_capability a = None"

datatype MissingPolicy = MissingError | MissingWarn | MissingGenerate

datatype NixCacheState = Pending | Enrolled

section \<open>Nix cache identities\<close>

text \<open>The decoded 32 bytes of an Ed25519 public key.\<close>

type_synonym NixCachePublicKey = "u8 list"

definition nix_public_key_deserialize ::
    "(string \<Rightarrow> u8 list option) \<Rightarrow> (u8 list \<Rightarrow> string) \<Rightarrow> string \<Rightarrow> string + NixCachePublicKey" where
  "nix_public_key_deserialize b64_decode b64_encode encoded =
     res_bind (ok_or (b64_decode encoded) ''nixCache publicKey must be padded standard base64'')
       (\<lambda>decoded.
         if length decoded \<noteq> 32 then Inl ''nixCache publicKey must decode to exactly 32 bytes''
         else if b64_encode decoded \<noteq> encoded
         then Inl ''nixCache publicKey must use canonical padded standard base64''
         else Inr decoded)"

record NixCacheIdentity =
  key_name :: string
  nix_state :: NixCacheState
  backend_version :: u32
  public_key :: "NixCachePublicKey option"

section \<open>Sealing pins\<close>

record PinnedParties =
  party_u :: "string option"
  party_v :: "string option"

record SealingPin =
  parties :: "PinnedParties option"
  external_aad :: "string list"

definition is_configured :: "SealingPin \<Rightarrow> bool" where
  "is_configured pin \<longleftrightarrow> parties pin \<noteq> None \<or> external_aad pin \<noteq> []"

definition external_aad_allowed :: "SealingPin \<Rightarrow> string \<Rightarrow> bool" where
  "external_aad_allowed pin aad \<longleftrightarrow>
     external_aad pin = [] \<or> list_ex (\<lambda>allowed. allowed = aad) (external_aad pin)"

definition pinned_slot :: "string option \<Rightarrow> ProfileError + PartyIdentity" where
  "pinned_slot identity = (case identity of None \<Rightarrow> Inr None | Some i \<Rightarrow> PartyIdentity_from_bytes (bytes_of i))"

definition to_kdf_parties :: "PinnedParties \<Rightarrow> ProfileError + KdfParties" where
  "to_kdf_parties p =
     res_bind (pinned_slot (party_u p)) (\<lambda>u.
       res_bind (pinned_slot (party_v p)) (\<lambda>v. Inr \<lparr>kdf_party_u = u, kdf_party_v = v\<rparr>))"

section \<open>Key entries\<close>

datatype GenerateSpec =
    AsciiPrintable u32
  | Base64 u32
  | Hex u32
  | AgeX25519
  | SelfSignedTls string string
  | SelfSignedTlsPairOf string

type_synonym Labels = "string list"

fun labels_get :: "Labels \<Rightarrow> string \<Rightarrow> string option" where
  "labels_get [] key = None"
| "labels_get (l # ls) key =
     (case split_once (CHR ''='') l of
        Some (k, v) \<Rightarrow> if k = key then Some v else labels_get ls key
      | None \<Rightarrow> labels_get ls key)"

definition nats_type :: "Labels \<Rightarrow> NkeyType option" where
  "nats_type ls =
     (case labels_get ls ''nats_type'' of
        None \<Rightarrow> None
      | Some v \<Rightarrow> (case utf8_chars v of [c] \<Rightarrow> from_letter c | _ \<Rightarrow> None))"

definition has_nats_type :: "Labels \<Rightarrow> bool" where
  "has_nats_type ls \<longleftrightarrow> nats_type ls \<noteq> None"

record BackendRef =
  be_kind :: BackendKind
  be_addr :: string
  be_engines :: "Engine list"
  be_capabilities :: "Capability list"
  be_mint_key_types :: "KeyAlgorithm list"
  be_requires :: "Capability list"

record KeyEntry =
  ke_class :: Class
  ke_key_type :: "KeyAlgorithm option"
  ke_backend :: string
  ke_engine :: "Engine option"
  ke_path :: string
  ke_public_path :: "string option"
  ke_writable :: bool
  ke_missing :: MissingPolicy
  ke_nix_cache :: "NixCacheIdentity option"
  ke_generate :: "GenerateSpec option"
  ke_sealing_pin :: "SealingPin option"
  ke_labels :: Labels
  ke_description :: string

record Catalog =
  backends :: "(string, BackendRef) btree"
  keys :: "(string, KeyEntry) btree"

definition effective_engine :: "KeyEntry \<Rightarrow> Engine" where
  "effective_engine e =
     (case ke_engine e of
        Some x \<Rightarrow> x
      | None \<Rightarrow> (case ke_class e of
          Asymmetric \<Rightarrow> Transit | Symmetric \<Rightarrow> Transit
        | ClassValue \<Rightarrow> Kv2 | ClassPublic \<Rightarrow> Kv2 | Sealing \<Rightarrow> Kv2))"

definition is_credential_issuer :: "KeyEntry \<Rightarrow> bool" where
  "is_credential_issuer e =
     (let nats_issuer = (case nats_type (ke_labels e) of
            Some Operator \<Rightarrow> True | Some Account \<Rightarrow> True | _ \<Rightarrow> False);
          svid_issuer = (case labels_get (ke_labels e) ''svid_kind'' of
            Some v \<Rightarrow> v = ''jwt'' \<or> v = ''x509'' | None \<Rightarrow> False)
      in nats_issuer \<or> svid_issuer)"

definition is_materialize_to_use :: "KeyEntry \<Rightarrow> bool" where
  "is_materialize_to_use e =
     (case ke_class e of
        Sealing \<Rightarrow> True
      | Asymmetric \<Rightarrow> effective_engine e = Kv2
      | _ \<Rightarrow> False)"

section \<open>Facts\<close>

text \<open>A capability is canonical when \<open>Other\<close> does not hide a known token.\<close>

definition cap_canonical :: "Capability \<Rightarrow> bool" where
  "cap_canonical c \<longleftrightarrow> capability_from (capability_token c) = c"

lemma capability_token_from: "capability_token (capability_from s) = s"
  by (simp add: capability_from_def)

interpretation capability_codec:
  strict_codec capability_token "\<lambda>s. Some (capability_from s)" cap_canonical
  by unfold_locales (auto simp: cap_canonical_def capability_token_from)

lemma is_known_canonical: "is_known c \<Longrightarrow> cap_canonical c"
  by (cases c) (simp_all add: is_known_def cap_canonical_def capability_from_def)

lemma alg_token_inj: "alg_token a = alg_token b \<longleftrightarrow> a = b"
  by (cases a; cases b) simp_all

lemma from_wire_key_type_inj: "from_wire_key_type a = from_wire_key_type b \<longleftrightarrow> a = b"
  by (cases a; cases b) simp_all

lemma labels_get_Some:
  "labels_get ls k = Some v \<Longrightarrow> k @ CHR ''='' # v \<in> set ls \<and> CHR ''='' \<notin> set k"
  by (induction ls) (auto split: option.splits if_splits simp: split_once_Some)

lemma labels_get_None:
  "labels_get ls k = None \<longleftrightarrow> (\<forall>l \<in> set ls. \<forall>v. split_once (CHR ''='') l \<noteq> Some (k, v))"
  by (induction ls) (auto split: option.splits if_splits)

text \<open>Pinned parties convert exactly when no present slot is empty.\<close>

lemma to_kdf_parties_ok_iff:
  "(\<exists>k. to_kdf_parties p = Inr k) \<longleftrightarrow> party_u p \<noteq> Some [] \<and> party_v p \<noteq> Some []"
  by (auto simp: to_kdf_parties_def pinned_slot_def PartyIdentity_from_bytes_def bytes_of_def split: option.splits)

text \<open>An accepted public key is 32 bytes in the one canonical spelling.\<close>

lemma nix_public_key_canonical:
  "nix_public_key_deserialize dec enc s = Inr k \<Longrightarrow> length k = 32 \<and> enc k = s"
  by (auto simp: nix_public_key_deserialize_def split: if_splits)

end
