(* ===== verification/Pdp.thy ===== *)
theory Pdp
  imports Actor Catalog_Schema
begin

text \<open>
  The policy decision point (\<open>core/catalog/pdp.rs\<close>): the one shared matcher \<open>evaluate\<close>
  behind \<open>decide\<close> and \<open>explain\<close>, the key-less admin decision, the offline subject view and
  the effective-permission sweep. \<open>evaluate\<close> is called \<open>pdp_evaluate\<close> here because
  expressions have an \<open>evaluate\<close> too.

  Results: an exact characterisation of every allow (default deny), the precedence of the
  hard caps over grants, agreement of the views, soundness and completeness of the
  effective sweep, insensitivity of the verdict to the order of rules, and what wildcards
  can and cannot authorise.
\<close>

section \<open>Decisions\<close>

datatype AllowVia = ViaSubject string | ViaPublicClass

datatype DenyReason = UnknownKey | NixCachePurposeBound | NotWritable | IssuerRawSign | NotPermitted

datatype Decision = Allow AllowVia | Deny DenyReason

fun is_allow :: "Decision \<Rightarrow> bool" where
  "is_allow (Allow _) = True"
| "is_allow (Deny _) = False"

fun is_deny :: "Decision \<Rightarrow> bool" where
  "is_deny (Deny _) = True"
| "is_deny (Allow _) = False"

record MatchedRule =
  mr_rule_id :: string
  mr_via :: AllowVia
  mr_subject :: string
  mr_action :: string
  mr_target :: string

record Explanation =
  decision :: Decision
  matched :: "MatchedRule option"

definition explanation_deny :: "DenyReason \<Rightarrow> Explanation" where
  "explanation_deny reason = \<lparr>decision = Deny reason, matched = None\<rparr>"

definition explanation_allow :: "string \<Rightarrow> Grant \<Rightarrow> Explanation" where
  "explanation_allow subject grant = \<lparr>decision = Allow (ViaSubject subject),
     matched = Some \<lparr>mr_rule_id = g_rule_id grant, mr_via = ViaSubject subject,
       mr_subject = subject, mr_action = g_action grant, mr_target = source (g_target grant)\<rparr>\<rparr>"

record EffectiveGrant =
  eg_key :: string
  eg_op :: Op
  eg_via :: AllowVia
  eg_rule_id :: "string option"

record Pdp =
  pdp_catalog :: Catalog
  pdp_policy :: ResolvedPolicy
  pdp_config :: Config

section \<open>Actors for inspection\<close>

definition pdp_resolve_local_actor where
  "pdp_resolve_local_actor sha256 b64 pdp peer =
     resolve_local_actor sha256 b64 (pdp_policy pdp) (pdp_config pdp) peer"

definition pdp_resolve_evidence_actor where
  "pdp_resolve_evidence_actor sha256 b64 pdp ev peer =
     resolve_evidence_actor sha256 b64 (pdp_policy pdp) ev peer"

definition pdp_resolve_unix_actor where
  "pdp_resolve_unix_actor sha256 b64 pdp uid =
     resolve_unix_actor sha256 b64 (pdp_policy pdp) (pdp_config pdp)
       (PeerInfo_default\<lparr>peer_uid := Some uid\<rparr>) uid"

definition resolve_subject_actor :: "Pdp \<Rightarrow> string \<Rightarrow> AuthenticatedActor option" where
  "resolve_subject_actor pdp subject =
     map_option (\<lambda>definition. \<lparr>actor_domain = sub_domain definition, actor_subject = subject,
         actor_workload_identity = None, authenticated_by = [],
         presenter = \<lparr>pres_pid = None, pres_uid = None, pres_gid = None,
           pres_executable_path = None, pres_display_label = Some ''policy-inspection''\<rparr>,
         transport = UnixSocket\<rparr>)
       (bt_get (subjects (pdp_policy pdp)) subject)"

definition subject_domain :: "Pdp \<Rightarrow> string \<Rightarrow> AuthorizationDomain option" where
  "subject_domain pdp subject = map_option sub_domain (bt_get (subjects (pdp_policy pdp)) subject)"

definition user_label :: "Pdp \<Rightarrow> u32 \<Rightarrow> string" where
  "user_label pdp uid = user_name_num (pdp_config pdp) uid"

definition group_label :: "Pdp \<Rightarrow> u32 \<Rightarrow> string" where
  "group_label pdp gid = group_name_num (pdp_config pdp) gid"

section \<open>The matcher\<close>

definition ADMIN_RELOAD_TARGET :: string where "ADMIN_RELOAD_TARGET = ''broker.reload''"
definition ADMIN_EXPLAIN_TARGET :: string where "ADMIN_EXPLAIN_TARGET = ''broker.explain''"
definition ADMIN_REVOKE_TARGET :: string where "ADMIN_REVOKE_TARGET = ''broker.revoke''"
definition ADMIN_WATCH_TARGET :: string where "ADMIN_WATCH_TARGET = ''broker.watch''"
definition ADMIN_CONNECTION_STATUS_TARGET :: string where
  "ADMIN_CONNECTION_STATUS_TARGET = ''broker.connections''"
definition ADMIN_CONNECTION_DROP_TARGET :: string where
  "ADMIN_CONNECTION_DROP_TARGET = ''broker.connections.drop''"

definition admin_target :: "Op \<Rightarrow> string option" where
  "admin_target op =
     (case op of
        OpReload \<Rightarrow> Some ADMIN_RELOAD_TARGET
      | OpExplain \<Rightarrow> Some ADMIN_EXPLAIN_TARGET
      | OpRevoke \<Rightarrow> Some ADMIN_REVOKE_TARGET
      | OpWatch \<Rightarrow> Some ADMIN_WATCH_TARGET
      | OpConnectionStatus \<Rightarrow> Some ADMIN_CONNECTION_STATUS_TARGET
      | OpConnectionDrop \<Rightarrow> Some ADMIN_CONNECTION_DROP_TARGET
      | _ \<Rightarrow> None)"

definition is_public_read :: "Op \<Rightarrow> bool" where
  "is_public_read op \<longleftrightarrow> op = OpGet \<or> op = OpGetPublicKey"

definition nix_cache_op_allowed :: "NixCacheState \<Rightarrow> Op \<Rightarrow> bool" where
  "nix_cache_op_allowed st op =
     (case st of
        Pending \<Rightarrow> op = OpEnrollNixCacheKey
      | Enrolled \<Rightarrow> op = OpEnrollNixCacheKey \<or> op = OpSignNixCacheFingerprint)"

definition matching_rule_subject :: "SubjectName list \<Rightarrow> string \<Rightarrow> string option" where
  "matching_rule_subject rule_subjs actor_subj = find (\<lambda>s. s = actor_subj) rule_subjs"

definition actor_is_registered :: "Pdp \<Rightarrow> AuthenticatedActor \<Rightarrow> bool" where
  "actor_is_registered pdp actor =
     (case bt_get (subjects (pdp_policy pdp)) (actor_subject actor) of
        Some definition \<Rightarrow> sub_domain definition = actor_domain actor
      | None \<Rightarrow> False)"

definition grant_matches :: "Op \<Rightarrow> string \<Rightarrow> Grant \<Rightarrow> bool" where
  "grant_matches op key g \<longleftrightarrow> g_op g = op \<and> glob_matches (g_target g) key"

text \<open>The \<open>for\<close> loop over the rules in declaration order.\<close>

fun first_grant :: "ResolvedRule list \<Rightarrow> string \<Rightarrow> Op \<Rightarrow> string \<Rightarrow> (string \<times> Grant) option" where
  "first_grant [] subj op key = None"
| "first_grant (rule # rest) subj op key =
     (case matching_rule_subject (rr_subjects rule) subj of
        Some s \<Rightarrow> (case find (grant_matches op key) (rr_grants rule) of
            Some g \<Rightarrow> Some (s, g)
          | None \<Rightarrow> first_grant rest subj op key)
      | None \<Rightarrow> first_grant rest subj op key)"

definition pdp_evaluate :: "Pdp \<Rightarrow> AuthenticatedActor \<Rightarrow> Op \<Rightarrow> string \<Rightarrow> Explanation" where
  "pdp_evaluate pdp actor op key =
     (case bt_get (keys (pdp_catalog pdp)) key of
        None \<Rightarrow> explanation_deny UnknownKey
      | Some entry \<Rightarrow>
          if (case ke_nix_cache entry of
                Some identity \<Rightarrow> \<not> nix_cache_op_allowed (nix_state identity) op
              | None \<Rightarrow> False)
          then explanation_deny NixCachePurposeBound
          else if is_write op \<and> \<not> ke_writable entry then explanation_deny NotWritable
          else if op = OpSign \<and> is_credential_issuer entry then explanation_deny IssuerRawSign
          else if \<not> actor_is_registered pdp actor then explanation_deny NotPermitted
          else case first_grant (rules (pdp_policy pdp)) (actor_subject actor) op key of
              Some (subject, grant) \<Rightarrow> explanation_allow subject grant
            | None \<Rightarrow>
                if ke_class entry = ClassPublic \<and> is_public_read op
                then \<lparr>decision = Allow ViaPublicClass, matched = None\<rparr>
                else explanation_deny NotPermitted)"

definition evaluate_without_actor :: "Pdp \<Rightarrow> Op \<Rightarrow> string \<Rightarrow> Explanation" where
  "evaluate_without_actor pdp op key =
     (case bt_get (keys (pdp_catalog pdp)) key of
        None \<Rightarrow> explanation_deny UnknownKey
      | Some entry \<Rightarrow>
          if (case ke_nix_cache entry of
                Some identity \<Rightarrow> \<not> nix_cache_op_allowed (nix_state identity) op
              | None \<Rightarrow> False)
          then explanation_deny NixCachePurposeBound
          else if is_write op \<and> \<not> ke_writable entry then explanation_deny NotWritable
          else if op = OpSign \<and> is_credential_issuer entry then explanation_deny IssuerRawSign
          else explanation_deny NotPermitted)"

definition decide :: "Pdp \<Rightarrow> AuthenticatedActor \<Rightarrow> Op \<Rightarrow> string \<Rightarrow> Decision" where
  "decide pdp actor op key = decision (pdp_evaluate pdp actor op key)"

definition explain :: "Pdp \<Rightarrow> AuthenticatedActor \<Rightarrow> Op \<Rightarrow> string \<Rightarrow> Explanation" where
  "explain pdp actor op key = pdp_evaluate pdp actor op key"

definition explain_subject :: "Pdp \<Rightarrow> string \<Rightarrow> Op \<Rightarrow> string \<Rightarrow> Explanation" where
  "explain_subject pdp subject op key =
     (case resolve_subject_actor pdp subject of
        None \<Rightarrow> evaluate_without_actor pdp op key
      | Some actor \<Rightarrow> pdp_evaluate pdp actor op key)"

fun admin_loop :: "ResolvedRule list \<Rightarrow> string \<Rightarrow> Op \<Rightarrow> string \<Rightarrow> Decision" where
  "admin_loop [] subj op key = Deny NotPermitted"
| "admin_loop (rule # rest) subj op key =
     (case matching_rule_subject (rr_subjects rule) subj of
        Some s \<Rightarrow> if list_ex (grant_matches op key) (rr_grants rule) then Allow (ViaSubject s)
                  else admin_loop rest subj op key
      | None \<Rightarrow> admin_loop rest subj op key)"

definition decide_admin :: "Pdp \<Rightarrow> AuthenticatedActor \<Rightarrow> Op \<Rightarrow> Decision" where
  "decide_admin pdp actor op =
     (case admin_target op of
        None \<Rightarrow> Deny NotPermitted
      | Some key \<Rightarrow>
          if \<not> actor_is_registered pdp actor then Deny NotPermitted
          else admin_loop (rules (pdp_policy pdp)) (actor_subject actor) op key)"

text \<open>The two nested loops of \<open>effective\<close> push in order; the final sort is stable.\<close>

definition effective_entry :: "Pdp \<Rightarrow> AuthenticatedActor \<Rightarrow> string \<Rightarrow> Op \<Rightarrow> EffectiveGrant list" where
  "effective_entry pdp actor key op =
     (let ex = explain pdp actor op key
      in case decision ex of
           Allow via \<Rightarrow> [\<lparr>eg_key = key, eg_op = op, eg_via = via,
             eg_rule_id = map_option mr_rule_id (matched ex)\<rparr>]
         | Deny _ \<Rightarrow> [])"

definition effective :: "Pdp \<Rightarrow> string \<Rightarrow> EffectiveGrant list" where
  "effective pdp subject =
     (case resolve_subject_actor pdp subject of
        None \<Rightarrow> []
      | Some actor \<Rightarrow>
          sort_key (\<lambda>g. (eg_key g, op_token (eg_op g)))
            (concat (map (\<lambda>key. concat (map (effective_entry pdp actor key) ALL_OPS))
              (map fst (keys (pdp_catalog pdp))))))"

section \<open>Searching the rules\<close>

definition rule_hit :: "string \<Rightarrow> Op \<Rightarrow> string \<Rightarrow> ResolvedRule \<Rightarrow> (string \<times> Grant) option" where
  "rule_hit subj op key rule =
     (case matching_rule_subject (rr_subjects rule) subj of
        Some s \<Rightarrow> map_option (Pair s) (find (grant_matches op key) (rr_grants rule))
      | None \<Rightarrow> None)"

definition admin_hit :: "string \<Rightarrow> Op \<Rightarrow> string \<Rightarrow> ResolvedRule \<Rightarrow> AllowVia option" where
  "admin_hit subj op key rule =
     (case matching_rule_subject (rr_subjects rule) subj of
        Some s \<Rightarrow> if list_ex (grant_matches op key) (rr_grants rule) then Some (ViaSubject s) else None
      | None \<Rightarrow> None)"

fun allow_via :: "Decision \<Rightarrow> AllowVia option" where
  "allow_via (Allow v) = Some v"
| "allow_via (Deny _) = None"

interpretation grant_search: first_match "\<lambda>rs. first_grant rs subj op key" "rule_hit subj op key"
  for subj op key
  by unfold_locales (auto simp: rule_hit_def split: option.splits)

interpretation admin_search: first_match "\<lambda>rs. allow_via (admin_loop rs subj op key)" "admin_hit subj op key"
  for subj op key
  by unfold_locales (auto simp: admin_hit_def split: option.splits)

text \<open>The specification of a grant: some rule names the subject and grants the operation.\<close>

definition rule_grants :: "string \<Rightarrow> Op \<Rightarrow> string \<Rightarrow> ResolvedRule \<Rightarrow> Grant \<Rightarrow> bool" where
  "rule_grants subj op key rule g \<longleftrightarrow>
     subj \<in> set (rr_subjects rule) \<and> g \<in> set (rr_grants rule) \<and> grant_matches op key g"

definition has_grant :: "ResolvedPolicy \<Rightarrow> string \<Rightarrow> Op \<Rightarrow> string \<Rightarrow> bool" where
  "has_grant policy subj op key \<longleftrightarrow> (\<exists>rule \<in> set (rules policy). \<exists>g. rule_grants subj op key rule g)"

lemma matching_rule_subject_Some [simp]:
  "matching_rule_subject ss a = Some s \<longleftrightarrow> s = a \<and> a \<in> set ss"
  "matching_rule_subject ss a = None \<longleftrightarrow> a \<notin> set ss"
  unfolding matching_rule_subject_def by (induction ss) auto

lemma find_Some_in: "find p xs = Some x \<Longrightarrow> x \<in> set xs \<and> p x"
  by (induction xs) (auto split: if_splits)

lemma rule_hit_Some:
  "rule_hit subj op key rule = Some (s, g) \<Longrightarrow> s = subj \<and> rule_grants subj op key rule g"
  by (auto simp: rule_hit_def rule_grants_def dest: find_Some_in split: option.splits)

lemma rule_hit_None: "rule_hit subj op key rule = None \<longleftrightarrow> (\<nexists>g. rule_grants subj op key rule g)"
  by (auto simp: rule_hit_def rule_grants_def find_None_iff split: option.splits)

lemma first_grant_None: "first_grant rs subj op key = None \<longleftrightarrow> (\<forall>r \<in> set rs. \<nexists>g. rule_grants subj op key r g)"
  by (simp add: grant_search.search_None_iff rule_hit_None)

lemma first_grant_Some:
  "first_grant rs subj op key = Some (s, g) \<Longrightarrow> s = subj \<and> (\<exists>r \<in> set rs. rule_grants subj op key r g)"
  using grant_search.search_Some_in rule_hit_Some by blast

lemma admin_loop_eq:
  "admin_loop rs subj op key =
     (if \<exists>r \<in> set rs. \<exists>g. rule_grants subj op key r g then Allow (ViaSubject subj) else Deny NotPermitted)"
  by (induction rs) (auto simp: rule_grants_def list_ex_iff split: option.splits)

section \<open>Hard caps and the specification of an allow\<close>

text \<open>The caps that no grant overrides, in the order the code checks them.\<close>

definition hard_cap :: "KeyEntry \<Rightarrow> Op \<Rightarrow> DenyReason option" where
  "hard_cap entry op =
     (if ke_nix_cache entry \<noteq> None \<and> \<not> nix_cache_op_allowed (nix_state (the (ke_nix_cache entry))) op
      then Some NixCachePurposeBound
      else if is_write op \<and> \<not> ke_writable entry then Some NotWritable
      else if op = OpSign \<and> is_credential_issuer entry then Some IssuerRawSign
      else None)"

definition authorized :: "Pdp \<Rightarrow> AuthenticatedActor \<Rightarrow> Op \<Rightarrow> string \<Rightarrow> bool" where
  "authorized pdp actor op key \<longleftrightarrow>
     actor_is_registered pdp actor \<and>
     (\<exists>entry. bt_get (keys (pdp_catalog pdp)) key = Some entry \<and> hard_cap entry op = None \<and>
        (has_grant (pdp_policy pdp) (actor_subject actor) op key \<or>
         ke_class entry = ClassPublic \<and> is_public_read op))"

lemma pdp_evaluate_capped:
  "bt_get (keys (pdp_catalog pdp)) key = Some entry \<Longrightarrow> hard_cap entry op = Some r \<Longrightarrow>
     pdp_evaluate pdp actor op key = explanation_deny r"
  by (auto simp: pdp_evaluate_def hard_cap_def split: if_splits option.splits)

lemma pdp_evaluate_uncapped:
  "bt_get (keys (pdp_catalog pdp)) key = Some entry \<Longrightarrow> hard_cap entry op = None \<Longrightarrow>
     pdp_evaluate pdp actor op key =
       (if \<not> actor_is_registered pdp actor then explanation_deny NotPermitted
        else case first_grant (rules (pdp_policy pdp)) (actor_subject actor) op key of
            Some (subject, grant) \<Rightarrow> explanation_allow subject grant
          | None \<Rightarrow> if ke_class entry = ClassPublic \<and> is_public_read op
              then \<lparr>decision = Allow ViaPublicClass, matched = None\<rparr>
              else explanation_deny NotPermitted)"
  by (auto simp: pdp_evaluate_def hard_cap_def split: if_splits option.splits)

lemma decide_unknown: "bt_get (keys (pdp_catalog pdp)) key = None \<Longrightarrow> decide pdp actor op key = Deny UnknownKey"
  by (simp add: decide_def pdp_evaluate_def explanation_deny_def)

lemma decide_eq:
  assumes "bt_get (keys (pdp_catalog pdp)) key = Some entry"
  shows "decide pdp actor op key =
     (case hard_cap entry op of
        Some r \<Rightarrow> Deny r
      | None \<Rightarrow>
          if \<not> actor_is_registered pdp actor then Deny NotPermitted
          else if has_grant (pdp_policy pdp) (actor_subject actor) op key
          then Allow (ViaSubject (actor_subject actor))
          else if ke_class entry = ClassPublic \<and> is_public_read op then Allow ViaPublicClass
          else Deny NotPermitted)"
proof (cases "hard_cap entry op")
  case (Some r)
  with assms show ?thesis by (simp add: decide_def pdp_evaluate_capped explanation_deny_def)
next
  case None
  show ?thesis
  proof (cases "first_grant (rules (pdp_policy pdp)) (actor_subject actor) op key")
    case no: None
    then have "\<not> has_grant (pdp_policy pdp) (actor_subject actor) op key"
      by (auto simp: has_grant_def first_grant_None)
    with None no assms show ?thesis by (simp add: decide_def pdp_evaluate_uncapped explanation_deny_def)
  next
    case (Some x)
    obtain s g where x: "x = (s, g)" by fastforce
    have "s = actor_subject actor" "has_grant (pdp_policy pdp) (actor_subject actor) op key"
      using first_grant_Some [OF Some [unfolded x]] by (auto simp: has_grant_def)
    with None Some assms x show ?thesis
      by (simp add: decide_def pdp_evaluate_uncapped explanation_deny_def explanation_allow_def)
  qed
qed

lemma decide_allow_iff: "is_allow (decide pdp actor op key) \<longleftrightarrow> authorized pdp actor op key"
  by (cases "bt_get (keys (pdp_catalog pdp)) key")
    (auto simp: decide_unknown decide_eq authorized_def split: option.splits)

lemma decide_via:
  "decide pdp actor op key = Allow v \<Longrightarrow>
     v = (if has_grant (pdp_policy pdp) (actor_subject actor) op key
          then ViaSubject (actor_subject actor) else ViaPublicClass)"
  by (cases "bt_get (keys (pdp_catalog pdp)) key")
    (auto simp: decide_unknown decide_eq split: option.splits if_splits)

lemma explain_matched:
  assumes "matched (explain pdp actor op key) = Some m"
  shows "decision (explain pdp actor op key) = Allow (ViaSubject (actor_subject actor)) \<and>
    (\<exists>rule \<in> set (rules (pdp_policy pdp)). \<exists>g. rule_grants (actor_subject actor) op key rule g \<and>
       m = \<lparr>mr_rule_id = g_rule_id g, mr_via = ViaSubject (actor_subject actor),
         mr_subject = actor_subject actor, mr_action = g_action g, mr_target = source (g_target g)\<rparr>)"
proof -
  obtain entry where e: "bt_get (keys (pdp_catalog pdp)) key = Some entry"
    using assms by (cases "bt_get (keys (pdp_catalog pdp)) key")
      (auto simp: explain_def pdp_evaluate_def explanation_deny_def)
  have c: "hard_cap entry op = None"
    using assms e by (cases "hard_cap entry op") (auto simp: explain_def pdp_evaluate_capped explanation_deny_def)
  obtain s g where f: "first_grant (rules (pdp_policy pdp)) (actor_subject actor) op key = Some (s, g)"
    and x: "explain pdp actor op key = explanation_allow s g"
    using assms e c by (auto simp: explain_def pdp_evaluate_uncapped explanation_deny_def
        split: if_splits option.splits prod.splits)
  from first_grant_Some [OF f] x assms show ?thesis by (auto simp: explanation_allow_def)
qed

lemma explain_matched_None:
  assumes "matched (explain pdp actor op key) = None"
  shows "decision (explain pdp actor op key) = Allow ViaPublicClass \<or> is_deny (decision (explain pdp actor op key))"
  using assms unfolding explain_def pdp_evaluate_def
  by (auto simp: explanation_deny_def explanation_allow_def split: option.splits if_splits)

lemma explain_subject_unregistered:
  "is_deny (decision (evaluate_without_actor pdp op key))"
  by (auto simp: evaluate_without_actor_def explanation_deny_def split: option.splits)

text \<open>A stale or forged actor sees exactly what an unknown subject sees.\<close>

lemma unregistered_evaluate:
  "\<not> actor_is_registered pdp actor \<Longrightarrow> pdp_evaluate pdp actor op key = evaluate_without_actor pdp op key"
  by (auto simp: pdp_evaluate_def evaluate_without_actor_def split: option.splits)

lemma registered_evaluate_cong:
  "actor_is_registered pdp a \<Longrightarrow> actor_is_registered pdp b \<Longrightarrow> actor_subject a = actor_subject b \<Longrightarrow>
     pdp_evaluate pdp a op key = pdp_evaluate pdp b op key"
  by (auto simp: pdp_evaluate_def split: option.splits)

lemma resolve_subject_actor_Some:
  "resolve_subject_actor pdp s = Some a \<Longrightarrow> actor_is_registered pdp a \<and> actor_subject a = s"
  by (auto simp: resolve_subject_actor_def actor_is_registered_def)

section \<open>The effective sweep\<close>

lemma effective_entry_set:
  "g \<in> set (effective_entry pdp actor key op) \<longleftrightarrow>
     (\<exists>via. decide pdp actor op key = Allow via \<and>
        g = \<lparr>eg_key = key, eg_op = op, eg_via = via,
          eg_rule_id = map_option mr_rule_id (matched (explain pdp actor op key))\<rparr>)"
  by (auto simp: effective_entry_def Let_def decide_def explain_def split: Decision.splits)

lemma effective_set:
  assumes "resolve_subject_actor pdp s = Some actor"
  shows "g \<in> set (effective pdp s) \<longleftrightarrow>
     eg_op g \<in> set ALL_OPS \<and> decide pdp actor (eg_op g) (eg_key g) = Allow (eg_via g) \<and>
     eg_rule_id g = map_option mr_rule_id (matched (explain pdp actor (eg_op g) (eg_key g)))"
proof -
  have "decide pdp actor (eg_op g) (eg_key g) = Allow (eg_via g) \<Longrightarrow>
      eg_key g \<in> fst ` set (keys (pdp_catalog pdp))"
    by (cases "bt_get (keys (pdp_catalog pdp)) (eg_key g)")
      (auto simp: decide_unknown bt_get_def dest!: map_of_SomeD intro: rev_image_eqI)
  then show ?thesis
    using assms by (cases g) (auto simp: effective_def effective_entry_set)
qed

lemma sorted_effective: "sorted (map (\<lambda>g. (eg_key g, op_token (eg_op g))) (effective pdp s))"
  by (auto simp: effective_def split: option.splits)

lemma distinct_effective:
  assumes "bt_wf (keys (pdp_catalog pdp))"
  shows "distinct (map (\<lambda>g. (eg_key g, eg_op g)) (effective pdp s))"
proof (cases "resolve_subject_actor pdp s")
  case (Some actor)
  have entry: "map (\<lambda>g. (eg_key g, eg_op g)) (effective_entry pdp actor k op) =
      (if is_allow (decide pdp actor op k) then [(k, op)] else [])" for k op
    by (auto simp: effective_entry_def decide_def explain_def Let_def split: Decision.splits)
  have ops: "map (\<lambda>g. (eg_key g, eg_op g)) (concat (map (effective_entry pdp actor k) os)) =
      map (Pair k) (filter (\<lambda>op. is_allow (decide pdp actor op k)) os)" for k os
    by (induction os) (auto simp: entry)
  have sweep: "map (\<lambda>g. (eg_key g, eg_op g)) (concat (map (\<lambda>k. concat (map (effective_entry pdp actor k) ALL_OPS)) ks)) =
      concat (map (\<lambda>k. map (Pair k) (filter (\<lambda>op. is_allow (decide pdp actor op k)) ALL_OPS)) ks)" for ks
    by (induction ks) (simp_all only: list.map concat.simps map_append ops)
  have "distinct ks \<Longrightarrow> distinct (concat (map (\<lambda>k. map (Pair k) (filter (\<lambda>op. is_allow (decide pdp actor op k)) ALL_OPS)) ks))"
    for ks by (induction ks) (auto simp: distinct_map distinct_ALL_OPS inj_on_def)
  with bt_wf_distinct [OF assms] have
    "distinct (map (\<lambda>g. (eg_key g, eg_op g)) (concat (map (\<lambda>k. concat (map (effective_entry pdp actor k) ALL_OPS))
       (map fst (keys (pdp_catalog pdp))))))"
    unfolding sweep by blast
  with Some show ?thesis
    by (simp add: effective_def distinct_map inj_on_def)
qed (simp add: effective_def)

lemma has_grant_rules_mono:
  "set (rules p) \<subseteq> set (rules q) \<Longrightarrow> has_grant p s op key \<Longrightarrow> has_grant q s op key"
  by (auto simp: has_grant_def)

lemma actor_is_registered_cong:
  "subjects (pdp_policy p) = subjects (pdp_policy q) \<Longrightarrow> actor_is_registered p a = actor_is_registered q a"
  by (simp add: actor_is_registered_def)

lemma resolved_actor_registered:
  assumes "bt_wf (subjects (pdp_policy pdp))"
    and "pdp_resolve_evidence_actor sha256 b64 pdp ev peer = Inr a"
  shows "actor_is_registered pdp a"
proof -
  have "resolves_to (subjects (pdp_policy pdp)) ev (actor_domain a) (actor_subject a)"
    using assms(2) resolve_evidence_actor_Inr(1) by (auto simp: pdp_resolve_evidence_actor_def)
  with assms(1) show ?thesis by (auto simp: resolves_to_iff actor_is_registered_def)
qed

section \<open>A small deployment used by the witnesses\<close>

definition demo_entry :: "Class \<Rightarrow> bool \<Rightarrow> NixCacheIdentity option \<Rightarrow> Labels \<Rightarrow> KeyEntry" where
  "demo_entry cls writable nix ls = \<lparr>ke_class = cls, ke_key_type = None, ke_backend = ''bao'',
     ke_engine = None, ke_path = ''p'', ke_public_path = None, ke_writable = writable,
     ke_missing = MissingError, ke_nix_cache = nix, ke_generate = None, ke_sealing_pin = None,
     ke_labels = ls, ke_description = ''d''\<rparr>"

definition demo_grant :: "Op \<Rightarrow> KeyGlob \<Rightarrow> Grant" where
  "demo_grant op target = \<lparr>g_op = op, g_target = target, g_rule_id = ''r1'', g_action = ''op:'' @ op_token op\<rparr>"

definition demo_pdp :: Pdp where
  "demo_pdp = \<lparr>
     pdp_catalog = \<lparr>backends = [],
       keys = [(''ca'', demo_entry ClassPublic False None []),
               (''nix'', demo_entry Asymmetric True
                  (Some \<lparr>key_name = ''k'', nix_state = Pending, backend_version = 1, public_key = None\<rparr>) []),
               (''web.db'', demo_entry ClassValue False None [])]\<rparr>,
     pdp_policy = \<lparr>subjects = [(''web'', \<lparr>sub_domain = HostProcess, sub_break_glass = False,
           sub_match = EvLeaf (ProcessUid (Numeric 7))\<rparr>)],
       rules = [\<lparr>rr_subjects = [''web''], rr_grants =
         [demo_grant OpGet (Pattern [Literal ''web'', Star]), demo_grant OpSet (Pattern [Literal ''web'', Star]),
          demo_grant OpEnrollNixCacheKey (Pattern [Literal ''nix'']),
          demo_grant OpReload (Pattern [Literal ''broker'', Star])]\<rparr>]\<rparr>,
     pdp_config = \<lparr>names = \<lparr>users = [], groups = []\<rparr>, memberships = []\<rparr>\<rparr>"

definition demo_actor :: "AuthorizationDomain \<Rightarrow> AuthenticatedActor" where
  "demo_actor domain = \<lparr>actor_domain = domain, actor_subject = ''web'', actor_workload_identity = None,
     authenticated_by = [], presenter = presenter_from PeerInfo_default, transport = UnixSocket\<rparr>"

section \<open>Properties\<close>

text \<open>
  C1: the decision point is default-deny, exactly. A request is allowed if and only if the
  actor's subject is registered in the actor's own domain, the key is in the catalog, no
  hard cap applies (the state-aware Nix cache surface, \<open>writable\<close>, raw signing with a
  credential issuer), and either some rule naming the subject grants the operation over a
  glob that matches the key, or the key is of the public class and the operation is one of
  the two public reads.
\<close>

theorem decide_allow_exact:
  "is_allow (decide pdp actor op key) \<longleftrightarrow>
     (\<exists>definition. bt_get (subjects (pdp_policy pdp)) (actor_subject actor) = Some definition \<and>
        sub_domain definition = actor_domain actor) \<and>
     (\<exists>entry. bt_get (keys (pdp_catalog pdp)) key = Some entry \<and>
        \<not> (\<exists>identity. ke_nix_cache entry = Some identity \<and> \<not> nix_cache_op_allowed (nix_state identity) op) \<and>
        \<not> (is_write op \<and> \<not> ke_writable entry) \<and>
        \<not> (op = OpSign \<and> is_credential_issuer entry) \<and>
        ((\<exists>rule grant. rule \<in> set (rules (pdp_policy pdp)) \<and> actor_subject actor \<in> set (rr_subjects rule) \<and>
            grant \<in> set (rr_grants rule) \<and> g_op grant = op \<and> glob_matches (g_target grant) key) \<or>
         (ke_class entry = ClassPublic \<and> is_public_read op)))"
proof -
  have cap: "hard_cap entry op = None \<longleftrightarrow>
      \<not> (\<exists>identity. ke_nix_cache entry = Some identity \<and> \<not> nix_cache_op_allowed (nix_state identity) op) \<and>
      \<not> (is_write op \<and> \<not> ke_writable entry) \<and> \<not> (op = OpSign \<and> is_credential_issuer entry)" for entry
    by (auto simp: hard_cap_def)
  have reg: "actor_is_registered pdp actor \<longleftrightarrow>
      (\<exists>definition. bt_get (subjects (pdp_policy pdp)) (actor_subject actor) = Some definition \<and>
        sub_domain definition = actor_domain actor)"
    by (auto simp: actor_is_registered_def split: option.splits)
  have grant: "has_grant (pdp_policy pdp) (actor_subject actor) op key \<longleftrightarrow>
      (\<exists>rule grant. rule \<in> set (rules (pdp_policy pdp)) \<and> actor_subject actor \<in> set (rr_subjects rule) \<and>
            grant \<in> set (rr_grants rule) \<and> g_op grant = op \<and> glob_matches (g_target grant) key)"
    unfolding has_grant_def rule_grants_def grant_matches_def Bex_def by blast
  show ?thesis unfolding decide_allow_iff authorized_def cap reg grant by blast
qed

text \<open>
  C4: the hard caps are not policy. Whenever a cap applies to a catalog entry, the request
  is denied, and with the same reason for every actor under every policy and configuration
  over that catalog.
\<close>

theorem hard_caps_override_policy:
  assumes "bt_get (keys (pdp_catalog pdp)) key = Some entry"
    and "pdp_catalog pdp' = pdp_catalog pdp"
    and "(\<exists>identity. ke_nix_cache entry = Some identity \<and> \<not> nix_cache_op_allowed (nix_state identity) op)
       \<or> (is_write op \<and> \<not> ke_writable entry) \<or> (op = OpSign \<and> is_credential_issuer entry)"
  shows "is_deny (decide pdp actor op key) \<and> decide pdp' actor' op key = decide pdp actor op key"
proof -
  have "hard_cap entry op \<noteq> None" using assms(3) by (auto simp: hard_cap_def)
  then obtain r where "hard_cap entry op = Some r" by auto
  with assms(1,2) show ?thesis by (simp add: decide_eq)
qed

lemma hard_caps_override_policy_witness:
  "is_deny (decide demo_pdp (demo_actor HostProcess) OpSet ''web.db'') \<and>
   has_grant (pdp_policy demo_pdp) ''web'' OpSet ''web.db''"
proof -
  have e: "bt_get (keys (pdp_catalog demo_pdp)) ''web.db'' = Some (demo_entry ClassValue False None [])"
    by (simp add: demo_pdp_def bt_get_def)
  have "has_grant (pdp_policy demo_pdp) ''web'' OpSet ''web.db''"
    by (simp add: has_grant_def rule_grants_def demo_pdp_def demo_grant_def grant_matches_def
        glob_matches_def pattern_matches_def conj_disj_distribR ex_disj_distrib)
  with hard_caps_override_policy [OF e refl, of OpSet "demo_actor HostProcess"] show ?thesis
    by (simp add: is_write_def demo_entry_def)
qed

text \<open>
  The provenance an explanation reports is real and can be replayed. When the matcher
  names a rule, the decision is an allow for the actor's own subject, a rule of the policy
  naming that subject carries a grant with the reported id and action, and the reported
  target text parses to a glob that matches the key.
\<close>

theorem explain_provenance:
  assumes "\<forall>rule \<in> set (rules (pdp_policy pdp)). \<forall>g \<in> set (rr_grants rule). glob_wf (g_target g)"
    and "matched (explain pdp actor op key) = Some m"
  shows "decide pdp actor op key = Allow (ViaSubject (actor_subject actor)) \<and>
     mr_subject m = actor_subject actor \<and>
     (\<exists>rule g. rule \<in> set (rules (pdp_policy pdp)) \<and> actor_subject actor \<in> set (rr_subjects rule) \<and>
        g \<in> set (rr_grants rule) \<and> g_op g = op \<and> g_rule_id g = mr_rule_id m \<and> g_action g = mr_action m) \<and>
     (\<exists>target. KeyGlob_parse (mr_target m) = Inr target \<and> glob_matches target key)"
proof -
  from explain_matched [OF assms(2)] obtain rule g where
    d: "decide pdp actor op key = Allow (ViaSubject (actor_subject actor))" and
    rule: "rule \<in> set (rules (pdp_policy pdp))" "rule_grants (actor_subject actor) op key rule g" and
    m: "m = \<lparr>mr_rule_id = g_rule_id g, mr_via = ViaSubject (actor_subject actor),
         mr_subject = actor_subject actor, mr_action = g_action g, mr_target = source (g_target g)\<rparr>"
    by (auto simp: decide_def explain_def)
  have "KeyGlob_parse (mr_target m) = Inr (g_target g)"
    using assms(1) rule m by (auto simp: rule_grants_def intro: parse_of_source)
  with d rule m show ?thesis by (auto simp: rule_grants_def grant_matches_def)
qed

lemma explain_provenance_witness:
  "\<exists>m. matched (explain demo_pdp (demo_actor HostProcess) OpGet ''web.db'') = Some m \<and>
     (\<exists>target. KeyGlob_parse (mr_target m) = Inr target \<and> glob_matches target ''web.db'')"
proof -
  have wf: "\<forall>rule \<in> set (rules (pdp_policy demo_pdp)). \<forall>g \<in> set (rr_grants rule). glob_wf (g_target g)"
    by (simp add: demo_pdp_def demo_grant_def glob_wf_def is_lit_def lit_ok_def last_ok_def)
  have "\<exists>m. matched (explain demo_pdp (demo_actor HostProcess) OpGet ''web.db'') = Some m"
    by (simp add: explain_def pdp_evaluate_def demo_pdp_def demo_entry_def demo_actor_def bt_get_def
        is_write_def actor_is_registered_def matching_rule_subject_def grant_matches_def demo_grant_def
        glob_matches_def pattern_matches_def explanation_allow_def)
  with explain_provenance [OF wf, of "demo_actor HostProcess" OpGet "''web.db''"] show ?thesis by blast
qed

text \<open>
  Rules only ever add permissions and their order does not matter for the verdict.
  With the catalog and the subjects unchanged, extending the set of rules keeps every
  allow, and two policies with the same set of rules take the same decision, provenance
  kind included.
\<close>

theorem rules_monotone_and_unordered:
  assumes "pdp_catalog pdp' = pdp_catalog pdp"
    and "subjects (pdp_policy pdp') = subjects (pdp_policy pdp)"
    and "set (rules (pdp_policy pdp)) \<subseteq> set (rules (pdp_policy pdp'))"
  shows "(is_allow (decide pdp actor op key) \<longrightarrow> is_allow (decide pdp' actor op key)) \<and>
     (set (rules (pdp_policy pdp')) = set (rules (pdp_policy pdp)) \<longrightarrow>
        decide pdp' actor op key = decide pdp actor op key)"
proof -
  have reg: "actor_is_registered pdp' actor = actor_is_registered pdp actor"
    using assms(2) by (rule actor_is_registered_cong)
  have "is_allow (decide pdp' actor op key)" if "is_allow (decide pdp actor op key)"
    using that assms has_grant_rules_mono [OF assms(3)] reg
    unfolding decide_allow_iff authorized_def by auto
  moreover have "decide pdp' actor op key = decide pdp actor op key"
    if "set (rules (pdp_policy pdp')) = set (rules (pdp_policy pdp))"
  proof (cases "bt_get (keys (pdp_catalog pdp)) key")
    case (Some entry)
    then have "bt_get (keys (pdp_catalog pdp')) key = Some entry" using assms(1) by simp
    moreover have "has_grant (pdp_policy pdp') s op key = has_grant (pdp_policy pdp) s op key" for s
      using that by (simp add: has_grant_def)
    ultimately show ?thesis by (simp only: decide_eq [OF Some] decide_eq reg)
  qed (simp add: decide_unknown assms(1))
  ultimately show ?thesis by blast
qed

lemma rules_monotone_and_unordered_witness:
  "is_allow (decide (demo_pdp\<lparr>pdp_policy := (pdp_policy demo_pdp)\<lparr>rules :=
     \<lparr>rr_subjects = [''x''], rr_grants = []\<rparr> # rules (pdp_policy demo_pdp)\<rparr>\<rparr>)
     (demo_actor HostProcess) OpGet ''web.db'')"
proof -
  have "is_allow (decide demo_pdp (demo_actor HostProcess) OpGet ''web.db'')"
    by (simp add: decide_def pdp_evaluate_def demo_pdp_def demo_entry_def demo_actor_def bt_get_def
        is_write_def actor_is_registered_def matching_rule_subject_def grant_matches_def demo_grant_def
        glob_matches_def pattern_matches_def explanation_allow_def)
  with rules_monotone_and_unordered [of "demo_pdp\<lparr>pdp_policy := (pdp_policy demo_pdp)\<lparr>rules :=
     \<lparr>rr_subjects = [''x''], rr_grants = []\<rparr> # rules (pdp_policy demo_pdp)\<rparr>\<rparr>" demo_pdp]
  show ?thesis by auto
qed

text \<open>
  An actor the policy does not register is never served. If the subject is unknown or
  its domain differs from the actor's, every key decision and every admin decision is a
  denial, and the explanation equals the one an unknown subject gets.
\<close>

theorem unregistered_actor_denied:
  assumes "\<forall>definition. bt_get (subjects (pdp_policy pdp)) (actor_subject actor) = Some definition \<longrightarrow>
      sub_domain definition \<noteq> actor_domain actor"
  shows "is_deny (decide pdp actor op key) \<and> decide_admin pdp actor op = Deny NotPermitted \<and>
     explain pdp actor op key = evaluate_without_actor pdp op key"
proof -
  have "\<not> actor_is_registered pdp actor"
    using assms by (auto simp: actor_is_registered_def split: option.splits)
  then show ?thesis
    by (simp add: decide_def explain_def unregistered_evaluate explain_subject_unregistered
        decide_admin_def split: option.splits)
qed

lemma unregistered_actor_denied_witness:
  "is_deny (decide demo_pdp (demo_actor SystemdUnitDomain) OpGet ''web.db'')"
  using unregistered_actor_denied [of demo_pdp "demo_actor SystemdUnitDomain" OpGet "''web.db''"]
  by (simp add: demo_pdp_def demo_actor_def bt_get_def)

text \<open>
  C7: the offline views agree with enforcement. For an actor resolved from evidence under
  the same policy, the live explanation equals the offline explanation of its subject name,
  and the live decision is the decision of that explanation.
\<close>

theorem offline_explain_agrees:
  assumes "bt_wf (subjects (pdp_policy pdp))"
    and "pdp_resolve_evidence_actor sha256 b64 pdp ev peer = Inr actor"
  shows "explain pdp actor op key = explain_subject pdp (actor_subject actor) op key \<and>
     decide pdp actor op key = decision (explain_subject pdp (actor_subject actor) op key)"
proof -
  have reg: "actor_is_registered pdp actor" using resolved_actor_registered [OF assms] .
  then obtain a where a: "resolve_subject_actor pdp (actor_subject actor) = Some a"
    by (auto simp: actor_is_registered_def resolve_subject_actor_def split: option.splits)
  have "pdp_evaluate pdp actor op key = pdp_evaluate pdp a op key"
    using registered_evaluate_cong [OF reg] resolve_subject_actor_Some [OF a] by auto
  with a show ?thesis by (simp add: explain_def explain_subject_def decide_def)
qed

lemma offline_explain_agrees_witness:
  "\<exists>actor. pdp_resolve_evidence_actor (\<lambda>x. x) (\<lambda>x. x) demo_pdp ev_none PeerInfo_default = Inr actor \<and>
     decide demo_pdp actor OpGet ''web.db'' = decision (explain_subject demo_pdp (actor_subject actor) OpGet ''web.db'')"
proof -
  have "\<exists>actor. pdp_resolve_evidence_actor (\<lambda>x. x) (\<lambda>x. x) demo_pdp ev_none PeerInfo_default = Inr actor"
    by (simp add: pdp_resolve_evidence_actor_def resolve_evidence_actor_def res_map_err_def demo_pdp_def
        resolve_subject_def ev_none_def evaluate_for_resolution_def compare_slots_def
        all_equal_def uniform_def is_signature_leaf_def Let_def MAX_REPORTED_SUBJECTS_def)
  moreover have "bt_wf (subjects (pdp_policy demo_pdp))" by (simp add: demo_pdp_def bt_wf_def)
  ultimately show ?thesis using offline_explain_agrees by blast
qed

text \<open>
  The effective-permission preview is exact on the wildcard operations. For a registered
  subject it lists a key and an operation exactly when the operation is one of \<open>ALL_OPS\<close> and
  the subject's request is allowed, with the grant that enforcement reports; the list is
  sorted by key and token and has no repetition.
\<close>

theorem effective_exact:
  assumes "resolve_subject_actor pdp s = Some actor" and "bt_wf (keys (pdp_catalog pdp))"
  shows "(\<forall>g. g \<in> set (effective pdp s) \<longleftrightarrow>
        eg_op g \<in> set ALL_OPS \<and> decide pdp actor (eg_op g) (eg_key g) = Allow (eg_via g) \<and>
        eg_rule_id g = map_option mr_rule_id (matched (explain pdp actor (eg_op g) (eg_key g)))) \<and>
     sorted (map (\<lambda>g. (eg_key g, op_token (eg_op g))) (effective pdp s)) \<and>
     distinct (map (\<lambda>g. (eg_key g, eg_op g)) (effective pdp s))"
  using effective_set [OF assms(1)] sorted_effective distinct_effective [OF assms(2)] by blast

lemma effective_exact_witness:
  "resolve_subject_actor demo_pdp ''web'' \<noteq> None \<and>
   sorted (map (\<lambda>g. (eg_key g, op_token (eg_op g))) (effective demo_pdp ''web'')) \<and>
   distinct (map (\<lambda>g. (eg_key g, eg_op g)) (effective demo_pdp ''web''))"
proof -
  have "\<exists>actor. resolve_subject_actor demo_pdp ''web'' = Some actor"
    by (simp add: resolve_subject_actor_def demo_pdp_def bt_get_def)
  moreover have "bt_wf (keys (pdp_catalog demo_pdp))" by (simp add: demo_pdp_def bt_wf_def)
  ultimately show ?thesis using effective_exact by blast
qed

text \<open>
  The preview is not complete for key-scoped operations outside \<open>ALL_OPS\<close>. In the small
  deployment the subject may enroll the pending Nix cache key, and the preview lists
  nothing at all for that key.
\<close>

theorem effective_omits_purpose_operations:
  "decision (explain_subject demo_pdp ''web'' OpEnrollNixCacheKey ''nix'') = Allow (ViaSubject ''web'') \<and>
   ''nix'' \<notin> eg_key ` set (effective demo_pdp ''web'')"
  by code_simp

text \<open>
  C34: an admin operation is allowed exactly when the actor is registered, the operation has
  a reserved target, and some rule naming the subject grants that very operation over a
  glob matching the reserved target; the grant may be written with any glob.
\<close>

theorem decide_admin_exact:
  "is_allow (decide_admin pdp actor op) \<longleftrightarrow>
     actor_is_registered pdp actor \<and> is_admin_op op \<and>
     (\<exists>target rule g. admin_target op = Some target \<and> rule \<in> set (rules (pdp_policy pdp)) \<and>
        actor_subject actor \<in> set (rr_subjects rule) \<and> g \<in> set (rr_grants rule) \<and>
        g_op g = op \<and> glob_matches (g_target g) target)"
proof (cases "admin_target op")
  case (Some target)
  then have "is_admin_op op" by (cases op) (simp_all add: admin_target_def is_admin_op_def)
  with Some show ?thesis
    by (auto simp: decide_admin_def admin_loop_eq rule_grants_def grant_matches_def)
qed (simp add: decide_admin_def)

end
