(* ===== verification/Token_Bucket.thy ===== *)
theory Token_Bucket
  imports Basil_Prelude
begin

text \<open>
  The integer-second token bucket of challenge issuance (\<open>core/challenge.rs\<close>). Token counts
  are naturals with the saturation of \<open>u32\<close> written out, times are integers with the
  saturation of \<open>i64\<close>.

  Results: over any sequence of attempts, clock jumps in both directions included, at most
  \<open>burst + refill_per_sec * forward seconds\<close> succeed; a positive refill makes an attempt
  succeed after one second; an idle bucket can be dropped without changing any later
  outcome.
\<close>

record TokenBucketConfig =
  burst :: nat
  refill_per_sec :: nat

record TokenBucket =
  tokens :: nat
  last_refill_unix :: int

definition bucket_new :: "TokenBucketConfig \<Rightarrow> int \<Rightarrow> TokenBucket" where
  "bucket_new cfg now_unix = \<lparr>tokens = burst cfg, last_refill_unix = now_unix\<rparr>"

definition refill :: "TokenBucket \<Rightarrow> TokenBucketConfig \<Rightarrow> int \<Rightarrow> TokenBucket" where
  "refill b cfg now_unix =
     (if now_unix < last_refill_unix b then b\<lparr>last_refill_unix := now_unix\<rparr>
      else let elapsed = sat_sub_i64 now_unix (last_refill_unix b) in
        if elapsed = 0 then b
        else let secs = (if elapsed \<le> int u32_max then nat elapsed else u32_max);
                 amount = sat_mul_u32 secs (refill_per_sec cfg)
             in b\<lparr>tokens := min (sat_add_u32 (tokens b) amount) (burst cfg),
                  last_refill_unix := now_unix\<rparr>)"

definition try_take :: "TokenBucket \<Rightarrow> TokenBucketConfig \<Rightarrow> int \<Rightarrow> bool \<times> TokenBucket" where
  "try_take b cfg now_unix =
     (let b' = refill b cfg now_unix in
      if tokens b' \<ge> 1 then (True, b'\<lparr>tokens := tokens b' - 1\<rparr>) else (False, b'))"

definition is_idle :: "TokenBucket \<Rightarrow> TokenBucketConfig \<Rightarrow> int \<Rightarrow> bool \<times> TokenBucket" where
  "is_idle b cfg now_unix =
     (let b' = refill b cfg now_unix in (tokens b' \<ge> burst cfg, b'))"

section \<open>Sequences of attempts\<close>

fun takes :: "TokenBucketConfig \<Rightarrow> TokenBucket \<Rightarrow> int list \<Rightarrow> nat \<times> TokenBucket" where
  "takes cfg b [] = (0, b)"
| "takes cfg b (t # ts) =
     (case try_take b cfg t of (ok, b') \<Rightarrow>
        case takes cfg b' ts of (n, b'') \<Rightarrow> (if ok then Suc n else n, b''))"

text \<open>The seconds a sequence of readings moves forward; backward jumps count nothing.\<close>

fun forward :: "int list \<Rightarrow> nat" where
  "forward (t # u # ts) = nat (u - t) + forward (u # ts)"
| "forward _ = 0"

definition bucket_ok :: "TokenBucketConfig \<Rightarrow> TokenBucket \<Rightarrow> bool" where
  "bucket_ok cfg b \<longleftrightarrow> tokens b \<le> burst cfg \<and> burst cfg \<le> u32_max \<and> is_i64 (last_refill_unix b)"

lemma sat_sub_i64_mono_bound: "is_i64 a \<Longrightarrow> is_i64 b \<Longrightarrow> b \<le> a \<Longrightarrow> 0 \<le> sat_sub_i64 a b \<and> sat_sub_i64 a b \<le> a - b"
  by (auto simp: sat_sub_i64_def clamp_i64_def is_i64_def i64_min_def i64_max_def)

lemma sat_sub_i64_zero: "is_i64 a \<Longrightarrow> is_i64 b \<Longrightarrow> sat_sub_i64 a b = 0 \<longleftrightarrow> a = b"
  by (auto simp: sat_sub_i64_def clamp_i64_def is_i64_def i64_min_def i64_max_def)

lemma last_refill_refill: "bucket_ok cfg b \<Longrightarrow> is_i64 now \<Longrightarrow> last_refill_unix (refill b cfg now) = now"
  by (auto simp: refill_def Let_def sat_sub_i64_zero bucket_ok_def)

lemma tokens_refill_burst: "bucket_ok cfg b \<Longrightarrow> tokens (refill b cfg now) \<le> burst cfg"
  by (auto simp: refill_def Let_def bucket_ok_def)

lemma tokens_refill_bound:
  assumes "bucket_ok cfg b" and "is_i64 now"
  shows "tokens (refill b cfg now) \<le> tokens b + refill_per_sec cfg * nat (now - last_refill_unix b)"
proof (cases "now < last_refill_unix b")
  case False
  have b: "sat_sub_i64 now (last_refill_unix b) \<le> now - last_refill_unix b"
    using False assms sat_sub_i64_mono_bound by (auto simp: bucket_ok_def)
  define secs where "secs = (if sat_sub_i64 now (last_refill_unix b) \<le> int u32_max
     then nat (sat_sub_i64 now (last_refill_unix b)) else u32_max)"
  have "secs \<le> nat (now - last_refill_unix b)" using b by (auto simp: secs_def)
  then have "sat_mul_u32 secs (refill_per_sec cfg) \<le> refill_per_sec cfg * nat (now - last_refill_unix b)"
    by (simp add: sat_mul_u32_def mult.commute min.coboundedI1)
  with False show ?thesis
    by (auto simp: refill_def Let_def sat_add_u32_def secs_def [symmetric])
qed (simp add: refill_def)

lemma bucket_ok_new [simp]: "burst cfg \<le> u32_max \<Longrightarrow> is_i64 now \<Longrightarrow> bucket_ok cfg (bucket_new cfg now)"
  by (simp add: bucket_ok_def bucket_new_def)

lemma bucket_ok_refill: "bucket_ok cfg b \<Longrightarrow> is_i64 now \<Longrightarrow> bucket_ok cfg (refill b cfg now)"
  using last_refill_refill [of cfg b now] tokens_refill_burst [of cfg b now] by (auto simp: bucket_ok_def)

lemma try_take_ok:
  assumes "bucket_ok cfg b" and "is_i64 now" and "try_take b cfg now = (ok, b')"
  shows "bucket_ok cfg b'" and "last_refill_unix b' = now"
    and "(if ok then Suc (tokens b') else tokens b') = tokens (refill b cfg now)"
  using assms bucket_ok_refill [OF assms(1,2)] last_refill_refill [OF assms(1,2)]
  by (auto simp: try_take_def Let_def bucket_ok_def split: if_splits)

lemma takes_bound:
  assumes "bucket_ok cfg b" and "\<forall>t \<in> set ts. is_i64 t"
  shows "fst (takes cfg b ts) \<le> tokens b + refill_per_sec cfg * forward (last_refill_unix b # ts)"
  using assms
proof (induction ts arbitrary: b)
  case (Cons t ts)
  obtain ok b' where tk: "try_take b cfg t = (ok, b')" by fastforce
  have t: "is_i64 t" using Cons.prems by simp
  note ok = try_take_ok [OF Cons.prems(1) t tk]
  have n: "fst (takes cfg b' ts) \<le> tokens b' + refill_per_sec cfg * forward (t # ts)"
    using Cons.IH [OF ok(1)] Cons.prems ok(2) by simp
  have "fst (takes cfg b (t # ts)) = (if ok then Suc (fst (takes cfg b' ts)) else fst (takes cfg b' ts))"
    by (simp add: tk split: prod.splits)
  also have "\<dots> \<le> tokens (refill b cfg t) + refill_per_sec cfg * forward (t # ts)"
    using n ok(3) by (auto split: if_splits)
  also have "\<dots> \<le> tokens b + refill_per_sec cfg * forward (last_refill_unix b # t # ts)"
    using tokens_refill_bound [OF Cons.prems(1) t] by (simp add: distrib_left)
  finally show ?case .
qed simp

section \<open>Idle buckets\<close>

lemma refill_full:
  assumes "bucket_ok cfg b" and "is_i64 now" and "fst (is_idle b cfg now)" and "now \<le> t" and "is_i64 t"
    and "last_refill_unix b \<le> now"
  shows "refill b cfg t = bucket_new cfg t"
proof -
  let ?l = "last_refill_unix b"
  have full: "tokens (refill b cfg now) = burst cfg"
    using assms(1,3) tokens_refill_burst [OF assms(1), of now] by (auto simp: is_idle_def Let_def)
  define amount where "amount e = sat_mul_u32 (if e \<le> int u32_max then nat e else u32_max) (refill_per_sec cfg)" for e
  have mono: "amount d \<le> amount e" if "0 \<le> d" "d \<le> e" for d e
    using that by (auto simp: amount_def sat_mul_u32_def nat_le_iff intro!: min.coboundedI1 mult_le_mono1)
  have sub: "sat_sub_i64 now ?l \<le> sat_sub_i64 t ?l" "0 \<le> sat_sub_i64 now ?l"
    using assms by (auto simp: sat_sub_i64_def clamp_i64_def is_i64_def i64_min_def i64_max_def bucket_ok_def)
  have "min (sat_add_u32 (tokens b) (amount (sat_sub_i64 now ?l))) (burst cfg) = burst cfg"
  proof (cases "sat_sub_i64 now ?l = 0")
    case True
    then have "tokens b = burst cfg"
      using full assms(6) by (simp add: refill_def)
    with assms(1) show ?thesis by (auto simp: sat_add_u32_def bucket_ok_def)
  next
    case False
    then show ?thesis using full assms(6) by (simp add: refill_def Let_def amount_def)
  qed
  then have f: "min (sat_add_u32 (tokens b) (amount (sat_sub_i64 t ?l))) (burst cfg) = burst cfg"
    using mono [OF sub(2,1)] by (auto simp: sat_add_u32_def)
  show ?thesis
  proof (cases "sat_sub_i64 t ?l = 0")
    case True
    then have "t = ?l" using assms by (auto simp: sat_sub_i64_zero bucket_ok_def)
    moreover from this have "now = t" using assms by simp
    ultimately show ?thesis using full True assms by (simp add: refill_def bucket_new_def)
  next
    case False
    then show ?thesis using f assms by (simp add: refill_def Let_def amount_def bucket_new_def)
  qed
qed

lemma takes_rate:
  assumes "bucket_ok cfg b" and "\<forall>u \<in> set (t # ts). is_i64 u"
  shows "fst (takes cfg b (t # ts)) \<le> burst cfg + refill_per_sec cfg * forward (t # ts)"
proof -
  obtain ok b' where tk: "try_take b cfg t = (ok, b')" by fastforce
  have t: "is_i64 t" using assms(2) by simp
  note ok = try_take_ok [OF assms(1) t tk]
  have "fst (takes cfg b' ts) \<le> tokens b' + refill_per_sec cfg * forward (t # ts)"
    using takes_bound [OF ok(1)] assms(2) ok(2) by simp
  moreover have "(if ok then Suc (tokens b') else tokens b') \<le> burst cfg"
    using ok(3) tokens_refill_burst [OF assms(1)] by simp
  ultimately show ?thesis by (auto simp: tk split: prod.splits if_splits)
qed

section \<open>Properties\<close>

text \<open>
  C35: a token bucket enforces its rate. However the attempts are spread, and even if the
  clock jumps back and forth, at most \<open>burst\<close> attempts plus \<open>refill_per_sec\<close> for every second
  the clock readings moved forward succeed.
\<close>

theorem token_bucket_rate:
  assumes "bucket_ok cfg b" and "\<forall>u \<in> set (t # ts). is_i64 u"
  shows "fst (takes cfg b (t # ts)) \<le> burst cfg + refill_per_sec cfg * forward (t # ts)"
  using assms by (rule takes_rate)

lemma token_bucket_rate_witness:
  "fst (takes \<lparr>burst = 2, refill_per_sec = 1\<rparr> (bucket_new \<lparr>burst = 2, refill_per_sec = 1\<rparr> 10) [10, 10, 10, 9, 11])
     \<le> 2 + 1 * forward [10, 10, 10, 9, 11]"
proof -
  have "bucket_ok \<lparr>burst = 2, refill_per_sec = 1\<rparr> (bucket_new \<lparr>burst = 2, refill_per_sec = 1\<rparr> 10)"
    by (simp add: bucket_ok_def bucket_new_def u32_max_def is_i64_def i64_min_def i64_max_def)
  moreover have "\<forall>u \<in> set [10, 10, 10, 9, 11]. is_i64 u"
    by (simp add: is_i64_def i64_min_def i64_max_def)
  ultimately show ?thesis using token_bucket_rate by fastforce
qed

text \<open>
  Dropping an idle bucket is unobservable. If a bucket is idle at \<open>now\<close>, then at every
  later time it answers an attempt exactly as a bucket created at that time would, so the
  eviction of idle partitions loses no rate-limit state.
\<close>

theorem idle_eviction_lossless:
  assumes "bucket_ok cfg b" and "is_i64 now" and "is_i64 t" and "last_refill_unix b \<le> now" and "now \<le> t"
    and "fst (is_idle b cfg now)"
  shows "try_take b cfg t = try_take (bucket_new cfg t) cfg t"
proof -
  have "refill (bucket_new cfg t) cfg t = bucket_new cfg t"
    by (simp add: refill_def bucket_new_def sat_sub_i64_def clamp_i64_def i64_min_def i64_max_def)
  moreover have "refill b cfg t = bucket_new cfg t" using refill_full assms by blast
  ultimately show ?thesis by (simp add: try_take_def)
qed

lemma idle_eviction_lossless_witness:
  "try_take \<lparr>tokens = 0, last_refill_unix = 10\<rparr> \<lparr>burst = 2, refill_per_sec = 1\<rparr> 20
     = try_take (bucket_new \<lparr>burst = 2, refill_per_sec = 1\<rparr> 20) \<lparr>burst = 2, refill_per_sec = 1\<rparr> 20"
  by (rule idle_eviction_lossless [where now = 12])
    (simp_all add: bucket_ok_def is_i64_def i64_min_def i64_max_def u32_max_def is_idle_def refill_def
      sat_sub_i64_def clamp_i64_def sat_mul_u32_def sat_add_u32_def)

end
