(* ===== verification/Challenge.thy ===== *)
theory Challenge
  imports Token_Bucket
begin

text \<open>
  The single-use freshness-challenge table (\<open>core/challenge.rs\<close>). Byte arrays are lists of
  8-bit words. What the code obtains from outside is a record \<open>IssueEnv\<close> given to \<open>issue\<close>:
  the outcomes of the system random source, the outcomes of the five \<open>try_reserve\<close> calls in
  their order, and the order in which a hash map of buckets is iterated. The digest of a
  source partition is the argument \<open>blake3\<close>.

  Results: a type invariant kept by every operation (exact per-key counts, capacities,
  tracked partitions, queue coverage); exactly-once consumption over every interleaving of
  issue and consume; a challenge stays consumable until its expiry whatever else happens;
  a presenter with another proof key cannot burn it; refused issuance changes nothing but
  expired records; the global issuance rate; injectivity of the partition preimage.
\<close>

section \<open>Constants and partitions\<close>

definition EXPIRY_CLEANUP_LIMIT :: nat where "EXPIRY_CLEANUP_LIMIT = 64"
definition SOURCE_PARTITION_DOMAIN :: "u8 list" where
  "SOURCE_PARTITION_DOMAIN = bytes_of ''basil.challenge-source-partition.v1'' @ [0]"
definition CHALLENGE_LEN :: nat where "CHALLENGE_LEN = 32"
definition INSTANCE_ID_LEN :: nat where "INSTANCE_ID_LEN = 16"
definition CHALLENGE_SUFFIX_LEN :: nat where "CHALLENGE_SUFFIX_LEN = CHALLENGE_LEN - INSTANCE_ID_LEN"
definition MAX_CHALLENGE_TTL_SECS :: int where "MAX_CHALLENGE_TTL_SECS = 60"
definition MAX_OUTSTANDING_PER_JKT :: nat where "MAX_OUTSTANDING_PER_JKT = 8"
definition DEFAULT_GLOBAL_CAPACITY :: nat where "DEFAULT_GLOBAL_CAPACITY = 16384"

type_synonym ChallengeSourcePartition = "u8 list"
type_synonym Jkt = "u8 list"
type_synonym Suffix = "u8 list"

definition length_prefixed :: "u8 list \<Rightarrow> u8 list" where
  "length_prefixed value = be_bytes 8 (min (length value) (2 ^ 64 - 1)) @ value"

text \<open>The bytes fed to the hasher by \<open>derive\<close>.\<close>

definition partition_preimage :: "u8 \<Rightarrow> string \<Rightarrow> u32 \<Rightarrow> string option \<Rightarrow> u8 list" where
  "partition_preimage kind listener_name uid src =
     SOURCE_PARTITION_DOMAIN @ [kind] @ length_prefixed (bytes_of listener_name) @
     be_bytes 4 (unat uid) @
     (case src of Some s \<Rightarrow> [1] @ length_prefixed (bytes_of s) | None \<Rightarrow> [0])"

definition partition_derive ::
    "(u8 list \<Rightarrow> u8 list) \<Rightarrow> u8 \<Rightarrow> string \<Rightarrow> u32 \<Rightarrow> string option \<Rightarrow> ChallengeSourcePartition" where
  "partition_derive blake3 kind listener_name uid src = blake3 (partition_preimage kind listener_name uid src)"

definition partition_host :: "(u8 list \<Rightarrow> u8 list) \<Rightarrow> string \<Rightarrow> u32 \<Rightarrow> ChallengeSourcePartition" where
  "partition_host blake3 listener_name uid = partition_derive blake3 0 listener_name uid None"

definition partition_courier :: "(u8 list \<Rightarrow> u8 list) \<Rightarrow> string \<Rightarrow> u32 \<Rightarrow> string \<Rightarrow> ChallengeSourcePartition" where
  "partition_courier blake3 listener_name uid src = partition_derive blake3 2 listener_name uid (Some src)"

section \<open>Configuration and state\<close>

record ChallengeTableConfig =
  global_capacity :: nat
  per_jkt_capacity :: nat
  ttl_secs :: int
  global_rate :: TokenBucketConfig
  per_jkt_rate :: TokenBucketConfig
  per_source_rate :: TokenBucketConfig
  tracked_partitions :: nat

definition ChallengeTableConfig_default :: ChallengeTableConfig where
  "ChallengeTableConfig_default = \<lparr>
     global_capacity = DEFAULT_GLOBAL_CAPACITY,
     per_jkt_capacity = MAX_OUTSTANDING_PER_JKT,
     ttl_secs = MAX_CHALLENGE_TTL_SECS,
     global_rate = \<lparr>burst = 512, refill_per_sec = 128\<rparr>,
     per_jkt_rate = \<lparr>burst = 8, refill_per_sec = 4\<rparr>,
     per_source_rate = \<lparr>burst = 64, refill_per_sec = 16\<rparr>,
     tracked_partitions = DEFAULT_GLOBAL_CAPACITY\<rparr>"

record ChallengeRecord =
  rec_jkt :: Jkt
  rec_generation :: nat
  rec_expires_at :: int

record IssuedChallenge =
  challenge :: "u8 list"
  expires_at_unix :: int

datatype IssueDecline = RateLimited | CapacityExhausted | EntropyUnavailable

datatype ConsumeDenied = Unknown | ForeignInstance | JktMismatch | GenerationMismatch | Expired

record ChallengeTable =
  ct_config :: ChallengeTableConfig
  instance_id :: "u8 list option"
  records :: "(Suffix, ChallengeRecord) hashmap"
  outstanding_per_jkt :: "(Jkt, nat) hashmap"
  global_bucket :: TokenBucket
  jkt_buckets :: "(Jkt, TokenBucket) hashmap"
  source_buckets :: "(ChallengeSourcePartition, TokenBucket) hashmap"
  expiry_queue :: "(Suffix \<times> int) list"

text \<open>
  The outside world of one \<open>issue\<close>: the draw for a missing instance id, the successive
  suffix draws, the outcomes of the reservations (records, queue, per-key counts, source
  buckets, proof-key buckets), and the iteration orders of the two bucket maps.
\<close>

record IssueEnv =
  env_id_draw :: "u8 list option"
  env_suffix_draw :: "nat \<Rightarrow> u8 list option"
  env_reserve :: "nat \<Rightarrow> bool"
  env_iter_source :: "(ChallengeSourcePartition, TokenBucket) hashmap \<Rightarrow> (ChallengeSourcePartition \<times> TokenBucket) list"
  env_iter_jkt :: "(Jkt, TokenBucket) hashmap \<Rightarrow> (Jkt \<times> TokenBucket) list"

definition with_config :: "u8 list option \<Rightarrow> ChallengeTableConfig \<Rightarrow> ChallengeTable" where
  "with_config id_draw config =
     (let config' = config\<lparr>
        global_capacity := max (global_capacity config) 1,
        per_jkt_capacity := max 1 (min (per_jkt_capacity config) MAX_OUTSTANDING_PER_JKT),
        ttl_secs := max 1 (min (ttl_secs config) MAX_CHALLENGE_TTL_SECS),
        tracked_partitions := max (tracked_partitions config) 1\<rparr>
      in \<lparr>ct_config = config', instance_id = id_draw, records = [], outstanding_per_jkt = [],
          global_bucket = bucket_new (global_rate config') 0, jkt_buckets = [], source_buckets = [],
          expiry_queue = []\<rparr>)"

definition outstanding :: "ChallengeTable \<Rightarrow> nat" where
  "outstanding t = length (records t)"

section \<open>Partition debits\<close>

datatype 'k PartitionDebit = Update 'k TokenBucket | Insert 'k TokenBucket "'k option"

definition find_idle :: "('k \<times> TokenBucket) list \<Rightarrow> TokenBucketConfig \<Rightarrow> int \<Rightarrow> 'k option" where
  "find_idle order cfg now_unix = map_option fst (find (\<lambda>(k, b). fst (is_idle b cfg now_unix)) order)"

definition plan_partition_token ::
    "(('k, TokenBucket) hashmap \<Rightarrow> ('k \<times> TokenBucket) list) \<Rightarrow> ('k, TokenBucket) hashmap \<Rightarrow> 'k \<Rightarrow>
     TokenBucketConfig \<Rightarrow> nat \<Rightarrow> int \<Rightarrow> 'k PartitionDebit option" where
  "plan_partition_token iter buckets key cfg tracked now_unix =
     (case hm_get buckets key of
        Some bucket \<Rightarrow>
          (case try_take bucket cfg now_unix of
             (True, bucket') \<Rightarrow> Some (Update key bucket') | (False, _) \<Rightarrow> None)
      | None \<Rightarrow>
          let evict = (if length buckets \<ge> tracked then find_idle (iter buckets) cfg now_unix else None) in
          if length buckets \<ge> tracked \<and> evict = None then None
          else (case try_take (bucket_new cfg now_unix) cfg now_unix of
             (True, bucket) \<Rightarrow> Some (Insert key bucket evict) | (False, _) \<Rightarrow> None))"

fun reserve_if_growing :: "bool \<Rightarrow> 'k PartitionDebit \<Rightarrow> IssueDecline + unit" where
  "reserve_if_growing reserved (Insert _ _ None) = (if reserved then Inr () else Inl CapacityExhausted)"
| "reserve_if_growing reserved _ = Inr ()"

fun commit :: "'k PartitionDebit \<Rightarrow> ('k, TokenBucket) hashmap \<Rightarrow> ('k, TokenBucket) hashmap" where
  "commit (Update key bucket) buckets = hm_insert key bucket buckets"
| "commit (Insert key bucket evict) buckets =
     hm_insert key bucket (case evict of Some k \<Rightarrow> hm_remove k buckets | None \<Rightarrow> buckets)"

section \<open>Operations\<close>

definition remove_record :: "Suffix \<Rightarrow> ChallengeTable \<Rightarrow> ChallengeTable" where
  "remove_record suffix t =
     (case hm_get (records t) suffix of
        None \<Rightarrow> t
      | Some r \<Rightarrow>
          let t' = t\<lparr>records := hm_remove suffix (records t)\<rparr> in
          (case hm_get (outstanding_per_jkt t) (rec_jkt r) of
             None \<Rightarrow> t'
           | Some n \<Rightarrow>
               let n' = n - 1 in
               t'\<lparr>outstanding_per_jkt :=
                 (if n' = 0 then hm_remove (rec_jkt r) (outstanding_per_jkt t)
                  else hm_insert (rec_jkt r) n' (outstanding_per_jkt t))\<rparr>))"

fun purge_loop :: "nat \<Rightarrow> int \<Rightarrow> ChallengeTable \<Rightarrow> ChallengeTable" where
  "purge_loop 0 now_unix t = t"
| "purge_loop (Suc n) now_unix t =
     (case expiry_queue t of
        [] \<Rightarrow> t
      | (suffix, queued_expiry) # rest \<Rightarrow>
          let t' = t\<lparr>expiry_queue := rest\<rparr> in
          purge_loop n now_unix
            (case hm_get (records t) suffix of
               Some r \<Rightarrow>
                 if rec_expires_at r = queued_expiry \<and> now_unix > rec_expires_at r
                 then remove_record suffix t'
                 else if rec_expires_at r = queued_expiry
                 then t'\<lparr>expiry_queue := rest @ [(suffix, queued_expiry)]\<rparr>
                 else t'
             | None \<Rightarrow> t'))"

definition purge_expired :: "int \<Rightarrow> ChallengeTable \<Rightarrow> ChallengeTable" where
  "purge_expired now_unix t = purge_loop (min (length (expiry_queue t)) EXPIRY_CLEANUP_LIMIT) now_unix t"

text \<open>At most four draws; a failed draw ends the loop.\<close>

fun unused_suffix_loop :: "nat \<Rightarrow> nat \<Rightarrow> (nat \<Rightarrow> u8 list option) \<Rightarrow> (Suffix, ChallengeRecord) hashmap \<Rightarrow> Suffix option" where
  "unused_suffix_loop 0 i draw recs = None"
| "unused_suffix_loop (Suc n) i draw recs =
     (case draw i of
        None \<Rightarrow> None
      | Some suffix \<Rightarrow>
          if hm_get recs suffix = None then Some suffix else unused_suffix_loop n (Suc i) draw recs)"

definition unused_suffix :: "(nat \<Rightarrow> u8 list option) \<Rightarrow> ChallengeTable \<Rightarrow> Suffix option" where
  "unused_suffix draw t = unused_suffix_loop 4 0 draw (records t)"

definition reserve :: "bool \<Rightarrow> IssueDecline + unit" where
  "reserve ok = (if ok then Inr () else Inl CapacityExhausted)"

definition reserve_issue_maps ::
    "(nat \<Rightarrow> bool) \<Rightarrow> ChallengeTable \<Rightarrow> Jkt \<Rightarrow> ChallengeSourcePartition PartitionDebit \<Rightarrow> Jkt PartitionDebit \<Rightarrow>
     IssueDecline + unit" where
  "reserve_issue_maps reserved t jkt source_debit jkt_debit =
     res_bind (reserve (reserved 0)) (\<lambda>_.
     res_bind (reserve (reserved 1)) (\<lambda>_.
     res_bind (if hm_get (outstanding_per_jkt t) jkt = None then reserve (reserved 2) else Inr ()) (\<lambda>_.
     res_bind (reserve_if_growing (reserved 3) source_debit) (\<lambda>_.
     reserve_if_growing (reserved 4) jkt_debit))))"

text \<open>
  The checks of \<open>issue\<close> in their order; every \<open>?\<close> and early return is an \<open>Inl\<close>. The result
  is what the commit phase uses: the instance id, the debited global bucket, the two
  planned partition debits and the fresh suffix.
\<close>

definition try_take_ok_or :: "bool \<times> TokenBucket \<Rightarrow> IssueDecline + TokenBucket" where
  "try_take_ok_or r = (if fst r then Inr (snd r) else Inl RateLimited)"

definition out_count :: "ChallengeTable \<Rightarrow> Jkt \<Rightarrow> nat" where
  "out_count t jkt = (case hm_get (outstanding_per_jkt t) jkt of Some n \<Rightarrow> n | None \<Rightarrow> 0)"

definition issue_plan ::
    "IssueEnv \<Rightarrow> Jkt \<Rightarrow> ChallengeSourcePartition \<Rightarrow> int \<Rightarrow> ChallengeTable \<Rightarrow>
     IssueDecline + (u8 list \<times> TokenBucket \<times> ChallengeSourcePartition PartitionDebit \<times> Jkt PartitionDebit \<times> Suffix)" where
  "issue_plan env jkt src now_unix t =
     (let cfg = ct_config t in
      res_bind (ok_or (case instance_id t of Some i \<Rightarrow> Some i | None \<Rightarrow> env_id_draw env) EntropyUnavailable) (\<lambda>iid.
      res_bind (if length (records t) \<ge> global_capacity cfg then Inl CapacityExhausted else Inr ()) (\<lambda>_.
      res_bind (if out_count t jkt \<ge> per_jkt_capacity cfg then Inl CapacityExhausted else Inr ()) (\<lambda>_.
      res_bind (try_take_ok_or (try_take (global_bucket t) (global_rate cfg) now_unix)) (\<lambda>bucket.
      res_bind (ok_or (plan_partition_token (env_iter_source env) (source_buckets t) src (per_source_rate cfg)
          (tracked_partitions cfg) now_unix) RateLimited) (\<lambda>source_debit.
      res_bind (ok_or (plan_partition_token (env_iter_jkt env) (jkt_buckets t) jkt (per_jkt_rate cfg)
          (tracked_partitions cfg) now_unix) RateLimited) (\<lambda>jkt_debit.
      res_bind (ok_or (unused_suffix (env_suffix_draw env) t) EntropyUnavailable) (\<lambda>suffix.
      res_bind (reserve_issue_maps (env_reserve env) t jkt source_debit jkt_debit) (\<lambda>_.
      Inr (iid, bucket, source_debit, jkt_debit, suffix))))))))))"

text \<open>
  \<open>issue\<close> returns its result and the table. A refusal leaves the purged table, since every
  other change is committed together at the end.
\<close>

definition issue ::
    "IssueEnv \<Rightarrow> Jkt \<Rightarrow> ChallengeSourcePartition \<Rightarrow> nat \<Rightarrow> int \<Rightarrow> ChallengeTable \<Rightarrow>
     (IssueDecline + IssuedChallenge) \<times> ChallengeTable" where
  "issue env jkt src generation now_unix t0 =
     (let t = purge_expired now_unix t0 in
      case issue_plan env jkt src now_unix t of
        Inl e \<Rightarrow> (Inl e, t)
      | Inr (iid, bucket, source_debit, jkt_debit, suffix) \<Rightarrow>
          let expires = sat_add_i64 now_unix (ttl_secs (ct_config t)) in
          (Inr \<lparr>challenge = iid @ suffix, expires_at_unix = expires\<rparr>,
           t\<lparr>instance_id := Some iid, global_bucket := bucket,
             source_buckets := commit source_debit (source_buckets t),
             jkt_buckets := commit jkt_debit (jkt_buckets t),
             records := hm_insert suffix
               \<lparr>rec_jkt = jkt, rec_generation = generation, rec_expires_at = expires\<rparr> (records t),
             expiry_queue := expiry_queue t @ [(suffix, expires)],
             outstanding_per_jkt :=
               hm_insert jkt (sat_add_usize (out_count t jkt) 1) (outstanding_per_jkt t)\<rparr>))"

definition consume ::
    "u8 list \<Rightarrow> Jkt \<Rightarrow> nat \<Rightarrow> int \<Rightarrow> ChallengeTable \<Rightarrow> (ConsumeDenied + unit) \<times> ChallengeTable" where
  "consume chal jkt generation now_unix t =
     (if length chal < INSTANCE_ID_LEN then (Inl Unknown, t)
      else let prefix = take INSTANCE_ID_LEN chal; suffix = drop INSTANCE_ID_LEN chal in
      if length suffix \<noteq> CHALLENGE_SUFFIX_LEN then (Inl Unknown, t)
      else if instance_id t \<noteq> Some prefix then (Inl ForeignInstance, t)
      else case hm_get (records t) suffix of
        None \<Rightarrow> (Inl Unknown, t)
      | Some r \<Rightarrow>
        if now_unix > rec_expires_at r then (Inl Expired, remove_record suffix t)
        else if rec_jkt r \<noteq> jkt then (Inl JktMismatch, t)
        else if rec_generation r \<noteq> generation then (Inl GenerationMismatch, remove_record suffix t)
        else (Inr (), remove_record suffix t))"

section \<open>Counting outstanding challenges\<close>

definition jkt_count :: "Jkt \<Rightarrow> (Suffix, ChallengeRecord) hashmap \<Rightarrow> nat" where
  "jkt_count j recs = length (filter (\<lambda>(s, r). rec_jkt r = j) recs)"

lemma jkt_count_remove:
  "hm_wf m \<Longrightarrow> hm_get m s = Some r \<Longrightarrow>
     jkt_count j m = jkt_count j (hm_remove s m) + (if rec_jkt r = j then 1 else 0)"
proof (induction m)
  case (Cons x m)
  obtain s' r' where x: "x = (s', r')" by fastforce
  show ?case
  proof (cases "s' = s")
    case True
    with Cons.prems x have "hm_remove s m = m"
      by (auto simp: hm_wf_def hm_remove_def filter_id_conv image_iff)
    with True Cons.prems x show ?thesis by (simp add: jkt_count_def hm_get_def hm_remove_def)
  next
    case False
    with Cons x show ?thesis by (auto simp: jkt_count_def hm_get_def hm_remove_def hm_wf_def)
  qed
qed simp

lemma jkt_count_insert_new:
  "hm_get m s = None \<Longrightarrow> jkt_count j (hm_insert s r m) = jkt_count j m + (if rec_jkt r = j then 1 else 0)"
  by (induction s r m rule: hm_insert.induct) (auto simp: jkt_count_def hm_get_def split: if_splits)

lemma jkt_count_pos: "hm_get m s = Some r \<Longrightarrow> 0 < jkt_count (rec_jkt r) m"
  by (auto simp: jkt_count_def hm_get_def filter_empty_conv dest!: map_of_SomeD intro!: bexI)

section \<open>The invariant\<close>

definition config_ok :: "ChallengeTableConfig \<Rightarrow> bool" where
  "config_ok c \<longleftrightarrow> 1 \<le> global_capacity c \<and> 1 \<le> per_jkt_capacity c \<and>
     per_jkt_capacity c \<le> MAX_OUTSTANDING_PER_JKT \<and> 1 \<le> ttl_secs c \<and>
     ttl_secs c \<le> MAX_CHALLENGE_TTL_SECS \<and> 1 \<le> tracked_partitions c"

definition rates_ok :: "ChallengeTableConfig \<Rightarrow> bool" where
  "rates_ok c \<longleftrightarrow> burst (global_rate c) \<le> u32_max \<and> burst (per_jkt_rate c) \<le> u32_max \<and>
     burst (per_source_rate c) \<le> u32_max"

definition counts_ok :: "ChallengeTable \<Rightarrow> bool" where
  "counts_ok t \<longleftrightarrow> hm_wf (records t) \<and> hm_wf (outstanding_per_jkt t) \<and>
     (\<forall>j. hm_get (outstanding_per_jkt t) j =
        (if jkt_count j (records t) = 0 then None else Some (jkt_count j (records t))))"

definition capacity_ok :: "ChallengeTable \<Rightarrow> bool" where
  "capacity_ok t \<longleftrightarrow> length (records t) \<le> global_capacity (ct_config t) \<and>
     (\<forall>j. jkt_count j (records t) \<le> per_jkt_capacity (ct_config t))"

definition queue_ok :: "ChallengeTable \<Rightarrow> bool" where
  "queue_ok t \<longleftrightarrow>
     (\<forall>s r. hm_get (records t) s = Some r \<longrightarrow> (s, rec_expires_at r) \<in> set (expiry_queue t))"

definition buckets_ok :: "TokenBucketConfig \<Rightarrow> nat \<Rightarrow> ('k, TokenBucket) hashmap \<Rightarrow> bool" where
  "buckets_ok cfg tracked m \<longleftrightarrow> hm_wf m \<and> length m \<le> tracked \<and> (\<forall>k b. hm_get m k = Some b \<longrightarrow> bucket_ok cfg b)"

definition ids_ok :: "ChallengeTable \<Rightarrow> bool" where
  "ids_ok t \<longleftrightarrow> (instance_id t = None \<longrightarrow> records t = []) \<and>
     (\<forall>i. instance_id t = Some i \<longrightarrow> length i = INSTANCE_ID_LEN) \<and>
     (\<forall>s r. hm_get (records t) s = Some r \<longrightarrow> length s = CHALLENGE_SUFFIX_LEN)"

definition table_inv :: "ChallengeTable \<Rightarrow> bool" where
  "table_inv t \<longleftrightarrow> config_ok (ct_config t) \<and> rates_ok (ct_config t) \<and> counts_ok t \<and> capacity_ok t \<and>
     queue_ok t \<and> ids_ok t \<and> bucket_ok (global_rate (ct_config t)) (global_bucket t) \<and>
     buckets_ok (per_jkt_rate (ct_config t)) (tracked_partitions (ct_config t)) (jkt_buckets t) \<and>
     buckets_ok (per_source_rate (ct_config t)) (tracked_partitions (ct_config t)) (source_buckets t)"

text \<open>What the outside world guarantees: draws have the requested length and iteration visits the map.\<close>

definition env_ok :: "IssueEnv \<Rightarrow> bool" where
  "env_ok env \<longleftrightarrow> (\<forall>i. env_id_draw env = Some i \<longrightarrow> length i = INSTANCE_ID_LEN) \<and>
     (\<forall>n s. env_suffix_draw env n = Some s \<longrightarrow> length s = CHALLENGE_SUFFIX_LEN) \<and>
     (\<forall>m. set (env_iter_source env m) = set m) \<and> (\<forall>m. set (env_iter_jkt env m) = set m)"

lemma with_config_inv:
  assumes "rates_ok cfg" and "\<forall>i. id_draw = Some i \<longrightarrow> length i = INSTANCE_ID_LEN"
  shows "table_inv (with_config id_draw cfg)"
  using assms
  by (auto simp: table_inv_def with_config_def Let_def config_ok_def rates_ok_def counts_ok_def capacity_ok_def
      queue_ok_def ids_ok_def buckets_ok_def jkt_count_def is_i64_def i64_min_def i64_max_def
      MAX_OUTSTANDING_PER_JKT_def MAX_CHALLENGE_TTL_SECS_def)

section \<open>Removing records\<close>

lemma remove_record_fields [simp]:
  "ct_config (remove_record s t) = ct_config t" "instance_id (remove_record s t) = instance_id t"
  "global_bucket (remove_record s t) = global_bucket t" "jkt_buckets (remove_record s t) = jkt_buckets t"
  "source_buckets (remove_record s t) = source_buckets t" "expiry_queue (remove_record s t) = expiry_queue t"
  by (simp_all add: remove_record_def Let_def split: option.splits)

lemma remove_record_queue [simp]:
  "remove_record s (t\<lparr>expiry_queue := q\<rparr>) = (remove_record s t)\<lparr>expiry_queue := q\<rparr>"
  by (simp add: remove_record_def Let_def split: option.splits)

lemma remove_record_records: "hm_wf (records t) \<Longrightarrow> hm_get (records (remove_record s t)) = (hm_get (records t))(s := None)"
  by (auto simp: remove_record_def Let_def hm.get_del split: option.splits)

lemma records_remove_record: "records (remove_record s t) = records t \<or> records (remove_record s t) = hm_remove s (records t)"
  by (auto simp: remove_record_def Let_def split: option.splits)

lemma counts_ok_remove: "counts_ok t \<Longrightarrow> counts_ok (remove_record s t)"
proof (cases "hm_get (records t) s")
  case (Some r)
  assume c: "counts_ok t"
  then have wf: "hm_wf (records t)" "hm_wf (outstanding_per_jkt t)" by (auto simp: counts_ok_def)
  note cnt = jkt_count_remove [OF wf(1) Some]
  have "hm_get (outstanding_per_jkt t) (rec_jkt r) = Some (jkt_count (rec_jkt r) (records t))"
    using c jkt_count_pos [OF Some] by (simp add: counts_ok_def)
  with c wf Some cnt [of "rec_jkt r"] show ?thesis
    by (auto simp: counts_ok_def remove_record_def Let_def hm.get_del hm.get_put cnt [of "_"] split: if_splits)
qed (simp add: remove_record_def)

lemma capacity_ok_remove:
  assumes "counts_ok t" and "capacity_ok t"
  shows "capacity_ok (remove_record s t)"
proof (cases "hm_get (records t) s")
  case (Some r)
  have wf: "hm_wf (records t)" using assms(1) by (simp add: counts_ok_def)
  have "records (remove_record s t) = hm_remove s (records t)"
    using Some by (simp add: remove_record_def Let_def split: option.splits)
  with jkt_count_remove [OF wf Some] hm.size_del_old [OF wf Some] assms(2) show ?thesis
    by (auto simp: capacity_ok_def) (metis add_leE)
qed (use assms in \<open>simp add: remove_record_def\<close>)

lemma remove_record_inv:
  assumes "table_inv t"
  shows "table_inv (remove_record s t)"
proof -
  have wf: "hm_wf (records t)" using assms by (simp add: table_inv_def counts_ok_def)
  note get = remove_record_records [OF wf]
  have "queue_ok (remove_record s t)" "ids_ok (remove_record s t)"
    using assms get records_remove_record [of s t]
    by (auto simp: table_inv_def queue_ok_def ids_ok_def hm_remove_def split: if_splits)
  then show ?thesis
    using assms counts_ok_remove [of t s] capacity_ok_remove [of t s] by (simp add: table_inv_def)
qed

section \<open>Purging\<close>

text \<open>What a purge at \<open>now\<close> may do to a table: drop expired records and rearrange the queue.\<close>

definition dropped_if_expired :: "int \<Rightarrow> ChallengeRecord option \<Rightarrow> ChallengeRecord option \<Rightarrow> bool" where
  "dropped_if_expired now a b \<longleftrightarrow> b = a \<or> b = None \<and> (\<exists>r. a = Some r \<and> now > rec_expires_at r)"

definition purged :: "int \<Rightarrow> ChallengeTable \<Rightarrow> ChallengeTable \<Rightarrow> bool" where
  "purged now t t' \<longleftrightarrow>
     ct_config t' = ct_config t \<and> instance_id t' = instance_id t \<and> global_bucket t' = global_bucket t \<and>
     jkt_buckets t' = jkt_buckets t \<and> source_buckets t' = source_buckets t \<and>
     (\<forall>s. dropped_if_expired now (hm_get (records t) s) (hm_get (records t') s))"

lemma dropped_if_expired_simps [simp]: "dropped_if_expired now a a"
  by (simp add: dropped_if_expired_def)

lemma dropped_if_expired_trans:
  "dropped_if_expired now a b \<Longrightarrow> dropped_if_expired now b c \<Longrightarrow> dropped_if_expired now a c"
  by (auto simp: dropped_if_expired_def)

lemma purged_refl [simp]: "purged now t t"
  by (simp add: purged_def)

lemma purged_trans: "purged now t u \<Longrightarrow> purged now u v \<Longrightarrow> purged now t v"
  by (auto simp: purged_def intro: dropped_if_expired_trans)

definition purge_one :: "int \<Rightarrow> Suffix \<Rightarrow> int \<Rightarrow> (Suffix \<times> int) list \<Rightarrow> ChallengeTable \<Rightarrow> ChallengeTable" where
  "purge_one now suffix queued rest t =
     (case hm_get (records t) suffix of
        Some r \<Rightarrow>
          if rec_expires_at r = queued \<and> now > rec_expires_at r
          then remove_record suffix (t\<lparr>expiry_queue := rest\<rparr>)
          else if rec_expires_at r = queued
          then t\<lparr>expiry_queue := rest @ [(suffix, queued)]\<rparr>
          else t\<lparr>expiry_queue := rest\<rparr>
      | None \<Rightarrow> t\<lparr>expiry_queue := rest\<rparr>)"

lemma purge_loop_Suc:
  "purge_loop (Suc n) now t =
     (case expiry_queue t of [] \<Rightarrow> t | (s, e) # rest \<Rightarrow> purge_loop n now (purge_one now s e rest t))"
  by (auto simp: purge_one_def Let_def split: list.splits option.splits)

lemma queue_shrink:
  assumes "table_inv t" and "expiry_queue t = (s, e) # rest"
    and "\<And>r. hm_get (records t) s = Some r \<Longrightarrow> rec_expires_at r = e \<Longrightarrow> (s, e) \<in> set q"
    and "set rest \<subseteq> set q"
  shows "table_inv (t\<lparr>expiry_queue := q\<rparr>)"
proof -
  have "queue_ok (t\<lparr>expiry_queue := q\<rparr>)"
    using assms by (auto simp: table_inv_def queue_ok_def)
  with assms(1) show ?thesis by (simp add: table_inv_def counts_ok_def capacity_ok_def ids_ok_def)
qed

lemma purge_one_ok:
  assumes inv: "table_inv t" and q: "expiry_queue t = (s, e) # rest"
  shows "table_inv (purge_one now s e rest t) \<and> purged now t (purge_one now s e rest t)"
proof (cases "hm_get (records t) s")
  case None
  with queue_shrink [OF inv q, of rest] show ?thesis by (simp add: purge_one_def purged_def)
next
  case (Some r)
  have wf: "hm_wf (records t)" using inv by (simp add: table_inv_def counts_ok_def)
  consider "rec_expires_at r = e" "now > e" | "rec_expires_at r = e" "\<not> now > e" | "rec_expires_at r \<noteq> e" by blast
  then show ?thesis
  proof cases
    case 1
    have "queue_ok ((remove_record s t)\<lparr>expiry_queue := rest\<rparr>)"
      using inv q by (auto simp: table_inv_def queue_ok_def remove_record_records [OF wf] split: if_splits)
    with remove_record_inv [OF inv, of s] have "table_inv ((remove_record s t)\<lparr>expiry_queue := rest\<rparr>)"
      by (simp add: table_inv_def counts_ok_def capacity_ok_def ids_ok_def)
    with 1 Some wf show ?thesis by (simp add: purge_one_def purged_def remove_record_records dropped_if_expired_def)
  next
    case 2
    with Some queue_shrink [OF inv q, of "rest @ [(s, e)]"] show ?thesis by (auto simp: purge_one_def purged_def)
  next
    case 3
    with Some queue_shrink [OF inv q, of rest] show ?thesis by (auto simp: purge_one_def purged_def)
  qed
qed

lemma purge_loop_ok: "table_inv t \<Longrightarrow> table_inv (purge_loop n now t) \<and> purged now t (purge_loop n now t)"
proof (induction n arbitrary: t)
  case (Suc n)
  show ?case
  proof (cases "expiry_queue t")
    case (Cons x rest)
    obtain s e where x: "x = (s, e)" by fastforce
    from purge_one_ok [OF Suc.prems Cons [unfolded x], of now] Suc.IH show ?thesis
      unfolding purge_loop_Suc Cons x by (auto intro: purged_trans)
  qed (simp add: Suc.prems)
qed simp

lemma purge_expired_ok:
  "table_inv t \<Longrightarrow> table_inv (purge_expired now t) \<and> purged now t (purge_expired now t)"
  by (simp add: purge_expired_def purge_loop_ok)

lemma purged_get:
  "purged now t t' \<Longrightarrow> dropped_if_expired now (hm_get (records t) s) (hm_get (records t') s)"
  by (simp add: purged_def)

lemma purged_keeps: "purged now t t' \<Longrightarrow> hm_get (records t) s = Some r \<Longrightarrow> now \<le> rec_expires_at r \<Longrightarrow>
    hm_get (records t') s = Some r"
  using purged_get [of now t t' s] by (auto simp: dropped_if_expired_def)

lemma purged_sub: "purged now t t' \<Longrightarrow> hm_get (records t') s = Some r \<Longrightarrow> hm_get (records t) s = Some r"
  using purged_get [of now t t' s] by (auto simp: dropped_if_expired_def)

section \<open>Issuing\<close>

text \<open>The table after a successful issue, from the purged table \<open>t\<close>.\<close>

definition issued_table ::
    "ChallengeTable \<Rightarrow> u8 list \<Rightarrow> TokenBucket \<Rightarrow> ChallengeSourcePartition PartitionDebit \<Rightarrow> Jkt PartitionDebit \<Rightarrow>
     Suffix \<Rightarrow> Jkt \<Rightarrow> nat \<Rightarrow> int \<Rightarrow> ChallengeTable" where
  "issued_table t iid bucket sd jd suffix jkt generation expires =
     t\<lparr>instance_id := Some iid, global_bucket := bucket,
       source_buckets := commit sd (source_buckets t), jkt_buckets := commit jd (jkt_buckets t),
       records := hm_insert suffix
         \<lparr>rec_jkt = jkt, rec_generation = generation, rec_expires_at = expires\<rparr> (records t),
       expiry_queue := expiry_queue t @ [(suffix, expires)],
       outstanding_per_jkt := hm_insert jkt (sat_add_usize (out_count t jkt) 1) (outstanding_per_jkt t)\<rparr>"

lemma issue_refused: "issue env jkt src gn now t0 = (Inl e, t') \<Longrightarrow> t' = purge_expired now t0"
  by (auto simp: issue_def Let_def split: sum.splits)

lemma issue_success:
  assumes "issue env jkt src gn now t0 = (Inr ic, t')" and "t = purge_expired now t0"
  shows "\<exists>iid bucket sd jd suffix. issue_plan env jkt src now t = Inr (iid, bucket, sd, jd, suffix) \<and>
     ic = \<lparr>challenge = iid @ suffix, expires_at_unix = sat_add_i64 now (ttl_secs (ct_config t))\<rparr> \<and>
     t' = issued_table t iid bucket sd jd suffix jkt gn (sat_add_i64 now (ttl_secs (ct_config t)))"
  using assms by (auto simp: issue_def issued_table_def Let_def split: sum.splits)

lemma try_take_ok_or_Inr [simp]: "try_take_ok_or r = Inr b \<longleftrightarrow> r = (True, b)"
  by (cases r) (auto simp: try_take_ok_or_def)

lemma issue_plan_Inr:
  assumes "issue_plan env jkt src now t = Inr (iid, bucket, sd, jd, suffix)" and "cfg = ct_config t"
  shows "(case instance_id t of Some i \<Rightarrow> Some i | None \<Rightarrow> env_id_draw env) = Some iid"
    and "length (records t) < global_capacity cfg" and "out_count t jkt < per_jkt_capacity cfg"
    and "try_take (global_bucket t) (global_rate cfg) now = (True, bucket)"
    and "plan_partition_token (env_iter_source env) (source_buckets t) src (per_source_rate cfg)
       (tracked_partitions cfg) now = Some sd"
    and "plan_partition_token (env_iter_jkt env) (jkt_buckets t) jkt (per_jkt_rate cfg)
       (tracked_partitions cfg) now = Some jd"
    and "unused_suffix (env_suffix_draw env) t = Some suffix"
  using assms by (simp_all add: issue_plan_def Let_def split: if_splits)

lemma unused_suffix_loop_Some:
  "unused_suffix_loop n i draw recs = Some s \<Longrightarrow> hm_get recs s = None \<and> (\<exists>k. draw k = Some s)"
  by (induction n arbitrary: i) (auto split: option.splits if_splits)

lemma hm_get_idle_in: "find_idle order cfg now = Some k \<Longrightarrow> \<exists>b. (k, b) \<in> set order \<and> fst (is_idle b cfg now)"
  by (auto simp: find_idle_def find_Some_iff)
    (metis (mono_tags, lifting) case_prod_conv nth_mem prod.collapse)

lemma hm_get_Some_in: "hm_wf m \<Longrightarrow> hm_get m k = Some v \<longleftrightarrow> (k, v) \<in> set m"
  by (simp add: hm_get_def hm_wf_def)

lemma plan_tracked:
  "hm_get m key = Some b \<Longrightarrow> plan_partition_token iter m key cfg tracked now = Some d \<Longrightarrow>
     \<exists>b'. try_take b cfg now = (True, b') \<and> d = Update key b'"
  by (auto simp: plan_partition_token_def split: prod.splits bool.splits)

lemma plan_untracked:
  assumes "hm_get m key = None" and "plan_partition_token iter m key cfg tracked now = Some d"
    and "evict = (if length m \<ge> tracked then find_idle (iter m) cfg now else None)"
  shows "\<exists>b'. try_take (bucket_new cfg now) cfg now = (True, b') \<and> d = Insert key b' evict \<and>
     (length m \<ge> tracked \<longrightarrow> evict \<noteq> None)"
proof -
  have "\<not> (length m \<ge> tracked \<and> evict = None)"
    using assms by (simp add: plan_partition_token_def Let_def split: if_splits)
  with assms show ?thesis
    by (cases "try_take (bucket_new cfg now) cfg now")
      (auto simp: plan_partition_token_def Let_def split: bool.splits)
qed

lemma buckets_ok_put:
  assumes "buckets_ok cfg n m" and "bucket_ok cfg b" and "hm_get m k = None \<longrightarrow> length m < n"
  shows "buckets_ok cfg n (hm_insert k b m)"
proof -
  have wf: "hm_wf m" using assms(1) by (simp add: buckets_ok_def)
  have "length (hm_insert k b m) \<le> n"
    using assms hm.size_put_new [OF wf] hm.size_put_old [OF wf]
    by (cases "hm_get m k") (auto simp: buckets_ok_def)
  with assms wf show ?thesis by (simp add: buckets_ok_def hm.get_put)
qed

lemma buckets_ok_del:
  assumes "buckets_ok cfg n m" and "hm_get m k = Some b"
  shows "buckets_ok cfg n (hm_remove k m)" and "length (hm_remove k m) < n"
proof -
  have wf: "hm_wf m" using assms(1) by (simp add: buckets_ok_def)
  have "Suc (length (hm_remove k m)) = length m" by (rule hm.size_del_old [OF wf assms(2)])
  moreover have "length m \<le> n" using assms(1) by (simp add: buckets_ok_def)
  ultimately show "length (hm_remove k m) < n" by simp
  with assms wf show "buckets_ok cfg n (hm_remove k m)"
    by (simp add: buckets_ok_def hm.get_del)
qed

lemma plan_ok:
  assumes m: "buckets_ok cfg tracked m" and bst: "burst cfg \<le> u32_max" and now: "is_i64 now"
    and it: "set (iter m) = set m" and p: "plan_partition_token iter m key cfg tracked now = Some d"
  shows "buckets_ok cfg tracked (commit d m)"
proof (cases "hm_get m key")
  case (Some b)
  obtain b' where b': "try_take b cfg now = (True, b')" "d = Update key b'"
    using plan_tracked [OF Some p] by blast
  have "bucket_ok cfg b" using m Some unfolding buckets_ok_def by blast
  then have "bucket_ok cfg b'" using now b'(1) by (rule try_take_ok(1))
  then have "buckets_ok cfg tracked (hm_insert key b' m)"
    by (rule buckets_ok_put [OF m]) (simp add: Some)
  then show ?thesis by (simp only: b'(2) commit.simps)
next
  case None
  define evict where "evict = (if length m \<ge> tracked then find_idle (iter m) cfg now else None)"
  obtain b' where b': "try_take (bucket_new cfg now) cfg now = (True, b')"
    and d: "d = Insert key b' evict" and e: "length m \<ge> tracked \<longrightarrow> evict \<noteq> None"
    using plan_untracked [OF None p evict_def] by blast
  have ok: "bucket_ok cfg b'" using bucket_ok_new [OF bst now] now b' by (rule try_take_ok(1))
  show ?thesis
  proof (cases evict)
    case no: None
    with e have "length m < tracked" by simp
    then have "buckets_ok cfg tracked (hm_insert key b' m)" by (intro buckets_ok_put [OF m ok]) simp
    then show ?thesis by (simp only: d no commit.simps option.case)
  next
    case (Some k)
    then have "find_idle (iter m) cfg now = Some k" unfolding evict_def by (simp split: if_splits)
    from hm_get_idle_in [OF this] obtain b where "(k, b) \<in> set m" unfolding it by blast
    then have k: "hm_get m k = Some b" using m unfolding buckets_ok_def by (simp add: hm_get_Some_in)
    have "buckets_ok cfg tracked (hm_insert key b' (hm_remove k m))"
      using buckets_ok_del [OF m k] ok by (intro buckets_ok_put) auto
    then show ?thesis by (simp only: d Some commit.simps option.case)
  qed
qed

lemma out_count_eq: "counts_ok t \<Longrightarrow> out_count t j = jkt_count j (records t)"
  by (simp add: counts_ok_def out_count_def)

lemma issued_table_counts:
  assumes "counts_ok t" and "hm_get (records t) suffix = None" and "jkt_count jkt (records t) < usize_max"
  shows "counts_ok (issued_table t iid bucket sd jd suffix jkt gn ex)"
proof -
  have wf: "hm_wf (records t)" "hm_wf (outstanding_per_jkt t)" using assms(1) by (auto simp: counts_ok_def)
  have "sat_add_usize (out_count t jkt) 1 = Suc (jkt_count jkt (records t))"
    using assms(1,3) by (simp add: out_count_eq sat_add_usize_def)
  with assms wf show ?thesis
    by (simp add: counts_ok_def issued_table_def hm.get_put jkt_count_insert_new)
qed

lemma issued_table_capacity:
  assumes "counts_ok t" and "capacity_ok t" and "hm_get (records t) suffix = None"
    and "length (records t) < global_capacity (ct_config t)" and "jkt_count jkt (records t) < per_jkt_capacity (ct_config t)"
  shows "capacity_ok (issued_table t iid bucket sd jd suffix jkt gn ex)"
  using assms
  by (auto simp: capacity_ok_def issued_table_def jkt_count_insert_new hm.size_put_new counts_ok_def)

lemma issue_inv:
  assumes inv: "table_inv t0" and env: "env_ok env" and now: "is_i64 now"
    and iss: "issue env jkt src gn now t0 = (res, t')"
  shows "table_inv t'"
proof (cases res)
  case (Inl e)
  then show ?thesis using issue_refused iss purge_expired_ok [OF inv] by blast
next
  case (Inr ic)
  define t where "t = purge_expired now t0"
  have t: "table_inv t" using purge_expired_ok [OF inv] by (simp add: t_def)
  obtain iid bucket sd jd suffix where plan: "issue_plan env jkt src now t = Inr (iid, bucket, sd, jd, suffix)"
    and t': "t' = issued_table t iid bucket sd jd suffix jkt gn (sat_add_i64 now (ttl_secs (ct_config t)))"
    using issue_success [OF iss [unfolded Inr] t_def] by blast
  note P = issue_plan_Inr [OF plan refl]
  have parts: "config_ok (ct_config t)" "rates_ok (ct_config t)" "counts_ok t" "capacity_ok t" "queue_ok t" "ids_ok t"
    "bucket_ok (global_rate (ct_config t)) (global_bucket t)"
    "buckets_ok (per_jkt_rate (ct_config t)) (tracked_partitions (ct_config t)) (jkt_buckets t)"
    "buckets_ok (per_source_rate (ct_config t)) (tracked_partitions (ct_config t)) (source_buckets t)"
    using t by (simp_all add: table_inv_def)
  have suffix: "hm_get (records t) suffix = None" "length suffix = CHALLENGE_SUFFIX_LEN"
    using unused_suffix_loop_Some [OF P(7) [unfolded unused_suffix_def]] env by (auto simp: env_ok_def)
  have iid: "length iid = INSTANCE_ID_LEN"
    using P(1) parts(6) env by (auto simp: ids_ok_def env_ok_def split: option.splits)
  have cnt: "jkt_count jkt (records t) < per_jkt_capacity (ct_config t)"
    using P(3) parts(3) by (simp add: out_count_eq)
  then have "jkt_count jkt (records t) < usize_max"
    using parts(1) by (auto simp: config_ok_def MAX_OUTSTANDING_PER_JKT_def usize_max_def)
  then have "counts_ok t'" unfolding t' by (rule issued_table_counts [OF parts(3) suffix(1)])
  moreover have "capacity_ok t'" unfolding t'
    by (rule issued_table_capacity [OF parts(3,4) suffix(1) P(2) cnt])
  moreover have "queue_ok t'" "ids_ok t'"
    using parts(3,5,6) suffix iid
    by (auto simp: t' issued_table_def queue_ok_def ids_ok_def hm.get_put counts_ok_def split: if_splits)
  moreover have "bucket_ok (global_rate (ct_config t)) bucket"
    using parts(7) now P(4) by (rule try_take_ok(1))
  moreover have "buckets_ok (per_jkt_rate (ct_config t)) (tracked_partitions (ct_config t)) (commit jd (jkt_buckets t))"
    by (rule plan_ok [OF parts(8) _ now _ P(6)]) (use parts(2) env in \<open>simp_all add: rates_ok_def env_ok_def\<close>)
  moreover have "buckets_ok (per_source_rate (ct_config t)) (tracked_partitions (ct_config t)) (commit sd (source_buckets t))"
    by (rule plan_ok [OF parts(9) _ now _ P(5)]) (use parts(2) env in \<open>simp_all add: rates_ok_def env_ok_def\<close>)
  ultimately show ?thesis using parts(1,2) by (simp add: table_inv_def t' issued_table_def)
qed

section \<open>Consuming\<close>

lemma consume_table:
  "consume c j g now t = (res, t') \<Longrightarrow> t' = t \<or> t' = remove_record (drop INSTANCE_ID_LEN c) t"
  by (auto simp: consume_def Let_def split: if_splits option.splits)

lemma consume_inv: "table_inv t \<Longrightarrow> consume c j g now t = (res, t') \<Longrightarrow> table_inv t'"
  using consume_table remove_record_inv by blast

lemma consume_ok_iff:
  "fst (consume c j g now t) = Inr () \<longleftrightarrow>
     (\<exists>iid s r. c = iid @ s \<and> length iid = INSTANCE_ID_LEN \<and> length s = CHALLENGE_SUFFIX_LEN \<and>
        instance_id t = Some iid \<and> hm_get (records t) s = Some r \<and>
        now \<le> rec_expires_at r \<and> rec_jkt r = j \<and> rec_generation r = g)" (is "?l = ?r")
proof
  assume ?l
  then obtain r where "length c \<ge> INSTANCE_ID_LEN" "length (drop INSTANCE_ID_LEN c) = CHALLENGE_SUFFIX_LEN"
    "instance_id t = Some (take INSTANCE_ID_LEN c)" "hm_get (records t) (drop INSTANCE_ID_LEN c) = Some r"
    "now \<le> rec_expires_at r" "rec_jkt r = j" "rec_generation r = g"
    by (auto simp: consume_def Let_def split: if_splits option.splits)
  then show ?r
    by (intro exI [of _ "take INSTANCE_ID_LEN c"] exI [of _ "drop INSTANCE_ID_LEN c"] exI [of _ r]) simp
next
  assume ?r
  then show ?l by (auto simp: consume_def Let_def)
qed

lemma consume_ok_table: "fst (consume c j g now t) = Inr () \<Longrightarrow> snd (consume c j g now t) = remove_record (drop INSTANCE_ID_LEN c) t"
  by (auto simp: consume_def Let_def split: if_splits option.splits)

section \<open>Interleavings of issue and consume\<close>

text \<open>
  The callers serialise on one mutex, so an interleaving is a sequence of operations, each
  with its own arguments and outside world.
\<close>

datatype ChallengeEvent =
    EvIssue Jkt ChallengeSourcePartition nat int "IssueDecline + IssuedChallenge"
  | EvConsume "u8 list" Jkt nat int "ConsumeDenied + unit"

inductive challenge_step :: "ChallengeTable \<Rightarrow> ChallengeEvent \<Rightarrow> ChallengeTable \<Rightarrow> bool" where
  step_issue: "env_ok env \<Longrightarrow> is_i64 now \<Longrightarrow> issue env j src g now t = (res, t') \<Longrightarrow>
     challenge_step t (EvIssue j src g now res) t'"
| step_consume: "is_i64 now \<Longrightarrow> consume c j g now t = (res, t') \<Longrightarrow>
     challenge_step t (EvConsume c j g now res) t'"

inductive_simps challenge_step_issue: "challenge_step t (EvIssue j src g now res) t'"
inductive_simps challenge_step_consume: "challenge_step t (EvConsume c j g now res) t'"

definition live_challenges :: "ChallengeTable \<Rightarrow> u8 list set" where
  "live_challenges t = {i @ s |i s. instance_id t = Some i \<and> hm_get (records t) s \<noteq> None}"

fun issued_challenge :: "ChallengeEvent \<Rightarrow> u8 list option" where
  "issued_challenge (EvIssue _ _ _ _ (Inr ic)) = Some (challenge ic)"
| "issued_challenge _ = None"

fun consumed_challenge :: "ChallengeEvent \<Rightarrow> u8 list option" where
  "consumed_challenge (EvConsume c _ _ _ (Inr _)) = Some c"
| "consumed_challenge _ = None"

lemma challenge_step_inv: "table_inv t \<Longrightarrow> challenge_step t e t' \<Longrightarrow> table_inv t'"
  by (erule challenge_step.cases) (auto intro: issue_inv consume_inv)

lemma issue_success_records:
  assumes "table_inv t0" and "env_ok env" and "issue env j src g now t0 = (Inr ic, t')"
  shows "\<exists>i s. challenge ic = i @ s \<and> instance_id t' = Some i \<and> length i = INSTANCE_ID_LEN \<and>
       length s = CHALLENGE_SUFFIX_LEN \<and> (instance_id t0 = None \<or> instance_id t0 = Some i) \<and>
       hm_get (records (purge_expired now t0)) s = None \<and>
       hm_get (records t') = (hm_get (records (purge_expired now t0)))
         (s \<mapsto> \<lparr>rec_jkt = j, rec_generation = g, rec_expires_at = expires_at_unix ic\<rparr>) \<and>
       expires_at_unix ic = sat_add_i64 now (ttl_secs (ct_config t0))"
proof -
  define t where "t = purge_expired now t0"
  have t: "table_inv t" "purged now t0 t" using purge_expired_ok [OF assms(1)] by (simp_all add: t_def)
  obtain iid bucket sd jd suffix where plan: "issue_plan env j src now t = Inr (iid, bucket, sd, jd, suffix)"
    and ic: "ic = \<lparr>challenge = iid @ suffix, expires_at_unix = sat_add_i64 now (ttl_secs (ct_config t))\<rparr>"
    and t': "t' = issued_table t iid bucket sd jd suffix j g (sat_add_i64 now (ttl_secs (ct_config t)))"
    using issue_success [OF assms(3) t_def] by blast
  note P = issue_plan_Inr [OF plan refl]
  have eq: "instance_id t = instance_id t0" "ct_config t = ct_config t0" using t(2) by (simp_all add: purged_def)
  have suffix: "hm_get (records t) suffix = None" "length suffix = CHALLENGE_SUFFIX_LEN"
    using unused_suffix_loop_Some [OF P(7) [unfolded unused_suffix_def]] assms(2) by (auto simp: env_ok_def)
  have iid: "length iid = INSTANCE_ID_LEN" "instance_id t0 = None \<or> instance_id t0 = Some iid"
    using P(1) t(1) assms(2) eq by (auto simp: table_inv_def ids_ok_def env_ok_def split: option.splits)
  have wf: "hm_wf (records t)" using t(1) by (simp add: table_inv_def counts_ok_def)
  show ?thesis
    by (intro exI [of _ iid] exI [of _ suffix])
      (simp add: ic t' issued_table_def iid suffix eq t_def [symmetric] hm.get_put [OF wf])
qed

lemma live_purged:
  "purged now t t' \<Longrightarrow> live_challenges t' \<subseteq> live_challenges t"
  using purged_sub [of now t t'] by (fastforce simp: live_challenges_def purged_def)

lemma live_remove:
  assumes "table_inv t"
  shows "live_challenges (remove_record s t) \<subseteq> live_challenges t"
    and "instance_id t = Some i \<Longrightarrow> length i = length i' \<Longrightarrow> i' @ s \<notin> live_challenges (remove_record s t)"
  using assms by (auto simp: live_challenges_def remove_record_records table_inv_def counts_ok_def split: if_splits)

lemma challenge_step_live:
  assumes inv: "table_inv t" and st: "challenge_step t e t'"
  shows "live_challenges t' \<subseteq> live_challenges t \<union> set_option (issued_challenge e)"
  using st
proof (cases rule: challenge_step.cases)
  case (step_issue env now j src g res)
  show ?thesis
  proof (cases res)
    case (Inl d)
    with step_issue issue_refused [of env j src g now t d t'] show ?thesis
      using live_purged purge_expired_ok [OF inv] by auto
  next
    case (Inr ic)
    from issue_success_records [OF inv step_issue(2)] step_issue(4) Inr obtain i s r where
      c: "challenge ic = i @ s" "instance_id t' = Some i" "instance_id t = None \<or> instance_id t = Some i"
      and r: "hm_get (records t') = (hm_get (records (purge_expired now t)))(s \<mapsto> r)" by metis
    have p: "purged now t (purge_expired now t)" "table_inv (purge_expired now t)"
      using purge_expired_ok [OF inv] by auto
    have "instance_id t = None \<Longrightarrow> hm_get (records (purge_expired now t)) = (\<lambda>_. None)"
      using p by (auto simp: purged_def table_inv_def ids_ok_def)
    with c r purged_sub [OF p(1)] have "live_challenges t' \<subseteq> insert (i @ s) (live_challenges t)"
      by (fastforce simp: live_challenges_def split: if_splits)
    with step_issue(1) Inr c(1) show ?thesis by simp
  qed
next
  case (step_consume now c j g res)
  then have "t' = t \<or> t' = remove_record (drop INSTANCE_ID_LEN c) t" using consume_table by blast
  with live_remove(1) [OF inv] show ?thesis by auto
qed

lemma challenge_step_consumed:
  assumes inv: "table_inv t" and st: "challenge_step t e t'" and c: "consumed_challenge e = Some c"
  shows "c \<in> live_challenges t \<and> c \<notin> live_challenges t'"
proof -
  obtain j g now where e: "e = EvConsume c j g now (Inr ())"
    using c by (cases e rule: consumed_challenge.cases) auto
  have cons: "consume c j g now t = (Inr (), t')" using st by (simp add: e challenge_step_consume)
  obtain iid s r where s: "c = iid @ s" "length iid = INSTANCE_ID_LEN" "instance_id t = Some iid"
    "hm_get (records t) s = Some r"
    using consume_ok_iff [of c j g now t] cons by auto
  have "t' = remove_record s t" using consume_ok_table [of c j g now t] cons s by simp
  with s live_remove(2) [OF inv, of iid iid s] show ?thesis by (auto simp: live_challenges_def)
qed

interpretation challenges: single_use challenge_step table_inv live_challenges issued_challenge consumed_challenge
  by unfold_locales (fact challenge_step_inv challenge_step_live challenge_step_consumed)+

section \<open>A challenge stays usable\<close>

definition holds_ticket :: "ChallengeTable \<Rightarrow> u8 list \<Rightarrow> ChallengeRecord \<Rightarrow> bool" where
  "holds_ticket t c r \<longleftrightarrow> (\<exists>i s. c = i @ s \<and> length i = INSTANCE_ID_LEN \<and> length s = CHALLENGE_SUFFIX_LEN \<and>
     instance_id t = Some i \<and> hm_get (records t) s = Some r)"

text \<open>
  The events that cannot cost the holder of \<open>r\<close> the challenge \<open>c\<close>: any issue attempt up to the
  expiry, any consumption of another challenge, and any attempt on \<open>c\<close> itself with another
  proof key up to the expiry.
\<close>

fun harmless :: "u8 list \<Rightarrow> ChallengeRecord \<Rightarrow> ChallengeEvent \<Rightarrow> bool" where
  "harmless c r (EvIssue _ _ _ now _) \<longleftrightarrow> now \<le> rec_expires_at r"
| "harmless c r (EvConsume c' j _ now _) \<longleftrightarrow> c' \<noteq> c \<or> (now \<le> rec_expires_at r \<and> j \<noteq> rec_jkt r)"

lemma consume_table_own:
  "consume c j g now t = (res, t') \<Longrightarrow>
     t' = t \<or> instance_id t = Some (take INSTANCE_ID_LEN c) \<and> t' = remove_record (drop INSTANCE_ID_LEN c) t"
  by (auto simp: consume_def Let_def split: if_splits option.splits)

lemma ticket_consume:
  assumes "table_inv t" and "holds_ticket t c r" and "consume c' j g now t = (res, t')"
    and "c' \<noteq> c \<or> (now \<le> rec_expires_at r \<and> j \<noteq> rec_jkt r)"
  shows "holds_ticket t' c r"
proof -
  obtain i s where c: "c = i @ s" "length i = INSTANCE_ID_LEN" "length s = CHALLENGE_SUFFIX_LEN"
    "instance_id t = Some i" "hm_get (records t) s = Some r" using assms(2) by (auto simp: holds_ticket_def)
  have wf: "hm_wf (records t)" using assms(1) by (simp add: table_inv_def counts_ok_def)
  show ?thesis
  proof (cases "c' = c")
    case True
    with assms(3,4) c have "t' = t" by (auto simp: consume_def)
    with assms(2) show ?thesis by simp
  next
    case False
    then have "instance_id t = Some (take INSTANCE_ID_LEN c') \<Longrightarrow> drop INSTANCE_ID_LEN c' \<noteq> s"
      using c by (metis append_take_drop_id option.inject)
    with consume_table_own [OF assms(3)] c wf show ?thesis
      by (auto simp: holds_ticket_def remove_record_records)
  qed
qed

lemma ticket_issue:
  assumes "table_inv t" and "env_ok env" and "holds_ticket t c r" and "issue env j src g now t = (res, t')"
    and "now \<le> rec_expires_at r"
  shows "holds_ticket t' c r"
proof -
  have p: "purged now t (purge_expired now t)" using purge_expired_ok [OF assms(1)] by simp
  obtain i s where c: "c = i @ s" "length i = INSTANCE_ID_LEN" "length s = CHALLENGE_SUFFIX_LEN"
    "instance_id t = Some i" "hm_get (records t) s = Some r" using assms(3) by (auto simp: holds_ticket_def)
  have keep: "hm_get (records (purge_expired now t)) s = Some r" using purged_keeps [OF p c(5) assms(5)] .
  show ?thesis
  proof (cases res)
    case (Inl e)
    with issue_refused assms(4) have "t' = purge_expired now t" by blast
    with c keep p show ?thesis by (auto simp: holds_ticket_def purged_def)
  next
    case (Inr ic)
    from issue_success_records [OF assms(1,2) assms(4) [unfolded Inr]] obtain i' s' r' where
      "instance_id t' = Some i'" "instance_id t = None \<or> instance_id t = Some i'"
      "hm_get (records (purge_expired now t)) s' = None"
      "hm_get (records t') = (hm_get (records (purge_expired now t)))(s' \<mapsto> r')" by blast
    with c keep show ?thesis by (auto simp: holds_ticket_def)
  qed
qed

lemma ticket_steps:
  assumes "steps challenge_step t es t'" and "table_inv t" and "holds_ticket t c r"
    and "\<forall>e \<in> set es. harmless c r e"
  shows "holds_ticket t' c r"
  using assms
proof (induction rule: steps.induct)
  case (steps_cons t e u es t')
  have "holds_ticket u c r"
    using steps_cons.hyps(1)
  proof (cases rule: challenge_step.cases)
    case (step_issue env now j src g res)
    with ticket_issue [OF steps_cons.prems(1) step_issue(2) steps_cons.prems(2) step_issue(4)] steps_cons.prems(3)
    show ?thesis by simp
  next
    case (step_consume now c' j g res)
    with ticket_consume [OF steps_cons.prems(1,2) step_consume(3)] steps_cons.prems(3) show ?thesis by simp
  qed
  with steps_cons challenge_step_inv show ?case by auto
qed simp

lemma ticket_consumable:
  "holds_ticket t c r \<Longrightarrow> now \<le> rec_expires_at r \<Longrightarrow>
     fst (consume c (rec_jkt r) (rec_generation r) now t) = Inr ()"
  unfolding consume_ok_iff holds_ticket_def by blast

section \<open>The global rate\<close>

fun issue_time :: "ChallengeEvent \<Rightarrow> int list" where
  "issue_time (EvIssue _ _ _ now (Inr _)) = [now]"
| "issue_time _ = []"

definition issue_times :: "ChallengeEvent list \<Rightarrow> int list" where
  "issue_times es = concat (map issue_time es)"

lemma step_global_bucket:
  assumes "table_inv t" and "challenge_step t e t'"
  shows "ct_config t' = ct_config t"
    and "issue_time e = [] \<Longrightarrow> global_bucket t' = global_bucket t"
    and "issue_time e = [now] \<Longrightarrow> is_i64 now \<and>
      try_take (global_bucket t) (global_rate (ct_config t)) now = (True, global_bucket t')"
proof -
  have p: "purged u t (purge_expired u t)" for u using purge_expired_ok [OF assms(1)] by simp
  have "ct_config t' = ct_config t \<and> (issue_time e = [] \<longrightarrow> global_bucket t' = global_bucket t) \<and>
     (issue_time e = [now] \<longrightarrow> is_i64 now \<and>
        try_take (global_bucket t) (global_rate (ct_config t)) now = (True, global_bucket t'))"
    using assms(2)
  proof (cases rule: challenge_step.cases)
    case (step_issue env u j src g res)
    show ?thesis
    proof (cases res)
      case (Inl d)
      with issue_refused step_issue have "t' = purge_expired u t" by blast
      with p [of u] step_issue(1) Inl show ?thesis by (simp add: purged_def)
    next
      case (Inr ic)
      obtain iid bucket sd jd suffix where
        plan: "issue_plan env j src u (purge_expired u t) = Inr (iid, bucket, sd, jd, suffix)"
        and t': "t' = issued_table (purge_expired u t) iid bucket sd jd suffix j g
          (sat_add_i64 u (ttl_secs (ct_config (purge_expired u t))))"
        using issue_success [OF step_issue(4) [unfolded Inr] refl] by blast
      from issue_plan_Inr(4) [OF plan refl] p [of u] t' step_issue Inr show ?thesis
        by (auto simp: purged_def issued_table_def)
    qed
  next
    case (step_consume u c j g res)
    then show ?thesis using consume_table [of c j g u t res t'] by auto
  qed
  then show "ct_config t' = ct_config t"
    and "issue_time e = [] \<Longrightarrow> global_bucket t' = global_bucket t"
    and "issue_time e = [now] \<Longrightarrow> is_i64 now \<and>
      try_take (global_bucket t) (global_rate (ct_config t)) now = (True, global_bucket t')" by blast+
qed

lemma issue_time_cases: "issue_time e = [] \<or> (\<exists>now. issue_time e = [now])"
  by (cases e rule: issue_time.cases) auto

lemma takes_issue_times:
  assumes "steps challenge_step t es t'" and "table_inv t"
  shows "fst (takes (global_rate (ct_config t)) (global_bucket t) (issue_times es)) = length (issue_times es) \<and>
    (\<forall>u \<in> set (issue_times es). is_i64 u)"
  using assms
proof (induction rule: steps.induct)
  case (steps_cons t e u es t')
  note B = step_global_bucket [OF steps_cons.prems steps_cons.hyps(1)]
  have IH: "fst (takes (global_rate (ct_config t)) (global_bucket u) (issue_times es)) = length (issue_times es) \<and>
      (\<forall>u \<in> set (issue_times es). is_i64 u)"
    using steps_cons.IH challenge_step_inv [OF steps_cons.prems steps_cons.hyps(1)] B(1) by simp
  consider "issue_time e = []" | now where "issue_time e = [now]" using issue_time_cases by blast
  then show ?case
  proof cases
    case 1
    with B(2) IH show ?thesis by (simp add: issue_times_def)
  next
    case 2
    with B(3) [OF 2] IH show ?thesis by (auto simp: issue_times_def split: prod.splits)
  qed
qed (simp add: issue_times_def)

section \<open>The partition preimage\<close>

lemma length_prefixed_inj:
  assumes "length a < 2 ^ 64" and "length b < 2 ^ 64"
  shows "length_prefixed a @ x = length_prefixed b @ y \<longleftrightarrow> a = b \<and> x = y"
proof -
  have "min (length v) (2 ^ 64 - 1) = length v" if "length v < 2 ^ 64" for v :: "u8 list"
    using that by simp
  with assms have "length_prefixed a = be_bytes 8 (length a) @ a" "length_prefixed b = be_bytes 8 (length b) @ b"
    by (simp_all add: length_prefixed_def del: min.absorb1)
  moreover have "be_bytes 8 (length a) = be_bytes 8 (length b) \<longleftrightarrow> length a = length b"
    using assms by (intro be_bytes_inj) simp_all
  ultimately show ?thesis by auto
qed

lemma u32_bytes_inj: "be_bytes 4 (unat u) = be_bytes 4 (unat (v :: u32)) \<longleftrightarrow> u = v"
proof -
  have "unat w < 256 ^ 4" for w :: u32 using unsigned_less [of w] by simp
  then show ?thesis by (simp add: be_bytes_inj unsigned_word_eqI word_unat_eq_iff)
qed

lemma partition_preimage_inj:
  assumes "length n < 2 ^ 64" and "length n' < 2 ^ 64"
    and "\<forall>x. src = Some x \<longrightarrow> length x < 2 ^ 64" and "\<forall>x. src' = Some x \<longrightarrow> length x < 2 ^ 64"
  shows "partition_preimage k n u src = partition_preimage k' n' u' src' \<longleftrightarrow> k = k' \<and> n = n' \<and> u = u' \<and> src = src'"
proof -
  let ?tail = "\<lambda>src. (case src of Some s \<Rightarrow> [1] @ length_prefixed (bytes_of s) | None \<Rightarrow> [0]) :: u8 list"
  have tail: "?tail src = ?tail src' \<longleftrightarrow> src = src'"
    using assms(3,4) length_prefixed_inj [of "bytes_of _" "bytes_of _" "[]" "[]"] by (auto split: option.splits)
  have app: "be_bytes 4 x @ a = be_bytes 4 y @ b \<longleftrightarrow> be_bytes 4 x = be_bytes 4 y \<and> a = b" for x y a b
    by simp
  have "partition_preimage k n u src = partition_preimage k' n' u' src' \<longleftrightarrow>
      k = k' \<and> length_prefixed (bytes_of n) @ (be_bytes 4 (unat u) @ ?tail src) =
        length_prefixed (bytes_of n') @ (be_bytes 4 (unat u') @ ?tail src')"
    by (simp add: partition_preimage_def)
  also have "\<dots> \<longleftrightarrow> k = k' \<and> n = n' \<and> be_bytes 4 (unat u) @ ?tail src = be_bytes 4 (unat u') @ ?tail src'"
    using assms(1,2) by (simp only: length_prefixed_inj length_bytes_of bytes_of_inj)
  also have "\<dots> \<longleftrightarrow> k = k' \<and> n = n' \<and> u = u' \<and> src = src'"
    by (simp only: app u32_bytes_inj tail)
  finally show ?thesis .
qed

section \<open>A concrete world used by the witnesses\<close>

definition demo_env :: IssueEnv where
  "demo_env = \<lparr>env_id_draw = Some (replicate 16 1), env_suffix_draw = (\<lambda>n. Some (replicate 16 2)),
     env_reserve = (\<lambda>_. True), env_iter_source = (\<lambda>m. m), env_iter_jkt = (\<lambda>m. m)\<rparr>"

definition demo_table :: ChallengeTable where
  "demo_table = with_config None ChallengeTableConfig_default"

definition demo_chal :: "u8 list" where
  "demo_chal = replicate 16 1 @ replicate 16 2"

lemma demo_env_ok: "env_ok demo_env"
  by (simp add: env_ok_def demo_env_def INSTANCE_ID_LEN_def CHALLENGE_SUFFIX_LEN_def CHALLENGE_LEN_def)

lemma demo_table_inv: "table_inv demo_table"
  by (simp add: demo_table_def with_config_inv rates_ok_def ChallengeTableConfig_default_def u32_max_def)

lemma i64_small [simp]: "is_i64 1000" "is_i64 1060"
  by (simp_all add: is_i64_def i64_min_def i64_max_def)

lemma unused_suffix_first: "draw 0 = Some s \<Longrightarrow> hm_get recs s = None \<Longrightarrow> unused_suffix_loop 4 0 draw recs = Some s"
  by (simp add: eval_nat_numeral)

lemma demo_issue:
  "fst (issue demo_env [7] [9] 3 1000 demo_table) = Inr \<lparr>challenge = demo_chal, expires_at_unix = 1060\<rparr>"
  by (simp add: issue_def issue_plan_def demo_table_def demo_env_def with_config_def purge_expired_def
      ChallengeTableConfig_default_def out_count_def try_take_def refill_def bucket_new_def
      plan_partition_token_def unused_suffix_def unused_suffix_first reserve_issue_maps_def reserve_def demo_chal_def
      sat_add_i64_def sat_sub_i64_def clamp_i64_def i64_min_def i64_max_def Let_def sat_mul_u32_def sat_add_u32_def
      u32_max_def MAX_OUTSTANDING_PER_JKT_def MAX_CHALLENGE_TTL_SECS_def DEFAULT_GLOBAL_CAPACITY_def
      try_take_ok_or_def ok_or_def)

definition demo_table1 :: ChallengeTable where
  "demo_table1 = snd (issue demo_env [7] [9] 3 1000 demo_table)"

lemma demo_step:
  "challenge_step demo_table (EvIssue [7] [9] 3 1000 (Inr \<lparr>challenge = demo_chal, expires_at_unix = 1060\<rparr>)) demo_table1"
  unfolding challenge_step_issue demo_table1_def
  using demo_env_ok demo_issue by (metis i64_small(1) prod.collapse)

section \<open>Properties\<close>

text \<open>
  C2: a challenge is consumed at most as often as it was issued. Over every interleaving of
  issue and consume operations, with arbitrary arguments, clock readings and outside
  world, starting from a table without records, no challenge is accepted more often than
  it was handed out; a replayed challenge is never accepted twice.
\<close>

theorem challenge_exactly_once:
  assumes "table_inv t" and "records t = []" and "steps challenge_step t es t'"
  shows "length (filter (\<lambda>e. consumed_challenge e = Some c) es)
     \<le> length (filter (\<lambda>e. issued_challenge e = Some c) es)"
proof -
  have "c \<notin> live_challenges t" using assms(2) by (simp add: live_challenges_def)
  with challenges.exactly_once [OF assms(3,1), of c] show ?thesis by (simp split: if_splits)
qed

lemma demo_run:
  "steps challenge_step demo_table
     [EvIssue [7] [9] 3 1000 (Inr \<lparr>challenge = demo_chal, expires_at_unix = 1060\<rparr>),
      EvConsume demo_chal [7] 3 1060 (fst (consume demo_chal [7] 3 1060 demo_table1))]
     (snd (consume demo_chal [7] 3 1060 demo_table1))"
proof (rule steps_cons)
  show "challenge_step demo_table
     (EvIssue [7] [9] 3 1000 (Inr \<lparr>challenge = demo_chal, expires_at_unix = 1060\<rparr>)) demo_table1" by (rule demo_step)
  show "steps challenge_step demo_table1
     [EvConsume demo_chal [7] 3 1060 (fst (consume demo_chal [7] 3 1060 demo_table1))]
     (snd (consume demo_chal [7] 3 1060 demo_table1))"
    by (rule steps_cons [OF _ steps_nil]) (simp add: challenge_step_consume)
qed

lemma challenge_exactly_once_witness:
  "length (filter (\<lambda>e. consumed_challenge e = Some demo_chal)
      [EvIssue [7] [9] 3 1000 (Inr \<lparr>challenge = demo_chal, expires_at_unix = 1060\<rparr>),
       EvConsume demo_chal [7] 3 1060 (fst (consume demo_chal [7] 3 1060 demo_table1))]) \<le> 1"
proof -
  have "records demo_table = []" by (simp add: demo_table_def with_config_def Let_def)
  from challenge_exactly_once [OF demo_table_inv this demo_run, of demo_chal] show ?thesis by simp
qed

text \<open>
  C25: an issued challenge works for its holder. After a successful issue to proof key \<open>j\<close> and
  generation \<open>g\<close>, whatever harmless operations follow (further issues and refusals up to the
  expiry, consumption of other challenges, attempts on this challenge with other proof
  keys), consuming it with \<open>j\<close> and \<open>g\<close> no later than its expiry succeeds. Capacity and rate
  pressure therefore never deny a valid invocation.
\<close>

theorem issued_challenge_usable:
  assumes "table_inv t0" and "challenge_step t0 (EvIssue j src g now (Inr ic)) t1"
    and "steps challenge_step t1 es t2"
    and "\<forall>e \<in> set es. harmless (challenge ic)
       \<lparr>rec_jkt = j, rec_generation = g, rec_expires_at = expires_at_unix ic\<rparr> e"
    and "later \<le> expires_at_unix ic"
  shows "fst (consume (challenge ic) j g later t2) = Inr ()"
proof -
  let ?r = "\<lparr>rec_jkt = j, rec_generation = g, rec_expires_at = expires_at_unix ic\<rparr>"
  have inv1: "table_inv t1" using challenge_step_inv assms(1,2) by blast
  obtain env where env: "env_ok env" "issue env j src g now t0 = (Inr ic, t1)"
    using assms(2) by (auto simp: challenge_step_issue)
  have "holds_ticket t1 (challenge ic) ?r"
    using issue_success_records [OF assms(1) env] unfolding holds_ticket_def by auto
  with ticket_steps [OF assms(3) inv1 _ assms(4)] have "holds_ticket t2 (challenge ic) ?r" by blast
  from ticket_consumable [OF this, of later] assms(5) show ?thesis by simp
qed

lemma issued_challenge_usable_witness:
  "fst (consume demo_chal [7] 3 1060 demo_table1) = Inr ()"
  using issued_challenge_usable [OF demo_table_inv demo_step steps_nil, of 1060] by simp

text \<open>
  Consumption is exact. It succeeds exactly when the bytes are this agent's instance id
  followed by the suffix of a live record that is unexpired and bound to the presented
  proof key and generation.
\<close>

theorem consume_exact:
  "fst (consume c j g now t) = Inr () \<longleftrightarrow>
     (\<exists>iid s r. c = iid @ s \<and> length iid = INSTANCE_ID_LEN \<and> length s = CHALLENGE_SUFFIX_LEN \<and>
        instance_id t = Some iid \<and> hm_get (records t) s = Some r \<and>
        now \<le> rec_expires_at r \<and> rec_jkt r = j \<and> rec_generation r = g)"
  by (rule consume_ok_iff)

text \<open>
  C26: the table keeps its bounds and its books. After any run from a fresh table the number of
  outstanding records stays within the configured capacity, every per-key counter is the
  exact number of that key's records and at most eight, tracked rate-limit partitions stay
  within their limit, and every record is still scheduled in the expiry queue.
\<close>

theorem challenge_table_bounds:
  assumes "rates_ok cfg" and "\<forall>i. id_draw = Some i \<longrightarrow> length i = INSTANCE_ID_LEN"
    and "steps challenge_step (with_config id_draw cfg) es t"
  shows "outstanding t \<le> global_capacity (ct_config t) \<and>
     (\<forall>j. out_count t j = jkt_count j (records t) \<and> out_count t j \<le> MAX_OUTSTANDING_PER_JKT) \<and>
     length (jkt_buckets t) \<le> tracked_partitions (ct_config t) \<and>
     length (source_buckets t) \<le> tracked_partitions (ct_config t) \<and>
     (\<forall>s r. hm_get (records t) s = Some r \<longrightarrow> (s, rec_expires_at r) \<in> set (expiry_queue t))"
proof -
  have inv: "table_inv t"
    by (rule steps_invariant [where holds = table_inv, OF assms(3) with_config_inv [OF assms(1,2)] challenge_step_inv])
  then have "out_count t j = jkt_count j (records t)" for j
    by (simp add: out_count_eq table_inv_def)
  moreover have "jkt_count j (records t) \<le> MAX_OUTSTANDING_PER_JKT" for j
    using inv by (auto simp: table_inv_def capacity_ok_def config_ok_def intro: order_trans)
  ultimately show ?thesis
    using inv by (simp add: table_inv_def outstanding_def capacity_ok_def buckets_ok_def queue_ok_def)
qed

lemma challenge_table_bounds_witness:
  "outstanding (snd (consume demo_chal [7] 3 1060 demo_table1))
     \<le> global_capacity (ct_config (snd (consume demo_chal [7] 3 1060 demo_table1)))"
proof -
  have "rates_ok ChallengeTableConfig_default" by (simp add: rates_ok_def ChallengeTableConfig_default_def u32_max_def)
  from challenge_table_bounds [OF this _ demo_run [unfolded demo_table_def]] show ?thesis by simp
qed



text \<open>
  The global issuance rate holds over every run. The number of successful issues is at
  most the configured burst plus the refill rate times the seconds the clock moved forward
  between them, whatever refusals and consumptions happen in between.
\<close>

theorem global_issue_rate:
  assumes "table_inv t" and "steps challenge_step t es t'" and "issue_times es = now # ts"
  shows "length (issue_times es) \<le>
     burst (global_rate (ct_config t)) + refill_per_sec (global_rate (ct_config t)) * forward (issue_times es)"
proof -
  have "bucket_ok (global_rate (ct_config t)) (global_bucket t)" using assms(1) by (simp add: table_inv_def)
  moreover have "\<forall>u \<in> set (now # ts). is_i64 u" using takes_issue_times [OF assms(2,1)] assms(3) by simp
  ultimately have "fst (takes (global_rate (ct_config t)) (global_bucket t) (now # ts))
      \<le> burst (global_rate (ct_config t)) + refill_per_sec (global_rate (ct_config t)) * forward (now # ts)"
    by (rule takes_rate)
  with takes_issue_times [OF assms(2,1)] assms(3) show ?thesis by simp
qed

lemma global_issue_rate_witness:
  "1 \<le> burst (global_rate (ct_config demo_table)) + refill_per_sec (global_rate (ct_config demo_table)) * forward [1000]"
  using global_issue_rate [OF demo_table_inv demo_run] by (simp add: issue_times_def)

text \<open>
  The bytes hashed into a source partition determine its inputs. Two preimages are equal
  exactly when listener kind, listener name, user id and observed source agree, so distinct
  callers never share a partition by concatenation tricks.
\<close>

theorem partition_preimage_injective:
  assumes "length n < 2 ^ 64" and "length n' < 2 ^ 64"
    and "\<forall>x. src = Some x \<longrightarrow> length x < 2 ^ 64" and "\<forall>x. src' = Some x \<longrightarrow> length x < 2 ^ 64"
  shows "partition_preimage k n u src = partition_preimage k' n' u' src' \<longleftrightarrow>
     k = k' \<and> n = n' \<and> u = u' \<and> src = src'"
  using assms by (rule partition_preimage_inj)

lemma partition_preimage_injective_witness:
  "partition_preimage 2 ''ab'' 7 (Some ''c'') \<noteq> partition_preimage 2 ''a'' 7 (Some ''bc'')"
  using partition_preimage_injective [of "''ab''" "''a''" "Some ''c''" "Some ''bc''" 2 7 2 7] by simp

end
