(* ===== verification/Revocation.thy ===== *)
theory Revocation
  imports Catalog_Schema
begin

text \<open>
  The JWT-SVID deny-list (\<open>core/revocation.rs\<close>). A \<open>RwLock\<close> is a value with a poison flag, so
  the fail-closed and error paths of poisoned locks are branches of the model. Clock
  readings are arguments. The manager's key routing (\<open>resolve\<close>), the backend's value
  operations (\<open>kv_get\<close>, \<open>kv_put\<close>) and the JSON codec (\<open>parse\<close>, \<open>ser\<close>) are arguments.

  Results: that a revocation stays effective along every run of the store; that a live revocation is never shortened by a merge or
  a failed refresh; that persisting and loading keeps every live revocation; and that
  \<open>insert\<close>, unlike a merge, can shorten one.
\<close>

record 'a lock =
  poisoned :: bool
  guarded :: 'a

text \<open>\<open>RevocationKey\<close> is the pair of its fields \<open>trust_domain\<close> and \<open>jti\<close>, with the derived order.\<close>

type_synonym revocation_key = "string \<times> string"

definition RevocationKey_new :: "string \<Rightarrow> string \<Rightarrow> revocation_key" where
  "RevocationKey_new dmn j = (dmn, j)"

record StoredRevocation =
  sr_trust_domain :: string
  sr_jti :: string
  sr_expires_at_unix :: nat

record StoredRevocations =
  version :: nat
  sr_entries :: "StoredRevocation list"

record JwtRevocationStore =
  storage_key :: "string option lock"
  entries :: "(revocation_key, nat) btree lock"

datatype RevocationError =
    LockPoisoned
  | ParseFailed
  | UnsupportedVersion nat
  | NotAValueKey string
  | MultipleStores
  | ResolveFailed
  | BackendFailed
  | SerializeFailed

datatype KvError = KeyNotFound | KvOther

definition STORE_LABEL :: string where "STORE_LABEL = ''revocation_store''"
definition JWT_SVID_STORE :: string where "JWT_SVID_STORE = ''jwt-svid''"
definition STORE_VERSION :: nat where "STORE_VERSION = 1"

definition unlocked :: "'a \<Rightarrow> 'a lock" where
  "unlocked x = \<lparr>poisoned = False, guarded = x\<rparr>"

definition JwtRevocationStore_default :: JwtRevocationStore where
  "JwtRevocationStore_default = \<lparr>storage_key = unlocked None, entries = unlocked []\<rparr>"

section \<open>Finding and decoding the store\<close>

definition is_jwt_store :: "KeyEntry \<Rightarrow> bool" where
  "is_jwt_store entry \<longleftrightarrow> labels_get (ke_labels entry) STORE_LABEL = Some JWT_SVID_STORE"

definition validate_jwt_store_key :: "string \<Rightarrow> KeyEntry \<Rightarrow> RevocationError + unit" where
  "validate_jwt_store_key nm entry = (if ke_class entry = ClassValue then Inr () else Inl (NotAValueKey nm))"

definition record_jwt_store_key :: "string option \<Rightarrow> string \<Rightarrow> RevocationError + string option" where
  "record_jwt_store_key found nm = (if found \<noteq> None then Inl MultipleStores else Inr (Some nm))"

fun store_key_loop :: "(string \<times> KeyEntry) list \<Rightarrow> string option \<Rightarrow> RevocationError + string option" where
  "store_key_loop [] found = Inr found"
| "store_key_loop ((nm, entry) # rest) found =
     (if is_jwt_store entry
      then res_bind (validate_jwt_store_key nm entry) (\<lambda>_.
           res_bind (record_jwt_store_key found nm) (\<lambda>found'. store_key_loop rest found'))
      else store_key_loop rest found)"

definition jwt_revocation_store_key :: "(string, KeyEntry) btree \<Rightarrow> RevocationError + string option" where
  "jwt_revocation_store_key mkeys = store_key_loop mkeys None"

definition stored_entries ::
    "(string \<Rightarrow> StoredRevocations option) \<Rightarrow> string \<Rightarrow> RevocationError + (revocation_key, nat) btree" where
  "stored_entries parse inp =
     (case parse inp of
        None \<Rightarrow> Inl ParseFailed
      | Some stored \<Rightarrow>
          if version stored \<noteq> STORE_VERSION then Inl (UnsupportedVersion (version stored))
          else Inr (bt_of_list (map (\<lambda>e. (RevocationKey_new (sr_trust_domain e) (sr_jti e), sr_expires_at_unix e))
            (filter (\<lambda>e. sr_trust_domain e \<noteq> [] \<and> sr_jti e \<noteq> []) (sr_entries stored)))))"

definition prune_expired :: "(revocation_key, nat) btree \<Rightarrow> nat \<Rightarrow> (revocation_key, nat) btree" where
  "prune_expired es now = bt_retain (\<lambda>_ expires_at. expires_at > now) es"

section \<open>Operations\<close>

definition read_entries ::
    "(string \<Rightarrow> KvError + string) \<Rightarrow> (string \<Rightarrow> StoredRevocations option) \<Rightarrow> string \<Rightarrow>
     RevocationError + (revocation_key, nat) btree" where
  "read_entries kv_get parse path =
     (case kv_get path of
        Inr value \<Rightarrow> stored_entries parse value
      | Inl KeyNotFound \<Rightarrow> Inr []
      | Inl KvOther \<Rightarrow> Inl BackendFailed)"

definition load_from_manager ::
    "(string \<Rightarrow> string option) \<Rightarrow> (string \<Rightarrow> KvError + string) \<Rightarrow> (string \<Rightarrow> StoredRevocations option) \<Rightarrow>
     (string, KeyEntry) btree \<Rightarrow> nat \<Rightarrow> RevocationError + JwtRevocationStore" where
  "load_from_manager resolve kv_get parse mkeys now =
     res_bind (jwt_revocation_store_key mkeys) (\<lambda>found.
       case found of
         None \<Rightarrow> Inr JwtRevocationStore_default
       | Some key \<Rightarrow>
           res_bind (ok_or (resolve key) ResolveFailed) (\<lambda>path.
           res_bind (read_entries kv_get parse path) (\<lambda>es.
           Inr \<lparr>storage_key = unlocked (Some key), entries = unlocked (prune_expired es now)\<rparr>)))"

text \<open>A lookup prunes under the write lock; the new table is part of the result.\<close>

definition is_revoked :: "string \<Rightarrow> string \<Rightarrow> nat \<Rightarrow> JwtRevocationStore \<Rightarrow> bool \<times> JwtRevocationStore" where
  "is_revoked dmn j now s =
     (if poisoned (entries s) then (True, s)
      else let es = bt_retain (\<lambda>_ expires_at. expires_at > now) (guarded (entries s)) in
        (bt_get es (RevocationKey_new dmn j) \<noteq> None, s\<lparr>entries := unlocked es\<rparr>))"

definition revocation_insert ::
    "string \<Rightarrow> string \<Rightarrow> nat \<Rightarrow> nat \<Rightarrow> JwtRevocationStore \<Rightarrow> (RevocationError + unit) \<times> JwtRevocationStore" where
  "revocation_insert dmn j expires_at_unix now s =
     (if expires_at_unix > now then
        if poisoned (entries s) then (Inl LockPoisoned, s)
        else (Inr (), s\<lparr>entries := unlocked
          (bt_insert (RevocationKey_new dmn j) expires_at_unix (guarded (entries s)))\<rparr>)
      else (Inr (), s))"

definition merge_entry :: "revocation_key \<times> nat \<Rightarrow> (revocation_key, nat) btree \<Rightarrow> (revocation_key, nat) btree" where
  "merge_entry kv es = (case kv of (key, expires_at) \<Rightarrow>
     (case bt_get es key of
        Some current \<Rightarrow> bt_insert key (max current expires_at) es
      | None \<Rightarrow> bt_insert key expires_at es))"

definition merge_from ::
    "nat \<Rightarrow> JwtRevocationStore \<Rightarrow> JwtRevocationStore \<Rightarrow> (RevocationError + unit) \<times> JwtRevocationStore" where
  "merge_from now loaded s =
     (if poisoned (storage_key loaded) then (Inl LockPoisoned, s)
      else if poisoned (entries loaded) then (Inl LockPoisoned, s)
      else if poisoned (storage_key s) then (Inl LockPoisoned, s)
      else let s1 = s\<lparr>storage_key := unlocked (guarded (storage_key loaded))\<rparr> in
        if poisoned (entries s1) then (Inl LockPoisoned, s1)
        else let es = bt_retain (\<lambda>_ expires_at. expires_at > now) (guarded (entries s1)) in
          (Inr (), s1\<lparr>entries := unlocked (fold merge_entry (prune_expired (guarded (entries loaded)) now) es)\<rparr>))"

definition refresh_from_manager ::
    "(string \<Rightarrow> string option) \<Rightarrow> (string \<Rightarrow> KvError + string) \<Rightarrow> (string \<Rightarrow> StoredRevocations option) \<Rightarrow>
     (string, KeyEntry) btree \<Rightarrow> nat \<Rightarrow> nat \<Rightarrow> JwtRevocationStore \<Rightarrow> (RevocationError + unit) \<times> JwtRevocationStore" where
  "refresh_from_manager resolve kv_get parse mkeys now_load now_merge s =
     (case load_from_manager resolve kv_get parse mkeys now_load of
        Inl e \<Rightarrow> (Inl e, s)
      | Inr loaded \<Rightarrow> merge_from now_merge loaded s)"

definition snapshot :: "(revocation_key, nat) btree \<Rightarrow> StoredRevocations" where
  "snapshot es = \<lparr>version = STORE_VERSION, sr_entries =
     map (\<lambda>((dmn, j), expires_at). \<lparr>sr_trust_domain = dmn, sr_jti = j, sr_expires_at_unix = expires_at\<rparr>) es\<rparr>"

definition snapshot_json ::
    "(StoredRevocations \<Rightarrow> string option) \<Rightarrow> JwtRevocationStore \<Rightarrow> RevocationError + string" where
  "snapshot_json ser s =
     (if poisoned (entries s) then Inl LockPoisoned
      else ok_or (ser (snapshot (guarded (entries s)))) SerializeFailed)"

text \<open>\<open>persist\<close> returns the write it hands to the backend, if any.\<close>

definition persist ::
    "(string \<Rightarrow> string option) \<Rightarrow> (string \<Rightarrow> string \<Rightarrow> bool) \<Rightarrow> (StoredRevocations \<Rightarrow> string option) \<Rightarrow>
     JwtRevocationStore \<Rightarrow> RevocationError + (string \<times> string) option" where
  "persist resolve kv_put ser s =
     (if poisoned (storage_key s) then Inl LockPoisoned
      else case guarded (storage_key s) of
        None \<Rightarrow> Inr None
      | Some key \<Rightarrow>
          res_bind (ok_or (resolve key) ResolveFailed) (\<lambda>path.
          res_bind (snapshot_json ser s) (\<lambda>payload.
          if kv_put path payload then Inr (Some (path, payload)) else Inl BackendFailed)))"

definition has_persistent_store :: "JwtRevocationStore \<Rightarrow> RevocationError + bool" where
  "has_persistent_store s =
     (if poisoned (storage_key s) then Inl LockPoisoned else Inr (guarded (storage_key s) \<noteq> None))"

section \<open>Deadlines\<close>

text \<open>The abstract state: until when a token is denied, read at time \<open>now\<close>.\<close>

definition denied_until :: "JwtRevocationStore \<Rightarrow> nat \<Rightarrow> revocation_key \<Rightarrow> nat option" where
  "denied_until s now k =
     (case bt_get (guarded (entries s)) k of
        Some e \<Rightarrow> if e > now then Some e else None | None \<Rightarrow> None)"

definition store_wf :: "JwtRevocationStore \<Rightarrow> bool" where
  "store_wf s \<longleftrightarrow> bt_wf (guarded (entries s))"

lemma guarded_unlocked [simp]: "guarded (unlocked x) = x" "poisoned (unlocked x) = False"
  by (simp_all add: unlocked_def)

lemma get_prune: "bt_wf es \<Longrightarrow> bt_get (prune_expired es now) k =
    (case bt_get es k of Some e \<Rightarrow> if e > now then Some e else None | None \<Rightarrow> None)"
  by (auto simp: prune_expired_def bt_get_retain split: option.splits)

lemma prune_wf [simp]: "bt_wf es \<Longrightarrow> bt_wf (prune_expired es now)"
  by (simp add: prune_expired_def)

lemma retain_prune: "bt_retain (\<lambda>_ expires_at. expires_at > now) es = prune_expired es now"
  by (simp add: prune_expired_def)

lemma denied_prune: "store_wf s \<Longrightarrow> bt_get (prune_expired (guarded (entries s)) now) k = denied_until s now k"
  by (simp add: get_prune denied_until_def store_wf_def)

text \<open>The pointwise later deadline.\<close>

fun later :: "nat option \<Rightarrow> nat option \<Rightarrow> nat option" where
  "later (Some a) (Some b) = Some (max a b)"
| "later None b = b"
| "later a None = a"

lemma merge_entry_wf [simp]: "bt_wf es \<Longrightarrow> bt_wf (merge_entry kv es)"
  by (auto simp: merge_entry_def split: prod.splits option.splits)

lemma merge_entry_get: "bt_wf es \<Longrightarrow> bt_get (merge_entry (k, e) es) = (bt_get es)(k := later (bt_get es k) (Some e))"
  by (auto simp: merge_entry_def bt.get_put split: option.splits)

lemma fold_merge_wf: "bt_wf es \<Longrightarrow> bt_wf (fold merge_entry xs es)"
  by (induction xs arbitrary: es) auto

lemma fold_merge_get:
  "bt_wf es \<Longrightarrow> distinct (map fst xs) \<Longrightarrow>
     bt_get (fold merge_entry xs es) k = later (bt_get es k) (map_of xs k)"
proof (induction xs arbitrary: es)
  case Nil
  then show ?case by (cases "bt_get es k") simp_all
next
  case (Cons x xs)
  obtain k' e where x: "x = (k', e)" by fastforce
  have wf: "bt_wf (merge_entry x es)" using Cons.prems by simp
  have "map_of xs k' = None" using Cons.prems x by (simp add: map_of_eq_None_iff)
  then have "later (later (bt_get es k') (Some e)) (map_of xs k') = later (bt_get es k') (Some e)"
    by (cases "bt_get es k'") simp_all
  with Cons.IH [OF wf] Cons.prems x show ?case by (auto simp: merge_entry_get)
qed

lemma is_revoked_iff:
  "store_wf s \<Longrightarrow> fst (is_revoked dmn j now s) \<longleftrightarrow>
     poisoned (entries s) \<or> denied_until s now (RevocationKey_new dmn j) \<noteq> None"
  by (simp add: is_revoked_def Let_def retain_prune denied_prune)

lemma merge_from_ok:
  assumes "store_wf s" and "store_wf loaded" and "merge_from now loaded s = (Inr (), s')"
  shows "store_wf s'" and "bt_get (guarded (entries s')) k = later (denied_until s now k) (denied_until loaded now k)"
proof -
  have s': "s' = s\<lparr>storage_key := unlocked (guarded (storage_key loaded)),
      entries := unlocked (fold merge_entry (prune_expired (guarded (entries loaded)) now)
        (prune_expired (guarded (entries s)) now))\<rparr>"
    using assms(3) by (auto simp: merge_from_def Let_def retain_prune split: if_splits)
  have wf: "bt_wf (prune_expired (guarded (entries s)) now)" "bt_wf (prune_expired (guarded (entries loaded)) now)"
    using assms(1,2) by (simp_all add: store_wf_def)
  from s' fold_merge_wf [OF wf(1)] show "store_wf s'" by (simp add: store_wf_def)
  show "bt_get (guarded (entries s')) k = later (denied_until s now k) (denied_until loaded now k)"
    using fold_merge_get [OF wf(1) bt_wf_distinct [OF wf(2)], of k] assms(1,2)
    by (simp add: s' denied_prune flip: bt_get_def)
qed

lemma stored_entries_wf: "stored_entries parse inp = Inr es \<Longrightarrow> bt_wf es"
  by (auto simp: stored_entries_def split: option.splits if_splits)

lemma read_entries_wf: "read_entries kv_get parse path = Inr es \<Longrightarrow> bt_wf es"
  by (auto simp: read_entries_def dest: stored_entries_wf split: sum.splits KvError.splits)

lemma load_from_manager_wf: "load_from_manager resolve kv_get parse mkeys now = Inr s \<Longrightarrow> store_wf s"
  by (auto simp: load_from_manager_def store_wf_def JwtRevocationStore_default_def
      dest!: read_entries_wf split: option.splits)

lemma later_None [simp]: "later a None = a"
  by (cases a) simp_all

lemma stored_snapshot:
  assumes "parse inp = Some (snapshot es)" and "bt_wf es"
    and "\<forall>k \<in> fst ` set es. fst k \<noteq> [] \<and> snd k \<noteq> []"
  shows "\<exists>es'. stored_entries parse inp = Inr es' \<and> bt_get es' = bt_get es"
proof -
  let ?entry = "\<lambda>e. (RevocationKey_new (sr_trust_domain e) (sr_jti e), sr_expires_at_unix e)"
  have "filter (\<lambda>e. sr_trust_domain e \<noteq> [] \<and> sr_jti e \<noteq> []) (sr_entries (snapshot es)) = sr_entries (snapshot es)"
    using assms(3) by (fastforce simp: filter_id_conv snapshot_def)
  moreover have "map ?entry (sr_entries (snapshot es)) = es"
    by (induction es) (auto simp: snapshot_def RevocationKey_new_def)
  ultimately have "stored_entries parse inp = Inr (bt_of_list es)"
    using assms(1) by (simp add: stored_entries_def snapshot_def)
  moreover have "bt_get (bt_of_list es) = bt_get es"
    using bt_wf_distinct [OF assms(2)] unfolding bt_get_of_list by (simp add: bt_get_def fun_eq_iff map_of_rev)
  ultimately show ?thesis by blast
qed

section \<open>Runs of the store\<close>

text \<open>
  What may happen to a live store, in any order: lookups, inserts, refreshes with whatever the
  backend answers, and a panic in another holder of either lock, which poisons it and may leave
  anything behind. An event carries the clock readings it is made with.
\<close>

datatype RevocationEvent =
    RevLookup string string nat
  | RevInsert string string nat nat
  | RevRefresh nat nat
  | RevPoison

inductive revocation_step :: "JwtRevocationStore \<Rightarrow> RevocationEvent \<Rightarrow> JwtRevocationStore \<Rightarrow> bool" where
  lookup: "is_revoked dmn j now s = (answer, s') \<Longrightarrow> revocation_step s (RevLookup dmn j now) s'"
| insert: "revocation_insert dmn j expires now s = (res, s') \<Longrightarrow> revocation_step s (RevInsert dmn j expires now) s'"
| refresh: "refresh_from_manager resolve kv_get parse mkeys now_load now s = (res, s') \<Longrightarrow>
    revocation_step s (RevRefresh now_load now) s'"
| poison_entries: "revocation_step s RevPoison (s\<lparr>entries := \<lparr>poisoned = True, guarded = es\<rparr>\<rparr>)"
| poison_key: "revocation_step s RevPoison (s\<lparr>storage_key := \<lparr>poisoned = True, guarded = k\<rparr>\<rparr>)"

text \<open>Until when the events of a run leave a revocation alone: every pruning happens before the
  deadline, and no later insert for the same token has an earlier one.\<close>

fun undisturbed :: "string \<Rightarrow> string \<Rightarrow> nat \<Rightarrow> RevocationEvent \<Rightarrow> bool" where
  "undisturbed dmn j deadline (RevLookup _ _ now) \<longleftrightarrow> now < deadline"
| "undisturbed dmn j deadline (RevInsert dmn' j' expires now) \<longleftrightarrow>
     (dmn', j') = (dmn, j) \<and> now < expires \<longrightarrow> deadline \<le> expires"
| "undisturbed dmn j deadline (RevRefresh _ now) \<longleftrightarrow> now < deadline"
| "undisturbed dmn j deadline RevPoison \<longleftrightarrow> True"

definition denies_until :: "string \<Rightarrow> string \<Rightarrow> nat \<Rightarrow> JwtRevocationStore \<Rightarrow> bool" where
  "denies_until dmn j deadline s \<longleftrightarrow> poisoned (entries s) \<or>
     store_wf s \<and> (\<exists>e \<ge> deadline. bt_get (guarded (entries s)) (RevocationKey_new dmn j) = Some e)"

lemma denies_lookup: "denies_until dmn j deadline s \<Longrightarrow> now < deadline \<Longrightarrow> fst (is_revoked dmn j now s)"
  by (auto simp: denies_until_def is_revoked_def Let_def retain_prune get_prune store_wf_def)

lemma insert_denies:
  "store_wf s \<Longrightarrow> now < expires \<Longrightarrow> denies_until dmn j expires (snd (revocation_insert dmn j expires now s))"
  by (auto simp: denies_until_def revocation_insert_def store_wf_def bt.get_put)

lemma refresh_denies:
  assumes "refresh_from_manager resolve kv_get parse mkeys now_load now s = (res, s')"
    and "denies_until dmn j deadline s" and "now < deadline"
  shows "denies_until dmn j deadline s'"
proof (cases "poisoned (entries s)")
  case True
  with assms(1) show ?thesis
    by (auto simp: denies_until_def refresh_from_manager_def merge_from_def Let_def split: sum.splits if_splits)
next
  case live: False
  show ?thesis
  proof (cases "load_from_manager resolve kv_get parse mkeys now_load")
    case (Inl e)
    with assms(1,2) show ?thesis by (simp add: refresh_from_manager_def)
  next
    case (Inr loaded)
    then have m: "merge_from now loaded s = (res, s')" using assms(1) by (simp add: refresh_from_manager_def)
    from assms(2) live obtain e where e: "store_wf s" "deadline \<le> e"
      "bt_get (guarded (entries s)) (RevocationKey_new dmn j) = Some e" by (auto simp: denies_until_def)
    show ?thesis
    proof (cases res)
      case Inl
      then have "entries s' = entries s" using m by (auto simp: merge_from_def Let_def split: if_splits)
      with assms(2) show ?thesis by (simp add: denies_until_def store_wf_def)
    next
      case (Inr u)
      with m have "merge_from now loaded s = (Inr (), s')" by simp
      note ok = merge_from_ok [OF e(1) load_from_manager_wf [OF \<open>_ = Inr loaded\<close>] this]
      have "denied_until s now (RevocationKey_new dmn j) = Some e"
        using e assms(3) by (simp add: denied_until_def)
      with ok(2) [of "RevocationKey_new dmn j"] ok(1) e(2) show ?thesis
        by (cases "denied_until loaded now (RevocationKey_new dmn j)") (auto simp: denies_until_def)
    qed
  qed
qed

lemma step_denies:
  assumes "revocation_step s ev s'" and "denies_until dmn j deadline s" and "undisturbed dmn j deadline ev"
  shows "denies_until dmn j deadline s'"
  using assms
proof cases
  case (lookup dmn' j' now answer)
  with assms(2,3) show ?thesis
    by (auto simp: denies_until_def is_revoked_def Let_def retain_prune get_prune store_wf_def split: if_splits)
next
  case (insert dmn' j' expires now res)
  with assms(2,3) show ?thesis
    by (auto simp: denies_until_def revocation_insert_def store_wf_def bt.get_put RevocationKey_new_def
        split: if_splits)
next
  case (refresh resolve kv_get parse mkeys now_load now res)
  with refresh_denies assms(2,3) show ?thesis by auto
qed (use assms(2) in \<open>auto simp: denies_until_def store_wf_def\<close>)

lemma run_denies:
  "steps revocation_step s evs s' \<Longrightarrow> denies_until dmn j deadline s \<Longrightarrow>
     \<forall>ev \<in> set evs. undisturbed dmn j deadline ev \<Longrightarrow> denies_until dmn j deadline s'"
  by (induction rule: steps.induct) (auto dest: step_denies)

section \<open>Properties\<close>


definition demo_revocations :: "RevocationEvent list" where
  "demo_revocations = [RevLookup ''e'' ''k'' 12, RevInsert ''d'' ''other'' 13 12, RevRefresh 13 14, RevInsert ''d'' ''j'' 30 14]"


text \<open>
  A refresh never weakens the deny-list. Whatever the backend answers, a token that is
  denied at the merge time stays denied at least as long; on success every deadline is
  exactly the later of the live and the loaded one, and on failure the entries are
  untouched.
\<close>

theorem refresh_never_weakens:
  assumes "store_wf s" and "refresh_from_manager resolve kv_get parse mkeys now_load now s = (res, s')"
  shows "(\<forall>k e. denied_until s now k = Some e \<longrightarrow> (\<exists>e' \<ge> e. denied_until s' now k = Some e')) \<and>
     (res \<noteq> Inr () \<longrightarrow> entries s' = entries s) \<and>
     (res = Inr () \<longrightarrow> (\<exists>loaded. load_from_manager resolve kv_get parse mkeys now_load = Inr loaded \<and>
        (\<forall>k. bt_get (guarded (entries s')) k = later (denied_until s now k) (denied_until loaded now k))))"
proof (cases "load_from_manager resolve kv_get parse mkeys now_load")
  case (Inl e)
  with assms(2) show ?thesis by (auto simp: refresh_from_manager_def)
next
  case (Inr loaded)
  have m: "merge_from now loaded s = (res, s')" using assms(2) Inr by (simp add: refresh_from_manager_def)
  have wf: "store_wf loaded"
    using Inr by (rule load_from_manager_wf)
  show ?thesis
  proof (cases "res = Inr ()")
    case True
    note get = merge_from_ok(2) [OF assms(1) wf m [unfolded True]]
    have "\<exists>e' \<ge> e. denied_until s' now k = Some e'" if "denied_until s now k = Some e" for k e
    proof -
      have "now < e" using that by (auto simp: denied_until_def split: option.splits if_splits)
      with that get [of k] show ?thesis
        by (cases "denied_until loaded now k") (auto simp: denied_until_def [of s'])
    qed
    with True get Inr show ?thesis by blast
  next
    case False
    with m have "entries s' = entries s"
      by (auto simp: merge_from_def Let_def split: if_splits)
    with False show ?thesis by (auto simp: denied_until_def)
  qed
qed

lemma refresh_never_weakens_witness:
  "\<exists>e'. e' \<ge> 20 \<and> denied_until (snd (refresh_from_manager (\<lambda>_. None) (\<lambda>_. Inl KeyNotFound) (\<lambda>_. None) [] 5 10
     (snd (revocation_insert ''d'' ''j'' 20 10 JwtRevocationStore_default)))) 10 (''d'', ''j'') = Some e'"
proof -
  let ?s = "snd (revocation_insert ''d'' ''j'' 20 10 JwtRevocationStore_default)"
  have "store_wf ?s" "denied_until ?s 10 (''d'', ''j'') = Some 20"
    by (simp_all add: revocation_insert_def JwtRevocationStore_default_def store_wf_def denied_until_def
        bt_wf_def bt_get_def RevocationKey_new_def)
  with refresh_never_weakens [of ?s "\<lambda>_. None" "\<lambda>_. Inl KeyNotFound" "\<lambda>_. None" "[]" 5 10] show ?thesis
    by (metis prod.collapse)
qed

text \<open>
  C37: revocations survive a restart. If the JSON codec round-trips the snapshot and every key
  has a non-empty trust domain and token id, then loading what \<open>persist\<close> wrote restores
  exactly the live deadlines.
\<close>

theorem persist_load_roundtrip:
  assumes "store_wf s" and "\<not> poisoned (storage_key s)" and "\<not> poisoned (entries s)"
    and "guarded (storage_key s) = Some key" and "resolve key = Some path"
    and "ser (snapshot (guarded (entries s))) = Some payload"
    and "parse payload = Some (snapshot (guarded (entries s)))"
    and "\<forall>k \<in> fst ` set (guarded (entries s)). fst k \<noteq> [] \<and> snd k \<noteq> []"
    and "jwt_revocation_store_key mkeys = Inr (Some key)"
  shows "persist resolve (\<lambda>_ _. True) ser s = Inr (Some (path, payload)) \<and>
     (\<exists>s'. load_from_manager resolve (\<lambda>p. if p = path then Inr payload else Inl KeyNotFound) parse mkeys now = Inr s' \<and>
        guarded (storage_key s') = Some key \<and>
        (\<forall>k. bt_get (guarded (entries s')) k = denied_until s now k))"
proof -
  have wf: "bt_wf (guarded (entries s))" using assms(1) by (simp add: store_wf_def)
  obtain es' where es': "stored_entries parse payload = Inr es'" "bt_get es' = bt_get (guarded (entries s))"
    using stored_snapshot [where parse = parse, OF assms(7) wf assms(8)] by blast
  have "bt_wf es'" using es'(1) by (rule stored_entries_wf)
  with es' wf have "bt_get (prune_expired es' now) k = denied_until s now k" for k
    by (simp add: get_prune denied_until_def)
  with assms es'(1) show ?thesis
    by (simp add: persist_def snapshot_json_def load_from_manager_def read_entries_def ok_or_def)
qed

definition demo_store_entry :: KeyEntry where
  "demo_store_entry = \<lparr>ke_class = ClassValue, ke_key_type = None, ke_backend = ''bao'',
     ke_engine = None, ke_path = ''p'', ke_public_path = None, ke_writable = True,
     ke_missing = MissingError, ke_nix_cache = None, ke_generate = None, ke_sealing_pin = None,
     ke_labels = [''revocation_store=jwt-svid''], ke_description = ''d''\<rparr>"

definition demo_store :: JwtRevocationStore where
  "demo_store = \<lparr>storage_key = unlocked (Some ''deny''), entries = unlocked [((''d'', ''j''), 20)]\<rparr>"

lemma persist_load_roundtrip_witness:
  "persist (\<lambda>k. Some k) (\<lambda>_ _. True) (\<lambda>_. Some ''blob'') demo_store = Inr (Some (''deny'', ''blob''))"
proof -
  have "jwt_revocation_store_key [(''deny'', demo_store_entry)] = Inr (Some ''deny'')" by code_simp
  with persist_load_roundtrip [of demo_store "''deny''" "\<lambda>k. Some k" "''deny''" "\<lambda>_. Some ''blob''" "''blob''"
      "\<lambda>_. Some (snapshot (guarded (entries demo_store)))" "[(''deny'', demo_store_entry)]" 10]
  show ?thesis by (simp add: demo_store_def store_wf_def bt_wf_def)
qed

text \<open>
  \<open>insert\<close> can shorten a revocation. Its comment says it adds or extends one, but a later
  insert with an earlier deadline overwrites the longer one, after which the token is
  accepted again although it had been revoked for longer.
\<close>

theorem insert_can_shorten_revocation:
  "let s1 = snd (revocation_insert ''d'' ''j'' 100 10 JwtRevocationStore_default);
       s2 = snd (revocation_insert ''d'' ''j'' 20 10 s1)
   in fst (is_revoked ''d'' ''j'' 50 s1) \<and> \<not> fst (is_revoked ''d'' ''j'' 50 s2)"
  by (simp add: revocation_insert_def JwtRevocationStore_default_def is_revoked_def RevocationKey_new_def
      bt_retain_def bt_get_def Let_def)

end
