(* ===== verification/Capability.thy ===== *)
theory Capability
  imports Catalog_Schema "HOL-Library.Option_ord"
begin

text \<open>
  Backend capability enforcement (\<open>core/capability.rs\<close>): what each backend provides against
  what its keys and its explicit \<open>requires\<close> need. The log lines of the loop are not
  modelled; the counters they go with are.

  Results: startup passes exactly when no requirement the policy makes fatal is unmet, the
  error carries exactly the fatal gaps, and the policy names round-trip.
\<close>

datatype CapabilityPolicy = Strict | Degraded | Off

definition policy_from_str :: "string \<Rightarrow> string + CapabilityPolicy" where
  "policy_from_str s =
     (if s = ''strict'' then Inr Strict
      else if s = ''degraded'' then Inr Degraded
      else if s = ''off'' then Inr Off
      else Inl (''invalid capability-policy `'' @ s @ ''` (want one of: strict, degraded, off)''))"

fun policy_display :: "CapabilityPolicy \<Rightarrow> string" where
  "policy_display Strict = ''strict''"
| "policy_display Degraded = ''degraded''"
| "policy_display Off = ''off''"

record CapabilityGap =
  gap_backend :: string
  gap_key :: "string option"
  missing_engines :: "Engine list"
  missing_capabilities :: "Capability list"
  missing_mint_key_types :: "KeyAlgorithm list"

definition gap_display :: "CapabilityGap \<Rightarrow> string" where
  "gap_display g =
     (case gap_key g of
        Some k \<Rightarrow> ''key `'' @ k @ ''` (backend `'' @ gap_backend g @ ''`)''
      | None \<Rightarrow> ''backend `'' @ gap_backend g @ ''` requires'') @
     (if missing_engines g \<noteq> []
      then '' needs engine(s) ['' @ join_with '', '' (map engine_token (missing_engines g)) @ '']'' else []) @
     (if missing_capabilities g \<noteq> []
      then '' needs capabilit(ies) ['' @ join_with '', '' (map capability_token (missing_capabilities g)) @ '']'' else []) @
     (if missing_mint_key_types g \<noteq> []
      then '' needs mint key type(s) ['' @ join_with '', '' (map alg_token (missing_mint_key_types g)) @ '']'' else [])"

definition format_gaps :: "CapabilityGap list \<Rightarrow> string" where
  "format_gaps gaps = join_with (CHR 0x0A # ''  - '') (map gap_display gaps)"

datatype CapabilityError = CapabilityError "CapabilityGap list"

record CapabilitySummary =
  enforced :: nat
  skipped_undeclared :: nat
  warnings :: nat

definition required_mint_key_type :: "KeyEntry \<Rightarrow> KeyAlgorithm option" where
  "required_mint_key_type entry =
     (if ke_class entry = Asymmetric \<and> effective_engine entry = Transit \<and> ke_missing entry = MissingGenerate
      then ke_key_type entry else None)"

definition option_to_list :: "'a option \<Rightarrow> 'a list" where
  "option_to_list x = (case x of None \<Rightarrow> [] | Some v \<Rightarrow> [v])"

definition option_filter :: "('a \<Rightarrow> bool) \<Rightarrow> 'a option \<Rightarrow> 'a option" where
  "option_filter p x = (case x of Some v \<Rightarrow> if p v then Some v else None | None \<Rightarrow> None)"

definition key_gap :: "string \<Rightarrow> BackendRef \<Rightarrow> string \<times> KeyEntry \<Rightarrow> (CapabilityGap \<times> MissingPolicy) list" where
  "key_gap bname backend kv = (case kv of (kname, entry) \<Rightarrow>
     if ke_backend entry \<noteq> bname then []
     else let
       engine = effective_engine entry;
       m_engines = (if engine \<in> set (be_engines backend) then [] else [engine]);
       m_caps = option_to_list (option_filter (\<lambda>c. c \<notin> set (be_capabilities backend))
         (Option.bind (ke_key_type entry) required_capability));
       m_mint = option_to_list (option_filter (\<lambda>a. a \<notin> set (be_mint_key_types backend))
         (required_mint_key_type entry))
     in if m_engines = [] \<and> m_caps = [] \<and> m_mint = [] then []
        else [(\<lparr>gap_backend = bname, gap_key = Some kname, missing_engines = m_engines,
           missing_capabilities = m_caps, missing_mint_key_types = m_mint\<rparr>, ke_missing entry)])"

definition key_capability_gaps :: "Catalog \<Rightarrow> string \<Rightarrow> BackendRef \<Rightarrow> (CapabilityGap \<times> MissingPolicy) list" where
  "key_capability_gaps catalog bname backend = concat (map (key_gap bname backend) (keys catalog))"

definition undeclared :: "BackendRef \<Rightarrow> bool" where
  "undeclared b \<longleftrightarrow> be_engines b = [] \<and> be_capabilities b = [] \<and> be_mint_key_types b = []"

text \<open>The treatment of one backend-level gap and of one key gap under a policy.\<close>

fun requires_verdict :: "CapabilityPolicy \<Rightarrow> CapabilityGap \<Rightarrow> CapabilitySummary \<times> CapabilityGap list \<Rightarrow>
    CapabilitySummary \<times> CapabilityGap list" where
  "requires_verdict Strict gap (summary, fatal) = (summary, fatal @ [gap])"
| "requires_verdict Degraded gap (summary, fatal) = (summary\<lparr>warnings := warnings summary + 1\<rparr>, fatal)"
| "requires_verdict Off gap acc = acc"

fun key_verdict :: "CapabilityPolicy \<Rightarrow> CapabilityGap \<times> MissingPolicy \<Rightarrow> CapabilitySummary \<times> CapabilityGap list \<Rightarrow>
    CapabilitySummary \<times> CapabilityGap list" where
  "key_verdict Strict (gap, missing) (summary, fatal) = (summary, fatal @ [gap])"
| "key_verdict Degraded (gap, missing) (summary, fatal) =
     (if missing = MissingError then (summary, fatal @ [gap])
      else (summary\<lparr>warnings := warnings summary + 1\<rparr>, fatal))"
| "key_verdict Off gm acc = acc"

definition enforce_backend ::
    "Catalog \<Rightarrow> CapabilityPolicy \<Rightarrow> string \<times> BackendRef \<Rightarrow> CapabilitySummary \<times> CapabilityGap list \<Rightarrow>
     CapabilitySummary \<times> CapabilityGap list" where
  "enforce_backend catalog policy nb acc = (case nb of (bname, backend) \<Rightarrow> case acc of (summary, fatal) \<Rightarrow>
     if undeclared backend
     then (summary\<lparr>skipped_undeclared := skipped_undeclared summary + 1\<rparr>, fatal)
     else let
       summary1 = summary\<lparr>enforced := enforced summary + 1\<rparr>;
       missing_req = filter (\<lambda>c. c \<notin> set (be_capabilities backend)) (be_requires backend);
       acc1 = (if missing_req \<noteq> []
         then requires_verdict policy \<lparr>gap_backend = bname, gap_key = None, missing_engines = [],
           missing_capabilities = missing_req, missing_mint_key_types = []\<rparr> (summary1, fatal)
         else (summary1, fatal))
     in fold (key_verdict policy) (key_capability_gaps catalog bname backend) acc1)"

definition enforce_capabilities :: "Catalog \<Rightarrow> CapabilityPolicy \<Rightarrow> CapabilityError + CapabilitySummary" where
  "enforce_capabilities catalog policy =
     (let summary0 = \<lparr>enforced = 0, skipped_undeclared = 0, warnings = 0\<rparr> in
      if policy = Off then Inr summary0
      else case fold (enforce_backend catalog policy) (backends catalog) (summary0, []) of (summary, fatal) \<Rightarrow>
        if fatal = [] then Inr summary
        else Inl (CapabilityError (sort_key (\<lambda>g. (gap_backend g, gap_key g)) fatal)))"

section \<open>Facts\<close>

definition requires_gap :: "string \<Rightarrow> BackendRef \<Rightarrow> CapabilityGap list" where
  "requires_gap bname backend =
     (let missing_req = filter (\<lambda>c. c \<notin> set (be_capabilities backend)) (be_requires backend) in
      if missing_req = [] then [] else [\<lparr>gap_backend = bname, gap_key = None, missing_engines = [],
           missing_capabilities = missing_req, missing_mint_key_types = []\<rparr>])"

definition fatal_gaps :: "Catalog \<Rightarrow> CapabilityPolicy \<Rightarrow> string \<times> BackendRef \<Rightarrow> CapabilityGap list" where
  "fatal_gaps catalog policy nb = (case nb of (bname, backend) \<Rightarrow>
     if undeclared backend then []
     else (if policy = Strict then requires_gap bname backend else []) @
       map fst (filter (\<lambda>(g, m). policy = Strict \<or> m = MissingError) (key_capability_gaps catalog bname backend)))"

lemma fold_key_verdict:
  "policy \<noteq> Off \<Longrightarrow> snd (fold (key_verdict policy) gs (summary, fatal)) =
     fatal @ map fst (filter (\<lambda>(g, m). policy = Strict \<or> m = MissingError) gs)"
proof (induction gs arbitrary: summary fatal)
  case (Cons x gs)
  then show ?case by (cases x; cases policy) auto
qed simp

lemma enforce_backend_fatal:
  assumes "policy \<noteq> Off"
  shows "snd (enforce_backend catalog policy nb (summary, fatal)) = fatal @ fatal_gaps catalog policy nb"
proof (cases nb)
  case (Pair bname backend)
  then show ?thesis
    using assms fold_key_verdict [OF assms]
    by (cases policy) (auto simp: enforce_backend_def fatal_gaps_def requires_gap_def Let_def)
qed

lemma fold_enforce_fatal:
  assumes "policy \<noteq> Off"
  shows "snd (fold (enforce_backend catalog policy) bs (summary, fatal)) =
     fatal @ concat (map (fatal_gaps catalog policy) bs)"
proof (induction bs arbitrary: summary fatal)
  case (Cons b bs)
  obtain s f where sf: "enforce_backend catalog policy b (summary, fatal) = (s, f)" by fastforce
  then have "f = fatal @ fatal_gaps catalog policy b"
    using enforce_backend_fatal [OF assms, of catalog b summary fatal] by simp
  with sf Cons show ?case by simp
qed simp

lemma enforce_eq:
  assumes "policy \<noteq> Off"
  shows "(\<exists>summary. enforce_capabilities catalog policy = Inr summary) \<longleftrightarrow>
      concat (map (fatal_gaps catalog policy) (backends catalog)) = []"
    and "enforce_capabilities catalog policy = Inl (CapabilityError gs) \<Longrightarrow>
      set gs = set (concat (map (fatal_gaps catalog policy) (backends catalog)))"
proof -
  obtain summary fatal where f: "fold (enforce_backend catalog policy) (backends catalog)
      (\<lparr>enforced = 0, skipped_undeclared = 0, warnings = 0\<rparr>, []) = (summary, fatal)" by fastforce
  then have "fatal = concat (map (fatal_gaps catalog policy) (backends catalog))"
    using fold_enforce_fatal [OF assms, of catalog "backends catalog" _ "[]"] by (metis append_Nil snd_conv)
  moreover have "enforce_capabilities catalog policy = (if fatal = [] then Inr summary
      else Inl (CapabilityError (sort_key (\<lambda>g. (gap_backend g, gap_key g)) fatal)))"
    using assms f by (simp add: enforce_capabilities_def Let_def)
  ultimately show "(\<exists>summary. enforce_capabilities catalog policy = Inr summary) \<longleftrightarrow>
      concat (map (fatal_gaps catalog policy) (backends catalog)) = []"
    and "enforce_capabilities catalog policy = Inl (CapabilityError gs) \<Longrightarrow>
      set gs = set (concat (map (fatal_gaps catalog policy) (backends catalog)))"
    by (auto split: if_splits)
qed

text \<open>The reading of one key's needs.\<close>

definition key_satisfied :: "BackendRef \<Rightarrow> KeyEntry \<Rightarrow> bool" where
  "key_satisfied backend entry \<longleftrightarrow>
     effective_engine entry \<in> set (be_engines backend) \<and>
     (\<forall>alg cap. ke_key_type entry = Some alg \<longrightarrow> required_capability alg = Some cap \<longrightarrow>
        cap \<in> set (be_capabilities backend)) \<and>
     (\<forall>alg. required_mint_key_type entry = Some alg \<longrightarrow> alg \<in> set (be_mint_key_types backend))"

lemma key_gap_Nil: "key_gap bname backend (k, entry) = [] \<longleftrightarrow> ke_backend entry \<noteq> bname \<or> key_satisfied backend entry"
  by (auto simp: key_gap_def Let_def key_satisfied_def option_to_list_def option_filter_def
      split: option.splits if_splits bind_splits)

lemma key_gap_missing: "(g, m) \<in> set (key_gap bname backend (k, entry)) \<Longrightarrow> m = ke_missing entry \<and> gap_key g = Some k"
  by (auto simp: key_gap_def Let_def split: if_splits)

lemma key_gap_unsatisfied:
  "ke_backend entry = bname \<Longrightarrow> \<not> key_satisfied backend entry \<Longrightarrow>
     \<exists>g. (g, ke_missing entry) \<in> set (key_gap bname backend (k, entry)) \<and> gap_key g = Some k \<and> gap_backend g = bname"
  using key_gap_Nil [of bname backend k entry]
  by (cases "key_gap bname backend (k, entry)") (auto simp: key_gap_def Let_def split: if_splits)

lemma fatal_gaps_Nil:
  assumes "policy \<noteq> Off"
  shows "fatal_gaps catalog policy (bname, backend) = [] \<longleftrightarrow> undeclared backend \<or>
     (policy = Strict \<longrightarrow> set (be_requires backend) \<subseteq> set (be_capabilities backend)) \<and>
     (\<forall>k entry. (k, entry) \<in> set (keys catalog) \<and> ke_backend entry = bname \<and>
        (policy = Strict \<or> ke_missing entry = MissingError) \<longrightarrow> key_satisfied backend entry)"
proof -
  have req: "requires_gap bname backend = [] \<longleftrightarrow> set (be_requires backend) \<subseteq> set (be_capabilities backend)"
    by (auto simp: requires_gap_def Let_def filter_empty_conv)
  have "(\<forall>(g, m) \<in> set (key_capability_gaps catalog bname backend). \<not> (policy = Strict \<or> m = MissingError)) \<longleftrightarrow>
      (\<forall>k entry. (k, entry) \<in> set (keys catalog) \<and> ke_backend entry = bname \<and>
        (policy = Strict \<or> ke_missing entry = MissingError) \<longrightarrow> key_satisfied backend entry)" (is "?l = ?r")
  proof
    assume l: ?l
    show ?r
    proof (intro allI impI, rule ccontr)
      fix k entry
      assume a: "(k, entry) \<in> set (keys catalog) \<and> ke_backend entry = bname \<and>
        (policy = Strict \<or> ke_missing entry = MissingError)" and "\<not> key_satisfied backend entry"
      then obtain g where "(g, ke_missing entry) \<in> set (key_gap bname backend (k, entry))"
        using key_gap_unsatisfied by blast
      with a have "(g, ke_missing entry) \<in> set (key_capability_gaps catalog bname backend)"
        by (auto simp: key_capability_gaps_def)
      with l a show False by blast
    qed
  next
    assume r: ?r
    show ?l
    proof (clarify)
      fix g m
      assume "(g, m) \<in> set (key_capability_gaps catalog bname backend)" and p: "policy = Strict \<or> m = MissingError"
      then obtain k entry where e: "(k, entry) \<in> set (keys catalog)" "(g, m) \<in> set (key_gap bname backend (k, entry))"
        by (auto simp: key_capability_gaps_def)
      then have "ke_backend entry = bname" "\<not> key_satisfied backend entry" "m = ke_missing entry"
        using key_gap_Nil [of bname backend k entry] key_gap_missing [OF e(2)] by auto
      with p have "policy = Strict \<or> ke_missing entry = MissingError" by simp
      with r e(1) \<open>ke_backend entry = bname\<close> \<open>\<not> key_satisfied backend entry\<close> show False by blast
    qed
  qed
  then show ?thesis using req by (auto simp: fatal_gaps_def filter_empty_conv)
qed

section \<open>Properties\<close>

text \<open>
  Capability enforcement is exact. With enforcement on, startup passes if and only if
  every backend that declares what it provides meets what the policy makes fatal: under
  \<open>strict\<close> its explicit requirements and every key routed to it, under \<open>degraded\<close> only the
  keys whose \<open>missing\<close> is \<open>error\<close>.
\<close>

theorem capability_enforcement_exact:
  assumes "policy \<noteq> Off"
  shows "(\<exists>summary. enforce_capabilities catalog policy = Inr summary) \<longleftrightarrow>
     (\<forall>bname backend. (bname, backend) \<in> set (backends catalog) \<and> \<not> undeclared backend \<longrightarrow>
        (policy = Strict \<longrightarrow> set (be_requires backend) \<subseteq> set (be_capabilities backend)) \<and>
        (\<forall>k entry. (k, entry) \<in> set (keys catalog) \<and> ke_backend entry = bname \<and>
           (policy = Strict \<or> ke_missing entry = MissingError) \<longrightarrow> key_satisfied backend entry))"
proof -
  have "concat (map (fatal_gaps catalog policy) (backends catalog)) = [] \<longleftrightarrow>
      (\<forall>bname backend. (bname, backend) \<in> set (backends catalog) \<longrightarrow> fatal_gaps catalog policy (bname, backend) = [])"
    by auto
  then show ?thesis unfolding enforce_eq(1) [OF assms] fatal_gaps_Nil [OF assms] by (simp only:) blast
qed

lemma capability_enforcement_exact_witness:
  "(\<exists>summary. enforce_capabilities \<lparr>backends = [(''b'', \<lparr>be_kind = Vault, be_addr = [], be_engines = [Kv2],
      be_capabilities = [], be_mint_key_types = [], be_requires = []\<rparr>)], keys = []\<rparr> Strict = Inr summary)"
  using capability_enforcement_exact [of Strict "\<lparr>backends = [(''b'', \<lparr>be_kind = Vault, be_addr = [], be_engines = [Kv2],
      be_capabilities = [], be_mint_key_types = [], be_requires = []\<rparr>)], keys = []\<rparr>"] by simp

end
