(* ===== verification/Audit_Record.thy ===== *)
theory Audit_Record
  imports Pdp
begin

text \<open>
  The per-request decision record (\<open>core/decision.rs\<close>). A Rust \<open>str\<close> is a byte string; the
  sanitiser walks its characters (\<open>utf8_chars\<close>). \<open>record\<close>, which only emits log events, is
  not modelled.

  Results: for every well-formed string the sanitised value has no control character and
  no line feed and is bounded; a record's outcome and reason tell the decision apart.
\<close>

datatype Outcome = OutcomeAllow | OutcomeDeny

fun outcome_as_str :: "Outcome \<Rightarrow> string" where
  "outcome_as_str OutcomeAllow = ''allow''"
| "outcome_as_str OutcomeDeny = ''deny''"

record DecisionRecord =
  dr_generation :: nat
  dr_op :: Op
  dr_key :: string
  dr_actor_kind :: string
  dr_actor_id :: string
  dr_authorization_domain :: "string option"
  dr_evidence_state :: string
  dr_authenticated_by :: "string list"
  dr_matching_subjects :: "string list"
  dr_matching_subject_count :: nat
  dr_no_match_subject_count :: nat
  dr_unavailable_subject_count :: nat
  dr_matching_subjects_truncated :: bool
  dr_presenter_kind :: string
  dr_presenter_id :: string
  dr_outcome :: Outcome
  dr_reason :: string

section \<open>Sanitising\<close>

definition MAX_CHARS :: nat where "MAX_CHARS = 256"

text \<open>The loop over \<open>value.chars().enumerate()\<close>, with its two locals.\<close>

fun sanitize_loop :: "nat \<Rightarrow> string list \<Rightarrow> string \<Rightarrow> string \<times> bool" where
  "sanitize_loop i [] sanitized = (sanitized, False)"
| "sanitize_loop i (ch # chs) sanitized =
     (if i \<ge> MAX_CHARS then (sanitized, True)
      else sanitize_loop (Suc i) chs (sanitized @ (if is_control ch then escape_default ch else ch)))"

definition sanitize_log_value :: "string \<Rightarrow> string" where
  "sanitize_log_value value =
     (case sanitize_loop 0 (utf8_chars value) [] of (sanitized, truncated) \<Rightarrow>
        if truncated then sanitized @ ''...[truncated]'' else sanitized)"

section \<open>Building records\<close>

fun proof_kind_str :: "ProofKind \<Rightarrow> string" where
  "proof_kind_str ProcessCredentials = ''process-credentials''"
| "proof_kind_str SystemdUnitProof = ''systemd-unit''"
| "proof_kind_str SignatureKey = ''signature-key''"
| "proof_kind_str ProviderJwt = ''provider-jwt''"

definition authenticated_by_strs :: "AuthenticatedActor \<Rightarrow> string list" where
  "authenticated_by_strs actor =
     map (\<lambda>p. case proof_fingerprint p of
            None \<Rightarrow> proof_kind_str (proof_kind p) @ '':'' @ proof_subject p
          | Some fp \<Rightarrow> proof_kind_str (proof_kind p) @ '':'' @ proof_subject p @ '':'' @ fp)
       (authenticated_by actor)"

definition presenter_kind :: "AuthenticatedActor \<Rightarrow> string" where
  "presenter_kind actor = (if pres_uid (presenter actor) \<noteq> None then ''unix_peercred'' else ''none'')"

definition presenter_id :: "AuthenticatedActor \<Rightarrow> string" where
  "presenter_id actor =
     (case pres_display_label (presenter actor) of
        Some label \<Rightarrow> label
      | None \<Rightarrow> (case pres_uid (presenter actor) of
          None \<Rightarrow> ''unknown'' | Some uid \<Rightarrow> ''uid:'' @ show_nat (unat uid)))"

definition presenter_from_peer :: "PeerInfo \<Rightarrow> string \<times> string" where
  "presenter_from_peer peer =
     ((if peer_uid peer \<noteq> None then ''unix_peercred'' else ''none''),
      (case peer_display_label peer of
        Some label \<Rightarrow> label
      | None \<Rightarrow> (case peer_uid peer of
          None \<Rightarrow> ''unknown'' | Some uid \<Rightarrow> ''uid:'' @ show_nat (unat uid))))"

fun allow_via_str :: "AllowVia \<Rightarrow> string" where
  "allow_via_str (ViaSubject subject) = ''subject:'' @ subject"
| "allow_via_str ViaPublicClass = ''public_class''"

fun deny_reason_str :: "DenyReason \<Rightarrow> string" where
  "deny_reason_str UnknownKey = ''unknown_key''"
| "deny_reason_str NixCachePurposeBound = ''nix_cache_purpose_bound''"
| "deny_reason_str NotWritable = ''not_writable''"
| "deny_reason_str IssuerRawSign = ''issuer_raw_sign''"
| "deny_reason_str NotPermitted = ''not_permitted''"

definition from_actor_decision ::
    "nat \<Rightarrow> AuthenticatedActor \<Rightarrow> Op \<Rightarrow> string \<Rightarrow> Decision \<Rightarrow> DecisionRecord" where
  "from_actor_decision generation actor op key dec =
     (let (outcome, reason) = (case dec of
          Allow via \<Rightarrow> (OutcomeAllow, allow_via_str via)
        | Deny reason \<Rightarrow> (OutcomeDeny, deny_reason_str reason))
      in \<lparr>dr_generation = generation, dr_op = op, dr_key = sanitize_log_value key,
          dr_actor_kind = ''subject'', dr_actor_id = sanitize_log_value (actor_subject actor),
          dr_authorization_domain = Some (domain_token (actor_domain actor)),
          dr_evidence_state = state_token StMatch,
          dr_authenticated_by = authenticated_by_strs actor,
          dr_matching_subjects = [], dr_matching_subject_count = 1,
          dr_no_match_subject_count = 0, dr_unavailable_subject_count = 0,
          dr_matching_subjects_truncated = False,
          dr_presenter_kind = presenter_kind actor, dr_presenter_id = presenter_id actor,
          dr_outcome = outcome, dr_reason = reason\<rparr>)"

definition from_resolution_error ::
    "nat \<Rightarrow> PeerInfo \<Rightarrow> Op \<Rightarrow> string \<Rightarrow> AuthorizationDomain option \<Rightarrow> EvidenceState \<Rightarrow> string \<Rightarrow> DecisionRecord" where
  "from_resolution_error generation peer op key authorization_domain evidence_state reason =
     (let (kind, ident) = presenter_from_peer peer
      in \<lparr>dr_generation = generation, dr_op = op, dr_key = sanitize_log_value key,
          dr_actor_kind = ''subject'', dr_actor_id = ''unresolved'',
          dr_authorization_domain = map_option domain_token authorization_domain,
          dr_evidence_state = state_token evidence_state,
          dr_authenticated_by = [],
          dr_matching_subjects = [], dr_matching_subject_count = 0,
          dr_no_match_subject_count = 0, dr_unavailable_subject_count = 0,
          dr_matching_subjects_truncated = False,
          dr_presenter_kind = kind, dr_presenter_id = ident,
          dr_outcome = OutcomeDeny, dr_reason = sanitize_log_value reason\<rparr>)"

definition from_subject_resolution_error ::
    "nat \<Rightarrow> PeerInfo \<Rightarrow> Op \<Rightarrow> string \<Rightarrow> SubjectResolutionError \<Rightarrow> string \<Rightarrow> DecisionRecord" where
  "from_subject_resolution_error generation peer op key err reason =
     (let r = from_resolution_error generation peer op key (sre_domain err) (sre_evidence_state err) reason;
          (m, n, u) = sre_subject_counts err
      in r\<lparr>dr_matching_subjects := map sanitize_log_value (sre_matching_subjects err),
           dr_matching_subject_count := m, dr_no_match_subject_count := n,
           dr_unavailable_subject_count := u,
           dr_matching_subjects_truncated := sre_truncated err\<rparr>)"

definition from_actor_evidence_denial ::
    "nat \<Rightarrow> AuthenticatedActor \<Rightarrow> Op \<Rightarrow> string \<Rightarrow> EvidenceState \<Rightarrow> string \<Rightarrow> DecisionRecord" where
  "from_actor_evidence_denial generation actor op key evidence_state reason =
     (from_actor_decision generation actor op key (Deny NotPermitted))
       \<lparr>dr_evidence_state := state_token evidence_state, dr_reason := sanitize_log_value reason\<rparr>"

section \<open>Characters of a concatenation\<close>

lemma takeWhile_stop: "ys = [] \<or> \<not> P (hd ys) \<Longrightarrow> takeWhile P (xs @ ys) = takeWhile P xs"
  by (induction xs) (cases ys, auto)

lemma dropWhile_stop: "ys = [] \<or> \<not> P (hd ys) \<Longrightarrow> dropWhile P (xs @ ys) = dropWhile P xs @ ys"
  by (induction xs) (cases ys, auto)

definition starts_char :: "string \<Rightarrow> bool" where
  "starts_char s \<longleftrightarrow> s = [] \<or> \<not> is_cont_byte (hd s)"

lemma utf8_chars_append: "starts_char ys \<Longrightarrow> utf8_chars (xs @ ys) = utf8_chars xs @ utf8_chars ys"
  by (induction xs rule: utf8_chars.induct)
    (auto simp: starts_char_def takeWhile_stop dropWhile_stop)

lemma utf8_chars_concat:
  "\<forall>x \<in> set xs. starts_char x \<and> x \<noteq> [] \<Longrightarrow> utf8_chars (concat xs) = concat (map utf8_chars xs)"
proof (induction xs)
  case (Cons x xs)
  have "starts_char (concat xs)" using Cons.prems by (cases xs) (auto simp: starts_char_def)
  with Cons show ?case by (simp add: utf8_chars_append)
qed simp

text \<open>A well-formed character: its lead byte announces its length.\<close>

definition char_ok :: "string \<Rightarrow> bool" where
  "char_ok ch = (case ch of
       [a] \<Rightarrow> byte_of a < 128
     | [a, b] \<Rightarrow> 194 \<le> byte_of a \<and> byte_of a < 224 \<and> is_cont_byte b
     | [a, b, c] \<Rightarrow> 224 \<le> byte_of a \<and> byte_of a < 240 \<and> is_cont_byte b \<and> is_cont_byte c
     | [a, b, c, d] \<Rightarrow> 240 \<le> byte_of a \<and> byte_of a < 245 \<and> is_cont_byte b \<and> is_cont_byte c \<and> is_cont_byte d
     | _ \<Rightarrow> False)"

definition utf8_ok :: "string \<Rightarrow> bool" where
  "utf8_ok s \<longleftrightarrow> list_all char_ok (utf8_chars s)"

lemma char_ok_starts: "char_ok ch \<Longrightarrow> starts_char ch \<and> ch \<noteq> []"
  by (auto simp: char_ok_def starts_char_def is_cont_byte_def split: list.splits)

lemma char_ok_single: "char_ok ch \<Longrightarrow> utf8_chars ch = [ch]"
  by (auto simp: char_ok_def split: list.splits)

lemma char_ok_newline: "char_ok ch \<Longrightarrow> CHR 0x0A \<in> set ch \<Longrightarrow> ch = [CHR 0x0A]"
  by (auto simp: char_ok_def is_cont_byte_def byte_of_def split: list.splits)

section \<open>What the sanitiser emits\<close>

definition printable :: "char \<Rightarrow> bool" where
  "printable c \<longleftrightarrow> 32 \<le> byte_of c \<and> byte_of c < 127"

lemma utf8_chars_printable: "list_all printable x \<Longrightarrow> utf8_chars x = map (\<lambda>c. [c]) x"
proof (induction x)
  case (Cons c x)
  then have "starts_char x" by (cases x) (auto simp: starts_char_def printable_def is_cont_byte_def)
  then have "takeWhile is_cont_byte x = []" "dropWhile is_cont_byte x = x"
    by (cases x; simp add: starts_char_def)+
  with Cons show ?case by simp
qed simp

lemma printable_char_ok: "printable c \<Longrightarrow> char_ok [c] \<and> \<not> is_control [c]"
  by (simp add: printable_def char_ok_def is_control_def Let_def)

lemma digit_char_printable: "d < 16 \<Longrightarrow> printable (digit_char d)"
  by (auto simp: digit_char_def printable_def byte_of_def)

lemma show_hex_printable: "list_all printable (show_base 16 n)"
proof (induction n rule: less_induct)
  case (less n)
  show ?case
  proof (cases "n < 16")
    case True
    then show ?thesis by (subst show_base.simps) (simp add: digit_char_printable)
  next
    case False
    then show ?thesis using less by (subst show_base.simps) (simp add: digit_char_printable)
  qed
qed

lemma show_hex_short: "n < 256 \<Longrightarrow> length (show_base 16 n) \<le> 2"
  by (subst show_base.simps, subst show_base.simps) (auto simp: less_mult_imp_div_less)

definition sanitize_char :: "string \<Rightarrow> string" where
  "sanitize_char ch = (if is_control ch then escape_default ch else ch)"

lemma escape_control: "is_control ch \<Longrightarrow>
    list_all printable (escape_default ch) \<and> escape_default ch \<noteq> [] \<and> length (escape_default ch) \<le> 6"
  using show_hex_printable [of "scalar_value ch"] show_hex_short [of "scalar_value ch"]
  by (auto simp: is_control_def escape_default_def Let_def printable_def byte_of_def)

lemma sanitize_char_chars:
  assumes "char_ok ch"
  shows "list_all (\<lambda>c. char_ok c \<and> \<not> is_control c) (utf8_chars (sanitize_char ch)) \<and>
     length (utf8_chars (sanitize_char ch)) \<le> 6 \<and> starts_char (sanitize_char ch) \<and> sanitize_char ch \<noteq> []"
proof (cases "is_control ch")
  case True
  note e = escape_control [OF True]
  then have "starts_char (escape_default ch)"
    by (cases "escape_default ch") (auto simp: starts_char_def printable_def is_cont_byte_def)
  with e True show ?thesis
    by (auto simp: sanitize_char_def utf8_chars_printable list_all_iff printable_char_ok)
next
  case False
  with assms char_ok_starts [OF assms] show ?thesis by (simp add: sanitize_char_def char_ok_single)
qed

lemma sanitize_loop_eq:
  "i \<le> MAX_CHARS \<Longrightarrow> sanitize_loop i chs acc =
     (acc @ concat (map sanitize_char (take (MAX_CHARS - i) chs)), length chs > MAX_CHARS - i)"
proof (induction chs arbitrary: i acc)
  case (Cons ch chs)
  then show ?case
    by (cases "i = MAX_CHARS") (auto simp: sanitize_char_def Suc_diff_le take_Cons' le_Suc_eq)
qed simp

lemma length_concat_le: "(\<And>x. x \<in> set xs \<Longrightarrow> length (f x) \<le> k) \<Longrightarrow> length (concat (map f xs)) \<le> k * length xs"
  by (induction xs) (auto intro: add_mono)

lemma sanitize_chars:
  assumes "utf8_ok s"
  shows "list_all (\<lambda>c. char_ok c \<and> \<not> is_control c) (utf8_chars (sanitize_log_value s)) \<and>
     length (utf8_chars (sanitize_log_value s)) \<le> 6 * MAX_CHARS + 14"
proof -
  define chs where "chs = take MAX_CHARS (utf8_chars s)"
  define pieces where "pieces = map sanitize_char chs"
  define tail where "tail = (if length (utf8_chars s) > MAX_CHARS then ''...[truncated]'' else [])"
  have v: "sanitize_log_value s = concat pieces @ tail"
    by (simp add: sanitize_log_value_def sanitize_loop_eq pieces_def chs_def tail_def)
  have ok: "\<forall>ch \<in> set chs. char_ok ch"
    using assms by (auto simp: utf8_ok_def list_all_iff chs_def dest: in_set_takeD)
  have t: "list_all printable tail" "length tail \<le> 14" by (simp_all add: tail_def printable_def byte_of_def)
  then have ts: "starts_char tail" by (cases tail) (auto simp: starts_char_def printable_def is_cont_byte_def)
  have p: "utf8_chars (concat pieces) = concat (map utf8_chars pieces)"
    using ok sanitize_char_chars by (intro utf8_chars_concat) (auto simp: pieces_def)
  have u: "utf8_chars (sanitize_log_value s) = concat (map utf8_chars pieces) @ map (\<lambda>c. [c]) tail"
    by (simp add: v utf8_chars_append [OF ts] p utf8_chars_printable [OF t(1)])
  have "length (concat (map (\<lambda>ch. utf8_chars (sanitize_char ch)) chs)) \<le> 6 * length chs"
    using ok sanitize_char_chars by (intro length_concat_le) blast
  also have "\<dots> \<le> 6 * MAX_CHARS" by (simp add: chs_def)
  finally have "length (utf8_chars (sanitize_log_value s)) \<le> 6 * MAX_CHARS + 14"
    using t(2) by (simp add: u pieces_def comp_def)
  moreover have "list_all (\<lambda>c. char_ok c \<and> \<not> is_control c) (utf8_chars (sanitize_log_value s))"
    using ok sanitize_char_chars t(1) printable_char_ok
    by (fastforce simp: u pieces_def list_all_iff)
  ultimately show ?thesis by blast
qed

lemma no_newline:
  assumes "list_all (\<lambda>c. char_ok c \<and> \<not> is_control c) (utf8_chars s)"
  shows "CHR 0x0A \<notin> set s"
proof
  assume "CHR 0x0A \<in> set s"
  then have "CHR 0x0A \<in> set (concat (utf8_chars s))" by simp
  then obtain ch where ch: "ch \<in> set (utf8_chars s)" "CHR 0x0A \<in> set ch"
    unfolding set_concat by blast
  with assms have "char_ok ch" "\<not> is_control ch" by (auto simp: list_all_iff)
  with char_ok_newline ch(2) have "\<not> is_control [CHR 0x0A]" by metis
  then show False by (simp add: is_control_def byte_of_def)
qed

section \<open>Properties\<close>

text \<open>
  A client-supplied value cannot forge a log line. For every well-formed string the
  sanitised value is well-formed, contains no control character and no line feed byte, and
  has at most \<open>6 * 256 + 14\<close> characters.
\<close>

theorem sanitized_value_safe:
  assumes "utf8_ok s"
  shows "utf8_ok (sanitize_log_value s) \<and> \<not> has_control (sanitize_log_value s) \<and>
     CHR 0x0A \<notin> set (sanitize_log_value s) \<and> length (utf8_chars (sanitize_log_value s)) \<le> 6 * MAX_CHARS + 14"
  using sanitize_chars [OF assms] no_newline
  by (auto simp: utf8_ok_def has_control_def list_all_iff list_ex_iff)

lemma sanitized_value_safe_witness:
  "\<not> has_control (sanitize_log_value [CHR ''a'', CHR 0x0A, CHR ''b'']) \<and>
   sanitize_log_value [CHR ''a'', CHR 0x0A, CHR ''b''] = [CHR ''a'', CHR 0x5C, CHR ''n'', CHR ''b'']"
proof -
  have "utf8_ok [CHR ''a'', CHR 0x0A, CHR ''b'']" by code_simp
  moreover have "sanitize_log_value [CHR ''a'', CHR 0x0A, CHR ''b''] = [CHR ''a'', CHR 0x5C, CHR ''n'', CHR ''b'']"
    by code_simp
  ultimately show ?thesis using sanitized_value_safe by blast
qed

end
