(* ===== verification/Loader_Catalog.thy ===== *)
theory Loader_Catalog
  imports Catalog_Schema Policy
begin

text \<open>
  Catalog validation of the loader (\<open>core/catalog/loader.rs\<close>, the part up to
  \<open>class_str\<close>), together with the loader's error and warning types. One definition per
  validator, in the order \<open>validate_key\<close> calls them; the first error ends the load.

  Results: the invariant an accepted catalog satisfies, entry by entry; key names that
  reach the logs are free of control characters; Nix verifier names are unique; the
  errors point at the right key.
\<close>

section \<open>Errors and warnings\<close>

datatype LoadWarning =
    MissingNatsType string
  | ComplexSubjectExpression string nat nat

definition load_warning_display :: "LoadWarning \<Rightarrow> string" where
  "load_warning_display w =
     (case w of
        MissingNatsType key \<Rightarrow>
          ''ed25519-nkey key `'' @ key @ ''` has no nats_type label; mint will fail for it''
      | ComplexSubjectExpression subject d leaves \<Rightarrow>
          ''subject `'' @ subject @ ''` expression has depth '' @ show_nat d @ '' and '' @ show_nat leaves @
          '' leaves; review policies above depth 4 or 16 leaves'')"

datatype LoadError =
    LeJson string
  | LeUnknownBackend string string
  | LeUnknownRole string string
  | LeLegacyCatalogV1
  | LeLegacyPolicyV2
  | LeEmptySubjectName
  | LeSubjectNameTooLong nat
  | LeInvalidSubjectShape string string
  | LeSubjectExpressionTooComplex string nat nat nat nat
  | LePredicateDomainMismatch string string string
  | LeSymbolicProcessIdentity string string string
  | LeLocalAccountResolution string string string
  | LeLocalAccountDatabase string string
  | LeEmptySignaturePublic string
  | LeMalformedSignaturePublic string string string
  | LeEmptyRuleSubjects string
  | LeUnknownSubject string string
  | LeDuplicateRuleId string
  | LeBlankDescription string
  | LeMissingKeyType string string
  | LeUnexpectedKeyType string
  | LeSealingKeyTypeNotX25519 string string
  | LeGenerateWithoutRecipe string string
  | LeUnexpectedGenerate string string
  | LeInvalidPkiPath string string
  | LeKv2SigningKeyTypeNotEd25519 string string
  | LeNonSpiffeJwtSvidAlg string string
  | LeMissingPublicPath string string
  | LeUnexpectedPublicPath string string
  | LeUnexpectedSealingPin string string
  | LeEmptySealingPin string
  | LeEmptyPinnedPartyIdentity string
  | LeInvalidNixCacheIdentity string string
  | LeDuplicateNixCacheKeyName string string string
  | LeDuplicateReservedLabel string string
  | LeInvalidReservedLabel string string string
  | LeBadGlob string GlobError
  | LeBadTerm string ActionTermError
  | LeBadKeyName string
  | LeBadSubjectName string
  | LeNonBreakGlassAnyTarget string

section \<open>Validators\<close>

fun class_str :: "Class \<Rightarrow> string" where
  "class_str Asymmetric = ''asymmetric''"
| "class_str Symmetric = ''symmetric''"
| "class_str ClassValue = ''value''"
| "class_str ClassPublic = ''public''"
| "class_str Sealing = ''sealing''"

definition seg_ok :: "string \<Rightarrow> bool" where
  "seg_ok seg = (case seg of
       [] \<Rightarrow> False
     | c # cs \<Rightarrow> (is_ascii_lowercase c \<or> is_ascii_digit c) \<and>
         list_all (\<lambda>c. is_ascii_lowercase c \<or> is_ascii_digit c \<or> c = CHR ''_'') cs)"

definition validate_key_name :: "string \<Rightarrow> LoadError + unit" where
  "validate_key_name nm =
     (if nm \<noteq> [] \<and> list_all seg_ok (split_on (CHR ''.'') nm) then Inr ()
      else Inl (LeBadKeyName (escape_str nm)))"

definition validate_backend_ref :: "Catalog \<Rightarrow> string \<Rightarrow> KeyEntry \<Rightarrow> LoadError + unit" where
  "validate_backend_ref catalog nm key =
     (if bt_get (backends catalog) (ke_backend key) \<noteq> None then Inr ()
      else Inl (LeUnknownBackend nm (ke_backend key)))"

definition validate_description :: "string \<Rightarrow> KeyEntry \<Rightarrow> LoadError + unit" where
  "validate_description nm key =
     (if \<not> is_blank (ke_description key) then Inr () else Inl (LeBlankDescription nm))"

definition require_key_type :: "string \<Rightarrow> KeyEntry \<Rightarrow> LoadError + unit" where
  "require_key_type nm key =
     (if ke_key_type key \<noteq> None then Inr () else Inl (LeMissingKeyType nm (class_str (ke_class key))))"

definition reject_key_type :: "string \<Rightarrow> KeyEntry \<Rightarrow> LoadError + unit" where
  "reject_key_type nm key = (if ke_key_type key = None then Inr () else Inl (LeUnexpectedKeyType nm))"

definition require_sealing_key_type :: "string \<Rightarrow> KeyEntry \<Rightarrow> LoadError + unit" where
  "require_sealing_key_type nm key =
     res_bind (require_key_type nm key) (\<lambda>_.
       case ke_key_type key of
         None \<Rightarrow> Inr ()
       | Some a \<Rightarrow> if a \<in> {X25519, MlKem512, MlKem768, MlKem1024} then Inr ()
           else Inl (LeSealingKeyTypeNotX25519 nm (alg_token a)))"

definition validate_key_type :: "string \<Rightarrow> KeyEntry \<Rightarrow> LoadError + unit" where
  "validate_key_type nm key =
     (case ke_class key of
        Asymmetric \<Rightarrow> require_key_type nm key
      | Symmetric \<Rightarrow> require_key_type nm key
      | Sealing \<Rightarrow> require_sealing_key_type nm key
      | ClassValue \<Rightarrow> reject_key_type nm key
      | ClassPublic \<Rightarrow> Inr ())"

definition validate_generate :: "string \<Rightarrow> KeyEntry \<Rightarrow> LoadError + unit" where
  "validate_generate nm key =
     (let is_recipe_class = (ke_class key = ClassValue \<or> ke_class key = ClassPublic) in
      if is_recipe_class \<and> ke_missing key = MissingGenerate \<and> ke_generate key = None
      then Inl (LeGenerateWithoutRecipe nm (class_str (ke_class key)))
      else if \<not> is_recipe_class \<and> ke_generate key \<noteq> None
      then Inl (LeUnexpectedGenerate nm (class_str (ke_class key)))
      else Inr ())"

definition is_pki_issue_path :: "string \<Rightarrow> bool" where
  "is_pki_issue_path path =
     (case split_on (CHR ''/'') path of
        mount # issue # _ # _ \<Rightarrow> starts_with ''pki'' mount \<and> issue = ''issue''
      | _ \<Rightarrow> False)"

definition validate_engine :: "string \<Rightarrow> KeyEntry \<Rightarrow> LoadError + unit" where
  "validate_engine nm key =
     (if ke_class key = Asymmetric \<and> ke_engine key = Some Kv2
      then (case ke_key_type key of
          None \<Rightarrow> Inr ()
        | Some a \<Rightarrow> if a = Ed25519 then Inr () else Inl (LeKv2SigningKeyTypeNotEd25519 nm (alg_token a)))
      else if ke_engine key \<noteq> Some Pki then Inr ()
      else if ke_class key = Asymmetric \<and> is_pki_issue_path (ke_path key) then Inr ()
      else Inl (LeInvalidPkiPath nm (ke_path key)))"

definition validate_jwt_svid_issuer_alg :: "string \<Rightarrow> KeyEntry \<Rightarrow> LoadError + unit" where
  "validate_jwt_svid_issuer_alg nm key =
     (if labels_get (ke_labels key) ''svid_kind'' \<noteq> Some ''jwt'' then Inr ()
      else case ke_key_type key of
          None \<Rightarrow> Inr ()
        | Some a \<Rightarrow> if is_spiffe_jwt_svid_profile a then Inr ()
            else Inl (LeNonSpiffeJwtSvidAlg nm (alg_token a)))"

definition validate_public_path :: "string \<Rightarrow> KeyEntry \<Rightarrow> LoadError + unit" where
  "validate_public_path nm key =
     (let has_path = (case ke_public_path key of Some p \<Rightarrow> \<not> is_blank p | None \<Rightarrow> False) in
      if is_materialize_to_use key
      then if has_path then Inr () else Inl (LeMissingPublicPath nm (class_str (ke_class key)))
      else if ke_public_path key = None then Inr ()
      else Inl (LeUnexpectedPublicPath nm (class_str (ke_class key))))"

definition validate_sealing_pin :: "string \<Rightarrow> KeyEntry \<Rightarrow> LoadError + unit" where
  "validate_sealing_pin nm key =
     (case ke_sealing_pin key of
        None \<Rightarrow> Inr ()
      | Some pin \<Rightarrow>
          if ke_class key \<noteq> Sealing then Inl (LeUnexpectedSealingPin nm (class_str (ke_class key)))
          else if \<not> is_configured pin then Inl (LeEmptySealingPin nm)
          else (case parties pin of
              Some p \<Rightarrow> if party_u p = Some [] \<or> party_v p = Some [] then Inl (LeEmptyPinnedPartyIdentity nm) else Inr ()
            | None \<Rightarrow> Inr ()))"

definition valid_nix_cache_key_name :: "string \<Rightarrow> bool" where
  "valid_nix_cache_key_name nm \<longleftrightarrow>
     1 \<le> length nm \<and> length nm \<le> 128 \<and>
     (case nm of [] \<Rightarrow> False | c # cs \<Rightarrow> is_ascii_alphanumeric c \<and>
        list_all (\<lambda>b. is_ascii_alphanumeric b \<or> b = CHR ''.'' \<or> b = CHR ''_'' \<or> b = CHR ''-'') cs)"

definition validate_nix_cache_identity :: "Catalog \<Rightarrow> string \<Rightarrow> KeyEntry \<Rightarrow> LoadError + unit" where
  "validate_nix_cache_identity catalog nm key =
     (case ke_nix_cache key of
        None \<Rightarrow> Inr ()
      | Some ident \<Rightarrow>
          let invalid = (\<lambda>reason. Inl (LeInvalidNixCacheIdentity nm reason)) in
          if ke_class key \<noteq> Asymmetric then invalid ''class must be asymmetric''
          else if ke_key_type key \<noteq> Some Ed25519 then invalid ''keyType must be ed25519''
          else if effective_engine key \<noteq> Transit then invalid ''engine must be transit''
          else if is_blank (ke_path key) then invalid ''backend path must not be blank''
          else if ke_missing key = MissingGenerate
          then invalid ''missing=generate is forbidden; use explicit Nix cache enrollment''
          else (case bt_get (backends catalog) (ke_backend key) of
              None \<Rightarrow> invalid ''backend must exist''
            | Some backend \<Rightarrow>
                if be_kind backend \<noteq> Vault then invalid ''backend must be OpenBao or Vault transit''
                else if backend_version ident \<noteq> 1 then invalid ''backendVersion must be 1''
                else if \<not> valid_nix_cache_key_name (key_name ident)
                then invalid ''keyName must match [A-Za-z0-9][A-Za-z0-9._-]{0,127}''
                else (case (nix_state ident, public_key ident) of
                    (Pending, None) \<Rightarrow> Inr ()
                  | (Enrolled, Some _) \<Rightarrow> Inr ()
                  | (Pending, Some _) \<Rightarrow> invalid ''pending state forbids publicKey''
                  | (Enrolled, None) \<Rightarrow> invalid ''enrolled state requires publicKey'')))"

section \<open>Reserved labels\<close>

definition reserved_labels :: "string list" where
  "reserved_labels = [''crypto_provider'', ''crypto_provider_version'', ''pqc_algorithm'', ''pqc_custody'',
     ''pqc_storage_key'', ''crypto_provider_policy'', ''migration_target'', ''broker_key_use'']"

definition is_reserved_label :: "string \<Rightarrow> bool" where
  "is_reserved_label label \<longleftrightarrow> label \<in> set reserved_labels"

definition reserved_label_value_ok :: "string \<Rightarrow> string \<Rightarrow> bool" where
  "reserved_label_value_ok label value =
     (if label = ''crypto_provider'' then value \<in> {''vault-transit'', ''local-software''}
      else if label = ''pqc_algorithm''
      then value \<in> {''ml-dsa-44'', ''ml-dsa-65'', ''ml-dsa-87'', ''ml-kem-512'', ''ml-kem-768'', ''ml-kem-1024''}
      else if label = ''pqc_custody'' then value \<in> {''backend-native'', ''software-encrypted''}
      else if label = ''crypto_provider_policy''
      then value \<in> {''backend-preferred'', ''backend-required'', ''local-software''}
      else if label \<in> {''crypto_provider_version'', ''migration_target'', ''pqc_storage_key''}
      then \<not> is_blank value
      else if label = ''broker_key_use''
      then value \<in> {''response-signing'', ''request-encryption'', ''response-encryption''}
      else True)"

definition validate_reserved_label_value :: "string \<Rightarrow> string \<Rightarrow> string \<Rightarrow> LoadError + unit" where
  "validate_reserved_label_value nm label value =
     (if reserved_label_value_ok label value then Inr ()
      else Inl (LeInvalidReservedLabel nm label ''unsupported or empty value''))"

definition validate_bare_reserved_label :: "string \<Rightarrow> string \<Rightarrow> LoadError + unit" where
  "validate_bare_reserved_label nm label =
     (if \<not> is_reserved_label label then Inr ()
      else Inl (LeInvalidReservedLabel nm label ''reserved labels must use name=value form''))"

text \<open>The set of labels seen so far is threaded through the loop.\<close>

definition record_reserved_label :: "string \<Rightarrow> string \<Rightarrow> string list \<Rightarrow> LoadError + string list" where
  "record_reserved_label nm label seen =
     (if label \<notin> set seen then Inr (label # seen) else Inl (LeDuplicateReservedLabel nm label))"

definition validate_reserved_label :: "string \<Rightarrow> string \<Rightarrow> string list \<Rightarrow> LoadError + string list" where
  "validate_reserved_label nm label seen =
     (case split_once (CHR ''='') label of
        None \<Rightarrow> res_bind (validate_bare_reserved_label nm label) (\<lambda>_. Inr seen)
      | Some (label_key, value) \<Rightarrow>
          if \<not> is_reserved_label label_key then Inr seen
          else res_bind (record_reserved_label nm label_key seen) (\<lambda>seen'.
               res_bind (validate_reserved_label_value nm label_key value) (\<lambda>_. Inr seen')))"

fun reserved_labels_loop :: "string \<Rightarrow> string list \<Rightarrow> string list \<Rightarrow> LoadError + unit" where
  "reserved_labels_loop nm [] seen = Inr ()"
| "reserved_labels_loop nm (label # rest) seen =
     res_bind (validate_reserved_label nm label seen) (\<lambda>seen'. reserved_labels_loop nm rest seen')"

definition validate_reserved_labels :: "string \<Rightarrow> KeyEntry \<Rightarrow> LoadError + unit" where
  "validate_reserved_labels nm key = reserved_labels_loop nm (ke_labels key) []"

definition warn_missing_nats_type :: "string \<Rightarrow> KeyEntry \<Rightarrow> LoadWarning list \<Rightarrow> LoadWarning list" where
  "warn_missing_nats_type nm key warns =
     (if ke_key_type key = Some Ed25519Nkey \<and> \<not> has_nats_type (ke_labels key)
      then warns @ [MissingNatsType nm] else warns)"

section \<open>The catalog\<close>

definition validate_key ::
    "Catalog \<Rightarrow> string \<Rightarrow> KeyEntry \<Rightarrow> LoadWarning list \<Rightarrow> LoadError + LoadWarning list" where
  "validate_key catalog nm key warns =
     res_bind (validate_key_name nm) (\<lambda>_.
     res_bind (validate_backend_ref catalog nm key) (\<lambda>_.
     res_bind (validate_description nm key) (\<lambda>_.
     res_bind (validate_key_type nm key) (\<lambda>_.
     res_bind (validate_generate nm key) (\<lambda>_.
     res_bind (validate_engine nm key) (\<lambda>_.
     res_bind (validate_jwt_svid_issuer_alg nm key) (\<lambda>_.
     res_bind (validate_public_path nm key) (\<lambda>_.
     res_bind (validate_sealing_pin nm key) (\<lambda>_.
     res_bind (validate_nix_cache_identity catalog nm key) (\<lambda>_.
     res_bind (validate_reserved_labels nm key) (\<lambda>_.
     Inr (warn_missing_nats_type nm key warns))))))))))))"

text \<open>\<open>nix_key_names\<close> maps a verifier name to the first key that declared it.\<close>

fun validate_keys_loop ::
    "Catalog \<Rightarrow> (string \<times> KeyEntry) list \<Rightarrow> (string, string) btree \<Rightarrow> LoadWarning list \<Rightarrow>
     LoadError + LoadWarning list" where
  "validate_keys_loop catalog [] nix_key_names warns = Inr warns"
| "validate_keys_loop catalog ((nm, key) # rest) nix_key_names warns =
     res_bind (validate_key catalog nm key warns) (\<lambda>warns'.
       case ke_nix_cache key of
         Some ident \<Rightarrow>
           (case bt_get nix_key_names (key_name ident) of
              Some first_key \<Rightarrow> Inl (LeDuplicateNixCacheKeyName (key_name ident) first_key nm)
            | None \<Rightarrow> validate_keys_loop catalog rest (bt_insert (key_name ident) nm nix_key_names) warns')
       | None \<Rightarrow> validate_keys_loop catalog rest nix_key_names warns')"

definition validate_catalog :: "Catalog \<Rightarrow> LoadError + LoadWarning list" where
  "validate_catalog catalog = validate_keys_loop catalog (keys catalog) [] []"

section \<open>What an accepted entry satisfies\<close>

definition key_name_ok :: "string \<Rightarrow> bool" where
  "key_name_ok nm \<longleftrightarrow> nm \<noteq> [] \<and> (\<forall>seg \<in> set (split_on (CHR ''.'') nm). seg_ok seg)"

definition key_type_ok :: "KeyEntry \<Rightarrow> bool" where
  "key_type_ok key \<longleftrightarrow>
     (ke_class key \<in> {Asymmetric, Symmetric, Sealing} \<longrightarrow> ke_key_type key \<noteq> None) \<and>
     (ke_class key = Sealing \<longrightarrow> ke_key_type key \<in> Some ` {X25519, MlKem512, MlKem768, MlKem1024}) \<and>
     (ke_class key = ClassValue \<longrightarrow> ke_key_type key = None)"

definition generate_ok :: "KeyEntry \<Rightarrow> bool" where
  "generate_ok key \<longleftrightarrow>
     (if ke_class key \<in> {ClassValue, ClassPublic}
      then ke_missing key = MissingGenerate \<longrightarrow> ke_generate key \<noteq> None
      else ke_generate key = None)"

definition engine_ok :: "KeyEntry \<Rightarrow> bool" where
  "engine_ok key \<longleftrightarrow>
     (ke_class key = Asymmetric \<and> ke_engine key = Some Kv2 \<longrightarrow> ke_key_type key \<in> {None, Some Ed25519}) \<and>
     (ke_engine key = Some Pki \<longrightarrow> ke_class key = Asymmetric \<and> is_pki_issue_path (ke_path key))"

definition jwt_alg_ok :: "KeyEntry \<Rightarrow> bool" where
  "jwt_alg_ok key \<longleftrightarrow>
     (\<forall>a. labels_get (ke_labels key) ''svid_kind'' = Some ''jwt'' \<longrightarrow> ke_key_type key = Some a \<longrightarrow>
        is_spiffe_jwt_svid_profile a)"

definition public_path_ok :: "KeyEntry \<Rightarrow> bool" where
  "public_path_ok key \<longleftrightarrow>
     (if is_materialize_to_use key then \<exists>p. ke_public_path key = Some p \<and> \<not> is_blank p
      else ke_public_path key = None)"

definition sealing_pin_ok :: "KeyEntry \<Rightarrow> bool" where
  "sealing_pin_ok key \<longleftrightarrow>
     (\<forall>pin. ke_sealing_pin key = Some pin \<longrightarrow> ke_class key = Sealing \<and> is_configured pin \<and>
        (\<forall>p. parties pin = Some p \<longrightarrow> party_u p \<noteq> Some [] \<and> party_v p \<noteq> Some []))"

definition nix_cache_ok :: "Catalog \<Rightarrow> KeyEntry \<Rightarrow> bool" where
  "nix_cache_ok catalog key \<longleftrightarrow>
     (\<forall>ident. ke_nix_cache key = Some ident \<longrightarrow>
        ke_class key = Asymmetric \<and> ke_key_type key = Some Ed25519 \<and> effective_engine key = Transit \<and>
        \<not> is_blank (ke_path key) \<and> ke_missing key \<noteq> MissingGenerate \<and>
        (\<exists>b. bt_get (backends catalog) (ke_backend key) = Some b \<and> be_kind b = Vault) \<and>
        backend_version ident = 1 \<and> valid_nix_cache_key_name (key_name ident) \<and>
        (nix_state ident = Enrolled \<longleftrightarrow> public_key ident \<noteq> None))"

fun reserved_keys :: "string list \<Rightarrow> string list" where
  "reserved_keys [] = []"
| "reserved_keys (l # ls) =
     (case split_once (CHR ''='') l of
        Some (k, v) \<Rightarrow> if is_reserved_label k then k # reserved_keys ls else reserved_keys ls
      | None \<Rightarrow> reserved_keys ls)"

definition label_ok :: "string \<Rightarrow> bool" where
  "label_ok l \<longleftrightarrow>
     (case split_once (CHR ''='') l of
        None \<Rightarrow> \<not> is_reserved_label l
      | Some (k, v) \<Rightarrow> is_reserved_label k \<longrightarrow> reserved_label_value_ok k v)"

definition labels_ok :: "KeyEntry \<Rightarrow> bool" where
  "labels_ok key \<longleftrightarrow> (\<forall>l \<in> set (ke_labels key). label_ok l) \<and> distinct (reserved_keys (ke_labels key))"

definition entry_ok :: "Catalog \<Rightarrow> string \<Rightarrow> KeyEntry \<Rightarrow> bool" where
  "entry_ok catalog nm key \<longleftrightarrow>
     key_name_ok nm \<and> bt_get (backends catalog) (ke_backend key) \<noteq> None \<and> \<not> is_blank (ke_description key) \<and>
     key_type_ok key \<and> generate_ok key \<and> engine_ok key \<and> jwt_alg_ok key \<and> public_path_ok key \<and>
     sealing_pin_ok key \<and> nix_cache_ok catalog key \<and> labels_ok key"

fun nix_names :: "(string \<times> KeyEntry) list \<Rightarrow> string list" where
  "nix_names [] = []"
| "nix_names ((nm, key) # rest) =
     (case ke_nix_cache key of Some ident \<Rightarrow> key_name ident # nix_names rest | None \<Rightarrow> nix_names rest)"

definition catalog_ok :: "Catalog \<Rightarrow> bool" where
  "catalog_ok catalog \<longleftrightarrow>
     (\<forall>nm key. (nm, key) \<in> set (keys catalog) \<longrightarrow> entry_ok catalog nm key) \<and> distinct (nix_names (keys catalog))"

section \<open>The validators decide these predicates\<close>

lemma validate_key_name_iff: "validate_key_name nm = Inr u \<longleftrightarrow> key_name_ok nm"
  by (simp add: validate_key_name_def key_name_ok_def list_all_iff)

lemma validate_backend_ref_iff:
  "validate_backend_ref catalog nm key = Inr u \<longleftrightarrow> bt_get (backends catalog) (ke_backend key) \<noteq> None"
  by (simp add: validate_backend_ref_def)

lemma validate_description_iff: "validate_description nm key = Inr u \<longleftrightarrow> \<not> is_blank (ke_description key)"
  by (simp add: validate_description_def)

lemma validate_key_type_iff: "validate_key_type nm key = Inr u \<longleftrightarrow> key_type_ok key"
  by (cases "ke_class key"; cases "ke_key_type key")
    (auto simp: validate_key_type_def key_type_ok_def require_key_type_def reject_key_type_def
      require_sealing_key_type_def)

lemma validate_generate_iff: "validate_generate nm key = Inr u \<longleftrightarrow> generate_ok key"
  by (auto simp: validate_generate_def generate_ok_def Let_def)

lemma validate_engine_iff: "validate_engine nm key = Inr u \<longleftrightarrow> engine_ok key"
  by (auto simp: validate_engine_def engine_ok_def split: option.splits)

lemma validate_jwt_iff: "validate_jwt_svid_issuer_alg nm key = Inr u \<longleftrightarrow> jwt_alg_ok key"
  by (auto simp: validate_jwt_svid_issuer_alg_def jwt_alg_ok_def split: option.splits)

lemma validate_public_path_iff: "validate_public_path nm key = Inr u \<longleftrightarrow> public_path_ok key"
  by (auto simp: validate_public_path_def public_path_ok_def Let_def split: option.splits)

lemma validate_sealing_pin_iff: "validate_sealing_pin nm key = Inr u \<longleftrightarrow> sealing_pin_ok key"
  by (auto simp: validate_sealing_pin_def sealing_pin_ok_def split: option.splits)

lemma validate_nix_iff: "validate_nix_cache_identity catalog nm key = Inr u \<longleftrightarrow> nix_cache_ok catalog key"
proof (cases "ke_nix_cache key")
  case (Some ident)
  then show ?thesis
    by (cases "nix_state ident"; cases "public_key ident"; cases "bt_get (backends catalog) (ke_backend key)")
      (auto simp: validate_nix_cache_identity_def nix_cache_ok_def Let_def split: if_splits)
qed (simp add: validate_nix_cache_identity_def nix_cache_ok_def)

lemma reserved_labels_loop_iff:
  "reserved_labels_loop nm ls seen = Inr u \<longleftrightarrow>
     (\<forall>l \<in> set ls. label_ok l) \<and> distinct (reserved_keys ls) \<and> set (reserved_keys ls) \<inter> set seen = {}"
proof (induction ls arbitrary: seen)
  case (Cons l ls)
  show ?case
  proof (cases "split_once (CHR ''='') l")
    case None
    with Cons show ?thesis
      by (auto simp: validate_reserved_label_def validate_bare_reserved_label_def label_ok_def)
  next
    case (Some kv)
    obtain k v where "kv = (k, v)" by fastforce
    with Some Cons show ?thesis
      by (auto simp: validate_reserved_label_def record_reserved_label_def
          validate_reserved_label_value_def label_ok_def)
  qed
qed simp

lemma validate_reserved_labels_iff: "validate_reserved_labels nm key = Inr u \<longleftrightarrow> labels_ok key"
  by (simp add: validate_reserved_labels_def labels_ok_def reserved_labels_loop_iff)

lemmas validators_iff =
  validate_key_name_iff validate_backend_ref_iff validate_description_iff validate_key_type_iff
  validate_generate_iff validate_engine_iff validate_jwt_iff validate_public_path_iff
  validate_sealing_pin_iff validate_nix_iff validate_reserved_labels_iff

lemma validate_key_Inr:
  "validate_key catalog nm key warns = Inr warns' \<longleftrightarrow>
     entry_ok catalog nm key \<and> warns' = warn_missing_nats_type nm key warns"
  by (auto simp: validate_key_def validators_iff entry_ok_def)

text \<open>
  The warnings, read off the entries: an NKey is expected to carry a label \<open>nats_type=\<close> with one
  of the six role letters, and of several such labels the first one counts.
\<close>

definition nats_role_labelled :: "string list \<Rightarrow> bool" where
  "nats_role_labelled ls \<longleftrightarrow>
     (case find (\<lambda>l. take 10 l = ''nats_type='') ls of
        Some l \<Rightarrow> drop 10 l \<in> {''A'', ''C'', ''N'', ''O'', ''U'', ''X''}
      | None \<Rightarrow> False)"

definition nats_warnings :: "(string \<times> KeyEntry) list \<Rightarrow> LoadWarning list" where
  "nats_warnings ks = map (\<lambda>(nm, _). MissingNatsType nm)
     (filter (\<lambda>(_, key). ke_key_type key = Some Ed25519Nkey \<and> \<not> nats_role_labelled (ke_labels key)) ks)"

lemma split_once_label:
  "split_once (CHR ''='') l = Some (''nats_type'', v) \<longleftrightarrow> take 10 l = ''nats_type='' \<and> v = drop 10 l"
proof -
  have "split_once (CHR ''='') l = Some (''nats_type'', v) \<longleftrightarrow> l = ''nats_type='' @ v"
    by (simp add: split_once_Some)
  also have "\<dots> \<longleftrightarrow> take 10 l = ''nats_type='' \<and> v = drop 10 l"
  proof
    assume "take 10 l = ''nats_type='' \<and> v = drop 10 l"
    then show "l = ''nats_type='' @ v" by (metis append_take_drop_id)
  qed simp
  finally show ?thesis .
qed

lemma labels_get_nats: "labels_get ls ''nats_type'' = map_option (drop 10) (find (\<lambda>l. take 10 l = ''nats_type='') ls)"
proof (induction ls)
  case (Cons l ls)
  show ?case
  proof (cases "take 10 l = ''nats_type=''")
    case True
    then have "split_once (CHR ''='') l = Some (''nats_type'', drop 10 l)" by (simp add: split_once_label)
    with True show ?thesis by simp
  next
    case False
    then have "\<forall>v. split_once (CHR ''='') l \<noteq> Some (''nats_type'', v)" by (simp add: split_once_label)
    with False Cons show ?thesis by (auto split: option.splits)
  qed
qed simp

lemma role_letter: "(case utf8_chars v of [c] \<Rightarrow> from_letter c | _ \<Rightarrow> None) \<noteq> None \<longleftrightarrow>
    v \<in> {''A'', ''C'', ''N'', ''O'', ''U'', ''X''}"
proof
  assume "(case utf8_chars v of [c] \<Rightarrow> from_letter c | _ \<Rightarrow> None) \<noteq> None"
  then obtain c r where c: "utf8_chars v = [c]" "from_letter c = Some r" by (auto split: list.splits)
  then have "v = letter r" using concat_utf8_chars [of v] from_letter_Some by fastforce
  then show "v \<in> {''A'', ''C'', ''N'', ''O'', ''U'', ''X''}" by (cases r) simp_all
qed (auto simp: from_letter_def NkeyType_ALL_def)

lemma has_nats_type_iff: "has_nats_type ls \<longleftrightarrow> nats_role_labelled ls"
  unfolding has_nats_type_def nats_type_def labels_get_nats nats_role_labelled_def
  by (cases "find (\<lambda>l. take 10 l = ''nats_type='') ls") (simp_all add: role_letter [simplified])

lemma nats_warnings_Nil [simp]: "nats_warnings [] = []"
  by (simp add: nats_warnings_def)

lemma nats_warnings_Cons [simp]:
  "nats_warnings ((nm, key) # rest) = warn_missing_nats_type nm key [] @ nats_warnings rest"
  by (simp add: nats_warnings_def warn_missing_nats_type_def has_nats_type_iff)

lemma warn_append: "warn_missing_nats_type nm key ws = ws @ warn_missing_nats_type nm key []"
  by (simp add: warn_missing_nats_type_def)

lemma validate_keys_loop_iff:
  "bt_wf seen \<Longrightarrow> validate_keys_loop catalog ks seen warns = Inr warns' \<longleftrightarrow>
     (\<forall>nm key. (nm, key) \<in> set ks \<longrightarrow> entry_ok catalog nm key) \<and> distinct (nix_names ks) \<and>
     (\<forall>n \<in> set (nix_names ks). bt_get seen n = None) \<and> warns' = warns @ nats_warnings ks"
proof (induction ks arbitrary: seen warns)
  case (Cons x ks)
  obtain nm key where x: "x = (nm, key)" by fastforce
  show ?case
  proof (cases "ke_nix_cache key")
    case None
    with Cons x show ?thesis
      by (auto simp: validate_key_Inr warn_append [of nm key warns])
  next
    case (Some ident)
    show ?thesis
    proof (cases "bt_get seen (key_name ident)")
      case no: None
      have "bt_wf (bt_insert (key_name ident) nm seen)" using Cons.prems by simp
      from Cons.IH [OF this] Some no x show ?thesis
        by (auto simp: validate_key_Inr warn_append [of nm key warns] bt_get_insert split: if_splits)
    next
      case (Some f)
      with \<open>ke_nix_cache key = Some ident\<close> x show ?thesis by auto
    qed
  qed
qed auto

section \<open>Names\<close>

lemma seg_ok_chars: "seg_ok seg \<Longrightarrow> c \<in> set seg \<Longrightarrow> is_ascii_lowercase c \<or> is_ascii_digit c \<or> c = CHR ''_''"
  by (auto simp: seg_ok_def list_all_iff split: list.splits)

lemma set_join: "set (join_with sep xs) \<subseteq> set sep \<union> (\<Union>x \<in> set xs. set x)"
  by (induction sep xs rule: join_with.induct) auto

lemma key_name_chars:
  assumes "key_name_ok nm" and "c \<in> set nm"
  shows "is_ascii_lowercase c \<or> is_ascii_digit c \<or> c = CHR ''_'' \<or> c = CHR ''.''"
proof -
  have "c \<in> set (join_with [CHR ''.''] (split_on (CHR ''.'') nm))" using assms(2) by (simp only: join_split)
  then have "c \<in> set [CHR ''.''] \<union> (\<Union>x \<in> set (split_on (CHR ''.'') nm). set x)"
    by (rule subsetD [OF set_join])
  then consider "c = CHR ''.''" | seg where "seg \<in> set (split_on (CHR ''.'') nm)" "c \<in> set seg" by auto
  then show ?thesis
  proof cases
    case 2
    from assms(1) 2(1) have "seg_ok seg" by (simp add: key_name_ok_def list_all_iff)
    from seg_ok_chars [OF this 2(2)] show ?thesis by blast
  qed simp
qed

section \<open>Accepted catalogs\<close>

lemma validate_catalog_iff:
  "validate_catalog catalog = Inr warns \<longleftrightarrow> catalog_ok catalog \<and> warns = nats_warnings (keys catalog)"
  by (auto simp: validate_catalog_def catalog_ok_def validate_keys_loop_iff [OF bt_wf_Nil] bt_get_def)

lemma accepted_entry:
  "validate_catalog catalog = Inr warns \<Longrightarrow> (nm, key) \<in> set (keys catalog) \<Longrightarrow> entry_ok catalog nm key"
  by (simp add: validate_catalog_iff catalog_ok_def)

lemma key_name_glob:
  assumes "key_name_ok nm"
  defines "ls \<equiv> split_on (CHR ''.'') nm"
  shows "KeyGlob_parse nm = Inr (Pattern (map Literal ls))" and "glob_wf (Pattern (map Literal ls))"
proof -
  have ne: "ls \<noteq> []" by (simp add: ls_def)
  have lit: "lit_ok l" if "l \<in> set ls" for l
  proof -
    have "seg_ok l" using assms that by (simp add: key_name_ok_def)
    moreover have "l \<noteq> []" using \<open>seg_ok l\<close> by (auto simp: seg_ok_def)
    ultimately show ?thesis using seg_ok_chars [of l "CHR ''.''"] seg_ok_chars [of l "CHR ''*''"]
      by (auto simp: lit_ok_def is_ascii_lowercase_def is_ascii_digit_def byte_of_def)
  qed
  from ne lit show wf: "glob_wf (Pattern (map Literal ls))"
    by (auto simp: glob_wf_def is_lit_def last_ok_def last_map map_butlast [symmetric] dest: in_set_butlastD)
  have "map seg_source (map Literal ls) = ls" by (simp add: comp_def)
  then have "source (Pattern (map Literal ls)) = nm" by (simp add: ls_def join_split comp_def)
  with parse_of_source [OF wf] show "KeyGlob_parse nm = Inr (Pattern (map Literal ls))" by simp
qed

lemma map_butlast_last: "xs \<noteq> [] \<Longrightarrow> map f xs = map f (butlast xs) @ [f (last xs)]"
  by (induction xs) auto

lemma literal_glob_matches:
  assumes "key_name_ok nm"
  shows "glob_matches (Pattern (map Literal (split_on (CHR ''.'') nm))) k \<longleftrightarrow> k = nm"
proof -
  let ?ls = "split_on (CHR ''.'') nm"
  have split: "map Literal ?ls = map Literal (butlast ?ls) @ [Literal (last ?ls)]"
    by (rule map_butlast_last) simp
  have "glob_matches (Pattern (map Literal ?ls)) k \<longleftrightarrow> split_on (CHR ''.'') k = ?ls"
    unfolding split by (simp add: glob_matches_def pattern_matches_iff)
  also have "\<dots> \<longleftrightarrow> k = nm" by (metis join_split)
  finally show ?thesis .
qed


text \<open>
  The name grammar of an accepted catalog makes every key individually grantable: the
  key's name, written as a rule target, parses, and the parsed glob matches that key and no
  other string, so no name of a catalog can be read as a wildcard.
\<close>

theorem accepted_name_targets_itself:
  assumes "validate_catalog catalog = Inr warns" and "(nm, key) \<in> set (keys catalog)"
  shows "\<exists>g. KeyGlob_parse nm = Inr g \<and> (\<forall>k. glob_matches g k \<longleftrightarrow> k = nm)"
proof -
  have "key_name_ok nm" using accepted_entry [OF assms] by (simp add: entry_ok_def)
  with key_name_glob(1) literal_glob_matches show ?thesis by blast
qed

definition demo_key :: KeyEntry where
  "demo_key = \<lparr>ke_class = Sealing, ke_key_type = Some X25519, ke_backend = ''bao'', ke_engine = None,
     ke_path = ''p'', ke_public_path = Some ''pub'', ke_writable = False, ke_missing = MissingError,
     ke_nix_cache = None, ke_generate = None,
     ke_sealing_pin = Some \<lparr>parties = Some \<lparr>party_u = Some ''a'', party_v = None\<rparr>, external_aad = []\<rparr>,
     ke_labels = [''team''], ke_description = ''d''\<rparr>"

definition demo_loaded_catalog :: Catalog where
  "demo_loaded_catalog =
     \<lparr>backends = [(''bao'', \<lparr>be_kind = Vault, be_addr = ''a'', be_engines = [Kv2], be_capabilities = [],
        be_mint_key_types = [], be_requires = []\<rparr>)],
      keys = [(''db.main'', demo_key)]\<rparr>"

lemma demo_loaded_ok: "validate_catalog demo_loaded_catalog = Inr []"
  by code_simp

lemma demo_loaded_mem: "(''db.main'', demo_key) \<in> set (keys demo_loaded_catalog)"
  by (simp add: demo_loaded_catalog_def)

lemma accepted_name_targets_itself_witness:
  "validate_catalog demo_loaded_catalog = Inr [] \<and>
   (\<exists>g. KeyGlob_parse ''db.main'' = Inr g \<and> (\<forall>k. glob_matches g k \<longleftrightarrow> k = ''db.main''))"
  using demo_loaded_ok accepted_name_targets_itself [OF demo_loaded_ok demo_loaded_mem] by simp

text \<open>
  Validation discharges a later failure: in an accepted catalog the pinned parties of
  every sealing key convert to the parties of the key-derivation context, so the conversion
  in the unseal path cannot reject a pin of a loaded catalog.
\<close>

theorem accepted_sealing_pin_converts:
  assumes "validate_catalog catalog = Inr warns" and "(nm, key) \<in> set (keys catalog)"
    and "ke_sealing_pin key = Some pin" and "parties pin = Some p"
  shows "\<exists>k. to_kdf_parties p = Inr k"
  using accepted_entry [OF assms(1,2)] assms(3,4)
  by (simp add: entry_ok_def sealing_pin_ok_def to_kdf_parties_ok_iff)

lemma accepted_sealing_pin_converts_witness:
  "validate_catalog demo_loaded_catalog = Inr [] \<and>
   (\<exists>k. to_kdf_parties \<lparr>party_u = Some ''a'', party_v = None\<rparr> = Inr k)"
  using demo_loaded_ok
    accepted_sealing_pin_converts [OF demo_loaded_ok demo_loaded_mem,
      of "\<lparr>parties = Some \<lparr>party_u = Some ''a'', party_v = None\<rparr>, external_aad = []\<rparr>"]
  by (simp add: demo_key_def)

end
