(* ===== verification/Json_Value.thy ===== *)
theory Json_Value
  imports Basil_Prelude
begin

text \<open>
  JSON documents as the loader sees them (\<open>core/catalog/loader.rs\<close>): the value type of
  \<open>serde_json\<close>, its accessors, and the two strict readers that refuse a repeated object key.
  The text parser of \<open>serde_json\<close> is third-party; what it hands to a reader is the document
  tree with the members of every object in document order, repetitions included.

  Also the numeric text forms of the standard library (\<open>parse::<u32>\<close>, \<open>parse::<i128>\<close>) and
  \<open>str::lines\<close>.

  Results: a strict reader accepts exactly the documents without a repeated key and returns
  them unchanged, so no member of a policy document can be shadowed by a later one.
\<close>

section \<open>Values\<close>

text \<open>Integers are those of \<open>u64\<close> and \<open>i64\<close>; a float is known by its text.\<close>

datatype F64 = FiniteF64 string | NonFiniteF64

datatype Json =
    JNull
  | JBool bool
  | JInt int
  | JFloat F64
  | JStr string
  | JArr "Json list"
  | JObj "(string \<times> Json) list"

fun as_object :: "Json \<Rightarrow> (string \<times> Json) list option" where
  "as_object (JObj ms) = Some ms"
| "as_object _ = None"

fun as_array :: "Json \<Rightarrow> Json list option" where
  "as_array (JArr xs) = Some xs"
| "as_array _ = None"

fun as_str :: "Json \<Rightarrow> string option" where
  "as_str (JStr s) = Some s"
| "as_str _ = None"

fun as_u64 :: "Json \<Rightarrow> nat option" where
  "as_u64 (JInt i) = (if 0 \<le> i \<and> i < 2 ^ 64 then Some (nat i) else None)"
| "as_u64 _ = None"

definition is_object :: "Json \<Rightarrow> bool" where
  "is_object v \<longleftrightarrow> as_object v \<noteq> None"

definition is_array :: "Json \<Rightarrow> bool" where
  "is_array v \<longleftrightarrow> as_array v \<noteq> None"

section \<open>Strict readers\<close>

text \<open>
  \<open>UniqueValueVisitor\<close>: the key of a member is tested before its value is read, so a
  repeated key is reported before any error of its value.
\<close>

fun unique_value :: "Json \<Rightarrow> string + Json"
  and unique_seq :: "Json list \<Rightarrow> string + Json list"
  and unique_map :: "(string \<times> Json) list \<Rightarrow> (string \<times> Json) list \<Rightarrow> string + (string \<times> Json) list" where
  "unique_value JNull = Inr JNull"
| "unique_value (JBool b) = Inr (JBool b)"
| "unique_value (JInt i) = Inr (JInt i)"
| "unique_value (JFloat x) =
     (case x of FiniteF64 t \<Rightarrow> Inr (JFloat x) | NonFiniteF64 \<Rightarrow> Inl ''non-finite evidence number'')"
| "unique_value (JStr s) = Inr (JStr s)"
| "unique_value (JArr xs) = res_bind (unique_seq xs) (\<lambda>ys. Inr (JArr ys))"
| "unique_value (JObj ms) = res_bind (unique_map ms []) (\<lambda>ns. Inr (JObj ns))"
| "unique_seq [] = Inr []"
| "unique_seq (x # xs) = res_bind (unique_value x) (\<lambda>y. res_bind (unique_seq xs) (\<lambda>ys. Inr (y # ys)))"
| "unique_map [] acc = Inr acc"
| "unique_map ((k, v) # ms) acc =
     (if k \<in> fst ` set acc then Inl (''duplicate evidence key `'' @ k @ ''`'')
      else res_bind (unique_value v) (\<lambda>w. unique_map ms (acc @ [(k, w)])))"

text \<open>\<open>deserialize_unique_btree_map\<close>: the value is read first, then the slot is tested.\<close>

fun unique_btree_map ::
    "('j \<Rightarrow> string + 'v) \<Rightarrow> (string \<times> 'j) list \<Rightarrow> (string, 'v) btree \<Rightarrow> string + (string, 'v) btree" where
  "unique_btree_map read [] m = Inr m"
| "unique_btree_map read ((k, j) # es) m =
     res_bind (read j) (\<lambda>v.
       case bt_get m k of
         None \<Rightarrow> unique_btree_map read es (bt_insert k v m)
       | Some _ \<Rightarrow> Inl (''duplicate policy key `'' @ k @ ''`''))"

section \<open>Numbers and lines in text\<close>

fun digits_value :: "string \<Rightarrow> nat \<Rightarrow> nat option" where
  "digits_value [] acc = Some acc"
| "digits_value (c # cs) acc =
     (if is_ascii_digit c then digits_value cs (acc * 10 + (byte_of c - 48)) else None)"

definition parse_unsigned :: "nat \<Rightarrow> string \<Rightarrow> nat option" where
  "parse_unsigned max_value s =
     (let ds = (case s of [] \<Rightarrow> [] | c # cs \<Rightarrow> if c = CHR ''+'' then cs else s) in
      if ds = [] then None
      else case digits_value ds 0 of
        None \<Rightarrow> None
      | Some v \<Rightarrow> if v \<le> max_value then Some v else None)"

definition parse_u32 :: "string \<Rightarrow> u32 option" where
  "parse_u32 s = map_option of_nat (parse_unsigned u32_max s)"

definition parse_i128 :: "string \<Rightarrow> int option" where
  "parse_i128 s =
     (case s of
        [] \<Rightarrow> None
      | c # cs \<Rightarrow>
          if c = CHR ''-''
          then (case cs of [] \<Rightarrow> None | _ \<Rightarrow>
            (case digits_value cs 0 of
               Some v \<Rightarrow> if v \<le> 2 ^ 127 then Some (- int v) else None
             | None \<Rightarrow> None))
          else map_option int (parse_unsigned (2 ^ 127 - 1) s))"

text \<open>\<open>str::lines\<close>: pieces between line feeds, without a final empty piece and without a trailing carriage return.\<close>

definition strip_cr :: "string \<Rightarrow> string" where
  "strip_cr l = (case strip_suffix [CHR 0x0D] l of Some l' \<Rightarrow> l' | None \<Rightarrow> l)"

definition str_lines :: "string \<Rightarrow> string list" where
  "str_lines s =
     (let ps = split_on (CHR 0x0A) s in
      map strip_cr (butlast ps) @ (if last ps = [] then [] else [last ps]))"

section \<open>What the strict readers accept\<close>

fun strict_json :: "Json \<Rightarrow> bool" where
  "strict_json (JArr xs) \<longleftrightarrow> (\<forall>x \<in> set xs. strict_json x)"
| "strict_json (JObj ms) \<longleftrightarrow> distinct (map fst ms) \<and> (\<forall>m \<in> set ms. strict_json (snd m))"
| "strict_json (JFloat x) \<longleftrightarrow> x \<noteq> NonFiniteF64"
| "strict_json _ \<longleftrightarrow> True"

lemma unique_value_iff:
  "unique_value j = Inr j' \<longleftrightarrow> strict_json j \<and> j' = j"
  "unique_seq xs = Inr ys \<longleftrightarrow> (\<forall>x \<in> set xs. strict_json x) \<and> ys = xs"
  "unique_map ms acc = Inr ns \<longleftrightarrow>
     distinct (map fst ms) \<and> fst ` set ms \<inter> fst ` set acc = {} \<and>
     (\<forall>m \<in> set ms. strict_json (snd m)) \<and> ns = acc @ ms"
proof (induction j and xs and ms acc arbitrary: j' and ys and ns
    rule: unique_value_unique_seq_unique_map.induct)
  case (4 x)
  then show ?case by (cases x) auto
next
  case (11 k v ms acc)
  show ?case
  proof (cases "k \<in> fst ` set acc")
    case True
    then show ?thesis by auto
  next
    case False
    with 11 show ?thesis by (auto simp: image_iff)
  qed
qed auto

lemma unique_btree_map_Inr:
  assumes "unique_btree_map read es m = Inr m'" and "bt_wf m"
  shows "bt_wf m' \<and> distinct (map fst es) \<and> (\<forall>k \<in> fst ` set es. bt_get m k = None) \<and>
    (\<forall>k. bt_get m' k = (case map_of es k of
       Some j \<Rightarrow> (case read j of Inr v \<Rightarrow> Some v | Inl _ \<Rightarrow> None) | None \<Rightarrow> bt_get m k))"
  using assms
proof (induction es arbitrary: m)
  case (Cons e es)
  obtain k j where e: "e = (k, j)" by fastforce
  with Cons.prems obtain v where v: "read j = Inr v" "bt_get m k = None"
    and rest: "unique_btree_map read es (bt_insert k v m) = Inr m'"
    by (auto split: option.splits)
  have "bt_wf (bt_insert k v m)" using Cons.prems(2) by simp
  note IH = Cons.IH [OF rest this, unfolded bt_get_insert]
  then have k: "k \<notin> fst ` set es" by auto
  then have es_k: "map_of es k = None" by (simp add: map_of_eq_None_iff)
  have wf: "bt_wf m'" using IH by (rule conjunct1)
  have dist: "distinct (map fst (e # es))" using IH k e by simp
  have absent: "bt_get m k' = None" if "k' \<in> fst ` set (e # es)" for k'
  proof (cases "k' = k")
    case False
    with IH that e have "((bt_get m)(k \<mapsto> v)) k' = None" by auto
    with False show ?thesis by simp
  qed (simp add: v)
  have lookup: "bt_get m' k' = (case map_of (e # es) k' of
     Some j \<Rightarrow> (case read j of Inr v \<Rightarrow> Some v | Inl _ \<Rightarrow> None) | None \<Rightarrow> bt_get m k')" for k'
  proof -
    from IH have "bt_get m' k' = (case map_of es k' of
       Some j \<Rightarrow> (case read j of Inr v \<Rightarrow> Some v | Inl _ \<Rightarrow> None) | None \<Rightarrow> ((bt_get m)(k \<mapsto> v)) k')" by blast
    then show ?thesis using e v es_k by (cases "k' = k"; cases "map_of es k'") auto
  qed
  show ?case by (intro conjI ballI allI wf dist absent lookup)
qed simp

end
