(* ===== verification/Loader_Policy.thy ===== *)
theory Loader_Policy
  imports Loader_Catalog Json_Value Pdp
begin

text \<open>
  The policy half of the loader (\<open>core/catalog/loader.rs\<close>): raw subjects and rules, the
  compiler of recursive evidence expressions with its limits, local account files, rule
  parsing with the break-glass gate, role expansion, and \<open>load\<close> itself.

  The derived readers of the two documents, the file system and the base64/base32 crates are
  parameters (\<open>LoadEnv\<close>); the account database is read at most once and only when a symbolic
  name occurs, as the \<open>Option<LocalAccounts>\<close> threaded through the compiler.

  Results: what a loaded policy satisfies (limits, registered subjects, well-formed targets,
  the break-glass gate); the resolved grants are exactly what the raw rules say; the decision
  of the decision point on a loaded policy, read back in terms of the raw document.
\<close>

section \<open>Raw documents\<close>

record RawSubjectDefinition =
  rs_domain :: AuthorizationDomain
  rs_break_glass :: bool
  rs_match :: Json

record RawRule =
  rw_id :: string
  rw_subjects :: "SubjectName list"
  rw_action :: "string list"
  rw_target :: "string list"
  rw_comment :: "string option"

text \<open>A role's \<open>BTreeSet<Op>\<close> is its list of operations in \<open>Ord\<close> order.\<close>

record RawPolicy =
  raw_subjects :: "(SubjectName, RawSubjectDefinition) btree"
  raw_roles :: "(string, Op list) btree"
  raw_rules :: "RawRule list"
  raw_config :: Config

section \<open>Local accounts\<close>

record LocalAccounts =
  la_users :: "(string, u32) btree"
  la_groups :: "(string, u32) btree"

definition MAX_ACCOUNT_FILE_BYTES :: nat where "MAX_ACCOUNT_FILE_BYTES = 1024 * 1024"

record FileMeta =
  fm_len :: nat
  fm_modified :: "nat option"
  fm_dev :: nat
  fm_ino :: nat

text \<open>What the calls on one account file return; \<open>fp_content\<close> is the text \<open>read_to_end\<close> would yield without the limit.\<close>

record FileProbe =
  fp_open :: bool
  fp_before :: "FileMeta option"
  fp_content :: "string option"
  fp_after :: "FileMeta option"
  fp_path_after :: "FileMeta option"
  fp_utf8 :: bool

definition account_err :: "string \<Rightarrow> string \<Rightarrow> LoadError" where
  "account_err path reason = LeLocalAccountDatabase path reason"

definition stable_time :: "FileMeta \<Rightarrow> FileMeta \<Rightarrow> FileMeta \<Rightarrow> bool" where
  "stable_time before after path_after =
     (case (fm_modified before, fm_modified after, fm_modified path_after) of
        (Some b, Some a, Some p) \<Rightarrow> b = a \<and> a = p
      | _ \<Rightarrow> False)"

definition stable_identity :: "FileMeta \<Rightarrow> FileMeta \<Rightarrow> FileMeta \<Rightarrow> bool" where
  "stable_identity before after path_after \<longleftrightarrow>
     fm_dev before = fm_dev after \<and> fm_dev after = fm_dev path_after \<and>
     fm_ino before = fm_ino after \<and> fm_ino after = fm_ino path_after"

definition read_stable_account_file :: "string \<Rightarrow> FileProbe \<Rightarrow> LoadError + string" where
  "read_stable_account_file path p =
     res_bind (if fp_open p then Inr () else Inl (account_err path ''file is unavailable'')) (\<lambda>_.
     res_bind (ok_or (fp_before p) (account_err path ''metadata is unavailable'')) (\<lambda>before.
     res_bind (if fm_len before > MAX_ACCOUNT_FILE_BYTES
               then Inl (account_err path ''file exceeds the 1 MiB limit'') else Inr ()) (\<lambda>_.
     res_bind (ok_or (map_option (take (MAX_ACCOUNT_FILE_BYTES + 1)) (fp_content p))
               (account_err path ''file read failed'')) (\<lambda>bytes.
     res_bind (ok_or (fp_after p) (account_err path ''post-read metadata is unavailable'')) (\<lambda>after.
     res_bind (ok_or (fp_path_after p) (account_err path ''post-read path metadata is unavailable'')) (\<lambda>path_after.
     if length bytes \<noteq> fm_len before \<or> fm_len before \<noteq> fm_len after \<or> fm_len after \<noteq> fm_len path_after \<or>
        \<not> stable_identity before after path_after \<or> \<not> stable_time before after path_after
     then Inl (account_err path ''file changed while it was read'')
     else if fp_utf8 p then Inr bytes
     else Inl (account_err path ''file is not valid UTF-8'')))))))"

fun account_lines ::
    "nat \<Rightarrow> nat \<Rightarrow> string \<Rightarrow> string list \<Rightarrow> (string, u32) btree \<Rightarrow> LoadError + (string, u32) btree" where
  "account_lines field_count id_index path [] es = Inr es"
| "account_lines field_count id_index path (line # rest) es =
     (if line = [] then account_lines field_count id_index path rest es
      else
        let fields = split_on (CHR '':'') line; nm = hd fields in
        case (if id_index < length fields then parse_u32 (fields ! id_index) else None) of
          None \<Rightarrow> Inl (account_err path ''file contains a malformed or out-of-range identifier'')
        | Some i \<Rightarrow>
            if length fields \<noteq> field_count \<or> nm = [] \<or> length nm > 128 \<or> has_control nm \<or> bt_get es nm \<noteq> None
            then Inl (account_err path ''file contains a malformed or duplicate account name'')
            else account_lines field_count id_index path rest (bt_insert nm i es))"

definition parse_account_file ::
    "string \<Rightarrow> nat \<Rightarrow> nat \<Rightarrow> string \<Rightarrow> LoadError + (string, u32) btree" where
  "parse_account_file contents field_count id_index path =
     account_lines field_count id_index path (str_lines contents) []"

text \<open>What the loader takes from outside: the derived document readers, the two account files, the text codecs.\<close>

record LoadEnv =
  env_parse_catalog :: "string \<Rightarrow> Catalog option"
  env_parse_policy :: "string \<Rightarrow> RawPolicy option"
  env_parse_value :: "string \<Rightarrow> Json option"
  env_passwd :: FileProbe
  env_group :: FileProbe
  env_b64url_decode :: "string \<Rightarrow> u8 list option"
  env_b32_decode :: "string \<Rightarrow> u8 list option"

definition LocalAccounts_load :: "LoadEnv \<Rightarrow> LoadError + LocalAccounts" where
  "LocalAccounts_load env =
     res_bind (read_stable_account_file ''/etc/passwd'' (env_passwd env)) (\<lambda>passwd.
     res_bind (read_stable_account_file ''/etc/group'' (env_group env)) (\<lambda>grp.
     res_bind (parse_account_file passwd 7 2 ''/etc/passwd'') (\<lambda>us.
     res_bind (parse_account_file grp 4 2 ''/etc/group'') (\<lambda>gs.
     Inr \<lparr>la_users = us, la_groups = gs\<rparr>))))"

type_synonym accounts = "LocalAccounts option"

section \<open>Compiling evidence expressions\<close>

definition invalid_expression :: "string \<Rightarrow> string \<Rightarrow> LoadError + 'a" where
  "invalid_expression subject reason = Inl (LeInvalidSubjectShape subject reason)"

definition lookup_account :: "LocalAccounts \<Rightarrow> LocalAccountSource \<Rightarrow> string \<Rightarrow> u32 option" where
  "lookup_account local src nm =
     (case src of Passwd \<Rightarrow> bt_get (la_users local) nm | Group \<Rightarrow> bt_get (la_groups local) nm)"

definition ensure_accounts :: "LoadEnv \<Rightarrow> accounts \<Rightarrow> LoadError + LocalAccounts" where
  "ensure_accounts env acc = (case acc of Some local \<Rightarrow> Inr local | None \<Rightarrow> LocalAccounts_load env)"

definition compile_identity ::
    "LoadEnv \<Rightarrow> string \<Rightarrow> AuthorizationDomain \<Rightarrow> string \<Rightarrow> Json \<Rightarrow> LocalAccountSource \<Rightarrow> accounts \<Rightarrow>
     LoadError + IdentitySelector \<times> accounts" where
  "compile_identity env subject dmn predicate v src acc =
     (case as_u64 v of
        Some i \<Rightarrow>
          if i \<le> u32_max then Inr (Numeric (of_nat i), acc)
          else Inl (LeLocalAccountResolution subject ''numeric-id'' ''numeric identifier is out of range'')
      | None \<Rightarrow>
      (case as_str v of
        None \<Rightarrow> invalid_expression subject ''process identities must be integers or local names''
      | Some nm \<Rightarrow>
          if nm = [] \<or> length nm > 128 \<or> has_control nm
          then invalid_expression subject ''local account name is empty, too long, or unsafe''
          else if parse_i128 nm \<noteq> None
          then invalid_expression subject ''numeric-looking identity strings are invalid''
          else if dmn \<noteq> HostProcess \<and> predicate \<noteq> ''systemd.managerUser''
          then Inl (LeSymbolicProcessIdentity subject predicate (domain_token dmn))
          else res_bind (ensure_accounts env acc) (\<lambda>local.
            res_bind (ok_or (lookup_account local src nm)
                (LeLocalAccountResolution subject (escape_str nm)
                  ''name is missing from the local account database'')) (\<lambda>i.
            Inr (LocalName nm i src, Some local)))))"

definition process_uid_slot ::
    "LoadEnv \<Rightarrow> string \<Rightarrow> AuthorizationDomain \<Rightarrow> string \<Rightarrow> Json \<Rightarrow> CredentialSlot \<Rightarrow> accounts \<Rightarrow>
     LoadError + EvidencePredicate \<times> accounts" where
  "process_uid_slot env subject dmn key v sl acc =
     res_bind (compile_identity env subject dmn key v Passwd acc) (\<lambda>(s, acc'). Inr (ProcessUidSlot sl s, acc'))"

definition process_gid_slot ::
    "LoadEnv \<Rightarrow> string \<Rightarrow> AuthorizationDomain \<Rightarrow> string \<Rightarrow> Json \<Rightarrow> CredentialSlot \<Rightarrow> accounts \<Rightarrow>
     LoadError + EvidencePredicate \<times> accounts" where
  "process_gid_slot env subject dmn key v sl acc =
     res_bind (compile_identity env subject dmn key v Group acc) (\<lambda>(s, acc'). Inr (ProcessGidSlot sl s, acc'))"

definition is_lower_hex :: "char \<Rightarrow> bool" where
  "is_lower_hex c \<longleftrightarrow> is_ascii_digit c \<or> (97 \<le> byte_of c \<and> byte_of c \<le> 102)"

fun systemd_component_loop :: "string \<Rightarrow> bool" where
  "systemd_component_loop [] = True"
| "systemd_component_loop (b # bs) =
     (if is_ascii_alphanumeric b \<or> b \<in> {CHR '':'', CHR ''_'', CHR ''.'', CHR ''-''}
      then systemd_component_loop bs
      else case bs of
        x # high # low # rest \<Rightarrow>
          b = CHR 0x5C \<and> x = CHR ''x'' \<and> is_lower_hex high \<and> is_lower_hex low \<and> systemd_component_loop rest
      | _ \<Rightarrow> False)"

definition valid_systemd_name_component :: "string \<Rightarrow> bool" where
  "valid_systemd_name_component component \<longleftrightarrow> component \<noteq> [] \<and> systemd_component_loop component"

definition valid_systemd_service_name :: "string \<Rightarrow> bool \<Rightarrow> bool" where
  "valid_systemd_service_name nm template =
     (if nm = [] \<or> length nm > 255 \<or> has_control nm then False
      else case strip_suffix ''.service'' nm of
        None \<Rightarrow> False
      | Some stem \<Rightarrow>
          (case split_on (CHR ''@'') stem of
             [base] \<Rightarrow> valid_systemd_name_component base \<and> \<not> template
           | [base, inst] \<Rightarrow> valid_systemd_name_component base \<and>
               (if template then inst = [] else valid_systemd_name_component inst)
           | _ \<Rightarrow> False))"

definition compile_systemd_selector ::
    "LoadEnv \<Rightarrow> string \<Rightarrow> Json \<Rightarrow> bool \<Rightarrow> accounts \<Rightarrow> LoadError + SystemdSelector \<times> accounts" where
  "compile_systemd_selector env subject v template acc =
     (case as_object v of
        None \<Rightarrow> invalid_expression subject ''systemd predicate must be an object''
      | Some obj \<Rightarrow>
          if list_ex (\<lambda>m. fst m \<noteq> ''name'' \<and> fst m \<noteq> ''managerUser'') obj \<or> length obj > 2
          then invalid_expression subject ''systemd predicate contains unknown fields''
          else case Option.bind (map_of obj ''name'') as_str of
            None \<Rightarrow> invalid_expression subject ''systemd predicate requires string `name`''
          | Some nm \<Rightarrow>
              if \<not> valid_systemd_service_name nm template
              then invalid_expression subject ''systemd name must be a canonical `.service` unit''
              else case map_of obj ''managerUser'' of
                None \<Rightarrow> Inr (\<lparr>sel_name = nm, sel_manager_user = None\<rparr>, acc)
              | Some mu \<Rightarrow>
                  res_bind (compile_identity env subject SystemdUnitDomain ''systemd.managerUser'' mu Passwd acc)
                    (\<lambda>(s, acc'). Inr (\<lparr>sel_name = nm, sel_manager_user = Some s\<rparr>, acc')))"

definition exact_object :: "string \<Rightarrow> Json \<Rightarrow> string list \<Rightarrow> LoadError + (string \<times> Json) list" where
  "exact_object subject v fs =
     (case as_object v of
        None \<Rightarrow> invalid_expression subject ''compound predicate must be an object''
      | Some obj \<Rightarrow>
          if length obj \<noteq> length fs \<or> list_ex (\<lambda>f. map_of obj f = None) fs
          then invalid_expression subject ''compound predicate fields are incomplete or unknown''
          else Inr obj)"

definition required_string :: "string \<Rightarrow> Json \<Rightarrow> LoadError + string" where
  "required_string subject v =
     ok_or (as_str v) (LeInvalidSubjectShape subject ''predicate value must be a string'')"

definition is_ascii_hexdigit :: "char \<Rightarrow> bool" where
  "is_ascii_hexdigit c \<longleftrightarrow> is_ascii_digit c \<or> (97 \<le> byte_of c \<and> byte_of c \<le> 102) \<or> (65 \<le> byte_of c \<and> byte_of c \<le> 70)"

definition valid_sha256_digest :: "string \<Rightarrow> bool" where
  "valid_sha256_digest v =
     (case strip_prefix ''sha256:'' v of
        None \<Rightarrow> False
      | Some hex \<Rightarrow> length hex = 64 \<and> list_all (\<lambda>b. is_ascii_hexdigit b \<and> \<not> is_ascii_uppercase b) hex)"

fun signature_key_algorithm_token :: "SignatureKeyAlgorithm \<Rightarrow> string" where
  "signature_key_algorithm_token SigEd25519 = ''ed25519''"
| "signature_key_algorithm_token SigNatsNkey = ''nats-nkey''"

definition signature_public_ok :: "LoadEnv \<Rightarrow> SignatureKeyAlgorithm \<Rightarrow> string \<Rightarrow> bool" where
  "signature_public_ok env alg public =
     (case alg of
        SigEd25519 \<Rightarrow> (case env_b64url_decode env public of Some bytes \<Rightarrow> length bytes = 32 | None \<Rightarrow> False)
      | SigNatsNkey \<Rightarrow> (case decode_public (env_b32_decode env) public of Inr _ \<Rightarrow> True | Inl _ \<Rightarrow> False))"

definition validate_signature_public ::
    "LoadEnv \<Rightarrow> string \<Rightarrow> SignatureKeyAlgorithm \<Rightarrow> string \<Rightarrow> LoadError + unit" where
  "validate_signature_public env subject alg public =
     (if signature_public_ok env alg public then Inr ()
      else Inl (LeMalformedSignaturePublic subject (signature_key_algorithm_token alg)
        (case alg of
           SigEd25519 \<Rightarrow> ''expected base64url-no-pad 32-byte Ed25519 public key''
         | SigNatsNkey \<Rightarrow> ''expected a valid public NATS NKey'')))"

definition signature_algorithm :: "string option \<Rightarrow> SignatureKeyAlgorithm option" where
  "signature_algorithm a =
     (if a = Some ''ed25519'' then Some SigEd25519
      else if a = Some ''nats-nkey'' then Some SigNatsNkey else None)"

definition compile_signature_key :: "LoadEnv \<Rightarrow> string \<Rightarrow> Json \<Rightarrow> LoadError + EvidencePredicate" where
  "compile_signature_key env subject v =
     res_bind (exact_object subject v [''algorithm'', ''public'']) (\<lambda>obj.
     res_bind (ok_or (signature_algorithm (Option.bind (map_of obj ''algorithm'') as_str))
       (LeInvalidSubjectShape subject ''unknown signature-key algorithm'')) (\<lambda>alg.
     res_bind (ok_or (Option.bind (map_of obj ''public'') as_str)
       (LeInvalidSubjectShape subject ''signature-key `public` must be a string'')) (\<lambda>public.
     if is_blank public then Inl (LeEmptySignaturePublic subject)
     else res_bind (validate_signature_public env subject alg public) (\<lambda>_.
       Inr (InvocationSignatureKey alg public)))))"

definition predicate_token :: "string \<Rightarrow> string" where
  "predicate_token key =
     (if key = ''systemd.unit'' then ''systemd.unit''
      else if key = ''systemd.template'' then ''systemd.template'' else ''evidence'')"

definition predicate_domain_ok :: "AuthorizationDomain \<Rightarrow> EvidencePredicate \<Rightarrow> bool" where
  "predicate_domain_ok dmn p =
     (case p of SystemdUnit _ \<Rightarrow> dmn \<noteq> HostProcess | SystemdTemplate _ \<Rightarrow> dmn \<noteq> HostProcess | _ \<Rightarrow> True)"

definition validate_predicate_domain ::
    "string \<Rightarrow> AuthorizationDomain \<Rightarrow> string \<Rightarrow> EvidencePredicate \<Rightarrow> LoadError + unit" where
  "validate_predicate_domain subject dmn key p =
     (if predicate_domain_ok dmn p then Inr ()
      else Inl (LePredicateDomainMismatch subject (predicate_token key) (domain_token dmn)))"

text \<open>The namespace of accepted predicate keys.\<close>

definition predicate_of_key ::
    "LoadEnv \<Rightarrow> string \<Rightarrow> AuthorizationDomain \<Rightarrow> string \<Rightarrow> Json \<Rightarrow> accounts \<Rightarrow>
     LoadError + EvidencePredicate \<times> accounts" where
  "predicate_of_key env subject dmn key v acc =
     (if key = ''process.uid''
      then res_bind (compile_identity env subject dmn key v Passwd acc) (\<lambda>(s, a). Inr (ProcessUid s, a))
      else if key = ''process.uid.real'' then process_uid_slot env subject dmn key v Real acc
      else if key = ''process.uid.effective'' then process_uid_slot env subject dmn key v Effective acc
      else if key = ''process.uid.saved'' then process_uid_slot env subject dmn key v Saved acc
      else if key = ''process.uid.filesystem'' then process_uid_slot env subject dmn key v Filesystem acc
      else if key = ''process.gid''
      then res_bind (compile_identity env subject dmn key v Group acc) (\<lambda>(s, a). Inr (ProcessGid s, a))
      else if key = ''process.gid.real'' then process_gid_slot env subject dmn key v Real acc
      else if key = ''process.gid.effective'' then process_gid_slot env subject dmn key v Effective acc
      else if key = ''process.gid.saved'' then process_gid_slot env subject dmn key v Saved acc
      else if key = ''process.gid.filesystem'' then process_gid_slot env subject dmn key v Filesystem acc
      else if key = ''process.gid.supplementary''
      then res_bind (compile_identity env subject dmn key v Group acc) (\<lambda>(s, a). Inr (ProcessGidSupplementary s, a))
      else if key = ''process.executable.digest''
      then res_bind (required_string subject v) (\<lambda>digest.
        if \<not> valid_sha256_digest digest
        then invalid_expression subject
          ''`process.executable.digest` must be `sha256:` plus 64 lowercase hex digits''
        else Inr (ProcessExecutableDigest digest, acc))
      else if key = ''systemd.unit''
      then res_bind (compile_systemd_selector env subject v False acc) (\<lambda>(s, a). Inr (SystemdUnit s, a))
      else if key = ''systemd.template''
      then res_bind (compile_systemd_selector env subject v True acc) (\<lambda>(s, a). Inr (SystemdTemplate s, a))
      else if key = ''invocation.signature-key''
      then res_bind (compile_signature_key env subject v) (\<lambda>p. Inr (p, acc))
      else invalid_expression subject ''unknown evidence predicate'')"

definition compile_predicate ::
    "LoadEnv \<Rightarrow> string \<Rightarrow> AuthorizationDomain \<Rightarrow> string \<Rightarrow> Json \<Rightarrow> accounts \<Rightarrow>
     LoadError + EvidencePredicate \<times> accounts" where
  "compile_predicate env subject dmn key v acc =
     res_bind (predicate_of_key env subject dmn key v acc) (\<lambda>(p, a).
     res_bind (validate_predicate_domain subject dmn key p) (\<lambda>_. Inr (p, a)))"

text \<open>The mutable \<open>leaves\<close> and \<open>accounts\<close> are threaded through the children in order.\<close>

fun compile_expression_node ::
    "LoadEnv \<Rightarrow> string \<Rightarrow> AuthorizationDomain \<Rightarrow> nat \<Rightarrow> Json \<Rightarrow> accounts \<Rightarrow> nat \<Rightarrow>
     LoadError + EvidenceExpression \<times> accounts \<times> nat"
  and compile_children ::
    "LoadEnv \<Rightarrow> string \<Rightarrow> AuthorizationDomain \<Rightarrow> nat \<Rightarrow> Json list \<Rightarrow> accounts \<Rightarrow> nat \<Rightarrow>
     LoadError + EvidenceExpression list \<times> accounts \<times> nat" where
  "compile_expression_node env subject dmn group_depth (JObj [(key, v)]) acc leaves =
     (if key = ''all'' \<or> key = ''any'' then
        let next_depth = sat_add_usize group_depth 1 in
        if next_depth > MAX_EXPRESSION_DEPTH
        then Inl (LeSubjectExpressionTooComplex subject next_depth MAX_EXPRESSION_DEPTH leaves MAX_EXPRESSION_LEAVES)
        else (case v of
            JArr children \<Rightarrow>
              if children = [] then invalid_expression subject ''`all` and `any` groups must not be empty''
              else res_bind (compile_children env subject dmn next_depth children acc leaves) (\<lambda>(cs, acc', leaves').
                Inr (if key = ''all'' then EvAll cs else EvAny cs, acc', leaves'))
          | _ \<Rightarrow> invalid_expression subject ''`all` and `any` values must be arrays'')
      else
        let leaves' = sat_add_usize leaves 1 in
        if leaves' > MAX_EXPRESSION_LEAVES
        then Inl (LeSubjectExpressionTooComplex subject group_depth MAX_EXPRESSION_DEPTH leaves' MAX_EXPRESSION_LEAVES)
        else res_bind (compile_predicate env subject dmn key v acc) (\<lambda>(p, acc'). Inr (EvLeaf p, acc', leaves')))"
| "compile_expression_node env subject dmn group_depth (JObj _) acc leaves =
     invalid_expression subject ''each expression node must contain exactly one key''"
| "compile_expression_node env subject dmn group_depth _ acc leaves =
     invalid_expression subject ''expected an object with exactly one operator or leaf''"
| "compile_children env subject dmn group_depth [] acc leaves = Inr ([], acc, leaves)"
| "compile_children env subject dmn group_depth (c # cs) acc leaves =
     res_bind (compile_expression_node env subject dmn group_depth c acc leaves) (\<lambda>(e, acc', leaves').
     res_bind (compile_children env subject dmn group_depth cs acc' leaves') (\<lambda>(es, acc'', leaves'').
     Inr (e # es, acc'', leaves'')))"

definition compile_expression ::
    "LoadEnv \<Rightarrow> string \<Rightarrow> AuthorizationDomain \<Rightarrow> Json \<Rightarrow> accounts \<Rightarrow> LoadError + EvidenceExpression \<times> accounts" where
  "compile_expression env subject dmn v acc =
     res_bind (compile_expression_node env subject dmn 0 v acc 0) (\<lambda>(e, acc', leaves). Inr (e, acc'))"

section \<open>Subjects\<close>

definition parse_subject ::
    "LoadEnv \<Rightarrow> string \<Rightarrow> RawSubjectDefinition \<Rightarrow> accounts \<Rightarrow>
     LoadError + SubjectName \<times> SubjectDefinition \<times> accounts" where
  "parse_subject env nm raw acc =
     (let normalized = trim nm in
      if normalized = [] then Inl LeEmptySubjectName
      else if length normalized > 128 then Inl (LeSubjectNameTooLong (length normalized))
      else if has_control normalized then Inl (LeBadSubjectName (escape_str normalized))
      else res_bind (compile_expression env normalized (rs_domain raw) (rs_match raw) acc) (\<lambda>(m, acc').
        if depth m > MAX_EXPRESSION_DEPTH \<or> leaf_count m > MAX_EXPRESSION_LEAVES
        then Inl (LeSubjectExpressionTooComplex normalized (depth m) MAX_EXPRESSION_DEPTH
          (leaf_count m) MAX_EXPRESSION_LEAVES)
        else Inr (normalized, \<lparr>sub_domain = rs_domain raw, sub_break_glass = rs_break_glass raw,
          sub_match = m\<rparr>, acc')))"

definition complexity_warning :: "SubjectName \<Rightarrow> SubjectDefinition \<Rightarrow> LoadWarning list" where
  "complexity_warning nm sub =
     (if depth (sub_match sub) > 4 \<or> leaf_count (sub_match sub) > 16
      then [ComplexSubjectExpression nm (depth (sub_match sub)) (leaf_count (sub_match sub))] else [])"

fun subjects_loop ::
    "LoadEnv \<Rightarrow> (SubjectName \<times> RawSubjectDefinition) list \<Rightarrow> accounts \<Rightarrow>
     (SubjectName, SubjectDefinition) btree \<Rightarrow> LoadWarning list \<Rightarrow>
     LoadError + (SubjectName, SubjectDefinition) btree \<times> LoadWarning list" where
  "subjects_loop env [] acc subs warns = Inr (subs, warns)"
| "subjects_loop env ((nm, raw) # rest) acc subs warns =
     res_bind (parse_subject env nm raw acc) (\<lambda>(nm', sub, acc').
     subjects_loop env rest acc' (bt_insert nm' sub subs) (warns @ complexity_warning nm' sub))"

definition parse_subjects ::
    "LoadEnv \<Rightarrow> (SubjectName, RawSubjectDefinition) btree \<Rightarrow>
     LoadError + (SubjectName, SubjectDefinition) btree \<times> LoadWarning list" where
  "parse_subjects env raw = subjects_loop env raw None [] []"

section \<open>Rules\<close>

definition is_break_glass :: "(SubjectName, SubjectDefinition) btree \<Rightarrow> SubjectName \<Rightarrow> bool" where
  "is_break_glass subs nm =
     (case bt_get subs nm of Some sub \<Rightarrow> sub_break_glass sub | None \<Rightarrow> False)"

definition parse_rule ::
    "(SubjectName, SubjectDefinition) btree \<Rightarrow> RawRule \<Rightarrow> LoadError + Rule" where
  "parse_rule subs raw =
     res_bind (if rw_subjects raw = [] then Inl (LeEmptyRuleSubjects (rw_id raw)) else Inr ()) (\<lambda>_.
     res_bind (res_each (\<lambda>s. if bt_get subs s = None then Inl (LeUnknownSubject (rw_id raw) s) else Inr ())
       (rw_subjects raw)) (\<lambda>_.
     res_bind (res_map_err (LeBadTerm (rw_id raw)) (res_collect ActionTerm_parse (rw_action raw))) (\<lambda>action.
     res_bind (res_map_err (LeBadGlob (rw_id raw)) (res_collect KeyGlob_parse (rw_target raw))) (\<lambda>target.
     if list_ex matches_all target \<and> list_ex (\<lambda>nm. \<not> is_break_glass subs nm) (rw_subjects raw)
     then Inl (LeNonBreakGlassAnyTarget (rw_id raw))
     else Inr \<lparr>rule_id = rw_id raw, rule_subjects = rw_subjects raw, rule_action = action,
       rule_target = target, rule_comment = rw_comment raw\<rparr>))))"

text \<open>The set \<open>seen\<close> of \<open>parse_rules\<close> as a list of the ids so far.\<close>

fun rules_loop ::
    "(SubjectName, SubjectDefinition) btree \<Rightarrow> string list \<Rightarrow> RawRule list \<Rightarrow> LoadError + Rule list" where
  "rules_loop subs seen [] = Inr []"
| "rules_loop subs seen (raw # rest) =
     (if rw_id raw \<in> set seen then Inl (LeDuplicateRuleId (rw_id raw))
      else res_bind (parse_rule subs raw) (\<lambda>r.
        res_bind (rules_loop subs (rw_id raw # seen) rest) (\<lambda>rs. Inr (r # rs))))"

definition parse_rules ::
    "RawRule list \<Rightarrow> (SubjectName, SubjectDefinition) btree \<Rightarrow> LoadError + Rule list" where
  "parse_rules raw subs = rules_loop subs [] raw"

definition role_defined :: "(string, Op list) btree \<Rightarrow> string \<Rightarrow> ActionTerm \<Rightarrow> LoadError + unit" where
  "role_defined defined_roles rid t =
     (case t of Role nm \<Rightarrow> if bt_get defined_roles nm = None then Inl (LeUnknownRole rid nm) else Inr ()
      | _ \<Rightarrow> Inr ())"

definition validate_rule_roles :: "Rule list \<Rightarrow> (string, Op list) btree \<Rightarrow> LoadError + unit" where
  "validate_rule_roles rs defined_roles =
     res_each (\<lambda>r. res_each (role_defined defined_roles (rule_id r)) (rule_action r)) rs"

definition expand_term ::
    "(string, Op list) btree \<Rightarrow> ActionTerm \<Rightarrow> (Op, string) btree \<Rightarrow> (Op, string) btree" where
  "expand_term defined_roles t m =
     (case t of
        OpTerm x \<Rightarrow> bt_or_insert x (''op:'' @ op_token x) m
      | Role nm \<Rightarrow> (case bt_get defined_roles nm of
          None \<Rightarrow> m
        | Some role_ops \<Rightarrow> fold (\<lambda>x. bt_or_insert x (''role:'' @ nm)) role_ops m)
      | AnyOp \<Rightarrow> fold (\<lambda>x. bt_or_insert x ''*'') ALL_OPS m)"

definition expand_ops :: "ActionTerm list \<Rightarrow> (string, Op list) btree \<Rightarrow> (Op, string) btree" where
  "expand_ops action defined_roles = fold (expand_term defined_roles) action []"

definition resolve_rule :: "(string, Op list) btree \<Rightarrow> Rule \<Rightarrow> ResolvedRule" where
  "resolve_rule defined_roles r =
     (let ops = expand_ops (rule_action r) defined_roles in
      \<lparr>rr_subjects = rule_subjects r,
       rr_grants = concat (map (\<lambda>t. map (\<lambda>(x, a).
         \<lparr>g_op = x, g_target = t, g_rule_id = rule_id r, g_action = a\<rparr>) ops) (rule_target r))\<rparr>)"

definition build_resolved ::
    "(SubjectName, SubjectDefinition) btree \<Rightarrow> Rule list \<Rightarrow> (string, Op list) btree \<Rightarrow> ResolvedPolicy" where
  "build_resolved subs rs defined_roles =
     \<lparr>subjects = subs, rules = map (resolve_rule defined_roles) rs\<rparr>"

section \<open>Loading\<close>

definition legacy_document :: "(string \<Rightarrow> Json option) \<Rightarrow> nat \<Rightarrow> (Json \<Rightarrow> bool) \<Rightarrow> string \<Rightarrow> string \<Rightarrow> string \<Rightarrow> bool" where
  "legacy_document parse_value version second_shape first_field second_field raw =
     (case Option.bind (parse_value raw) as_object of
        None \<Rightarrow> False
      | Some obj \<Rightarrow>
          map_of obj ''schema'' = None \<and>
          Option.bind (map_of obj ''schemaVersion'') as_u64 = Some version \<and>
          (case map_of obj first_field of Some v \<Rightarrow> is_object v | None \<Rightarrow> False) \<and>
          (case map_of obj second_field of Some v \<Rightarrow> second_shape v | None \<Rightarrow> False))"

definition classify_catalog_parse_error :: "LoadEnv \<Rightarrow> string \<Rightarrow> LoadError" where
  "classify_catalog_parse_error env raw =
     (if legacy_document (env_parse_value env) 1 is_object ''backends'' ''keys'' raw
      then LeLegacyCatalogV1 else LeJson ''catalog'')"

definition classify_policy_parse_error :: "LoadEnv \<Rightarrow> string \<Rightarrow> LoadError" where
  "classify_policy_parse_error env raw =
     (if legacy_document (env_parse_value env) 2 is_array ''subjects'' ''rules'' raw
      then LeLegacyPolicyV2 else LeJson ''policy'')"

definition load ::
    "LoadEnv \<Rightarrow> string \<Rightarrow> string \<Rightarrow> LoadError + Catalog \<times> ResolvedPolicy \<times> Config \<times> LoadWarning list" where
  "load env catalog_json policy_json =
     res_bind (ok_or (env_parse_catalog env catalog_json) (classify_catalog_parse_error env catalog_json)) (\<lambda>catalog.
     res_bind (ok_or (env_parse_policy env policy_json) (classify_policy_parse_error env policy_json)) (\<lambda>raw.
     res_bind (validate_catalog catalog) (\<lambda>warns.
     res_bind (parse_subjects env (raw_subjects raw)) (\<lambda>(subs, subject_warns).
     res_bind (parse_rules (raw_rules raw) subs) (\<lambda>rs.
     res_bind (validate_rule_roles rs (raw_roles raw)) (\<lambda>_.
     Inr (catalog, build_resolved subs rs (raw_roles raw), raw_config raw, warns @ subject_warns)))))))"

section \<open>What a compiled expression satisfies\<close>

definition accounts_ok :: "LoadEnv \<Rightarrow> accounts \<Rightarrow> bool" where
  "accounts_ok env acc \<longleftrightarrow> (\<forall>local. acc = Some local \<longrightarrow> LocalAccounts_load env = Inr local)"

text \<open>
  A numeric selector, or a safe symbolic name of the local account database where names are
  admitted.
\<close>

definition identity_ok :: "LoadEnv \<Rightarrow> bool \<Rightarrow> LocalAccountSource \<Rightarrow> IdentitySelector \<Rightarrow> bool" where
  "identity_ok env symbolic src s =
     (case s of
        Numeric _ \<Rightarrow> True
      | LocalName nm i src' \<Rightarrow> symbolic \<and> src' = src \<and> nm \<noteq> [] \<and> length nm \<le> 128 \<and> \<not> has_control nm \<and>
          parse_i128 nm = None \<and>
          (\<exists>local. LocalAccounts_load env = Inr local \<and> lookup_account local src nm = Some i))"

definition systemd_ok :: "LoadEnv \<Rightarrow> AuthorizationDomain \<Rightarrow> bool \<Rightarrow> SystemdSelector \<Rightarrow> bool" where
  "systemd_ok env dmn template s \<longleftrightarrow>
     dmn \<noteq> HostProcess \<and> valid_systemd_service_name (sel_name s) template \<and>
     (\<forall>u. sel_manager_user s = Some u \<longrightarrow> identity_ok env True Passwd u)"

fun predicate_ok :: "LoadEnv \<Rightarrow> AuthorizationDomain \<Rightarrow> EvidencePredicate \<Rightarrow> bool" where
  "predicate_ok env dmn (ProcessUid s) \<longleftrightarrow> identity_ok env (dmn = HostProcess) Passwd s"
| "predicate_ok env dmn (ProcessUidSlot sl s) \<longleftrightarrow> identity_ok env (dmn = HostProcess) Passwd s"
| "predicate_ok env dmn (ProcessGid s) \<longleftrightarrow> identity_ok env (dmn = HostProcess) Group s"
| "predicate_ok env dmn (ProcessGidSlot sl s) \<longleftrightarrow> identity_ok env (dmn = HostProcess) Group s"
| "predicate_ok env dmn (ProcessGidSupplementary s) \<longleftrightarrow> identity_ok env (dmn = HostProcess) Group s"
| "predicate_ok env dmn (ProcessExecutableDigest d) \<longleftrightarrow> valid_sha256_digest d"
| "predicate_ok env dmn (SystemdUnit s) \<longleftrightarrow> systemd_ok env dmn False s"
| "predicate_ok env dmn (SystemdTemplate s) \<longleftrightarrow> systemd_ok env dmn True s"
| "predicate_ok env dmn (InvocationSignatureKey alg public) \<longleftrightarrow>
     \<not> is_blank public \<and> signature_public_ok env alg public"

lemma accounts_ok_None [simp]: "accounts_ok env None"
  by (simp add: accounts_ok_def)

lemma invalid_expression_Inr [simp]: "invalid_expression subject reason \<noteq> Inr x"
  by (simp add: invalid_expression_def)

lemma ensure_accounts_ok:
  "ensure_accounts env acc = Inr local \<Longrightarrow> accounts_ok env acc \<Longrightarrow> LocalAccounts_load env = Inr local"
  by (auto simp: ensure_accounts_def accounts_ok_def split: option.splits)

lemma compile_identity_ok:
  assumes "compile_identity env subject dmn pk v src acc = Inr (s, acc')" and "accounts_ok env acc"
  shows "identity_ok env (dmn = HostProcess \<or> pk = ''systemd.managerUser'') src s \<and> accounts_ok env acc'"
  using assms
  by (auto simp: compile_identity_def identity_ok_def accounts_ok_def ensure_accounts_ok
      split: option.splits if_splits dest!: ensure_accounts_ok)

lemma compile_systemd_selector_ok:
  assumes "compile_systemd_selector env subject v template acc = Inr (s, acc')" and "accounts_ok env acc"
  shows "valid_systemd_service_name (sel_name s) template \<and>
    (\<forall>u. sel_manager_user s = Some u \<longrightarrow> identity_ok env True Passwd u) \<and> accounts_ok env acc'"
  using assms by (auto simp: compile_systemd_selector_def split: option.splits if_splits dest!: compile_identity_ok)

lemma compile_signature_key_ok:
  "compile_signature_key env subject v = Inr p \<Longrightarrow>
     \<exists>alg public. p = InvocationSignatureKey alg public \<and> \<not> is_blank public \<and> signature_public_ok env alg public"
  by (auto simp: compile_signature_key_def validate_signature_public_def split: if_splits)

lemma compile_predicate_ok:
  assumes "compile_predicate env subject dmn key v acc = Inr (p, acc')" and "accounts_ok env acc"
  shows "predicate_ok env dmn p \<and> accounts_ok env acc'"
proof -
  from assms(1) have k: "predicate_of_key env subject dmn key v acc = Inr (p, acc')" and d: "predicate_domain_ok dmn p"
    by (auto simp: compile_predicate_def validate_predicate_domain_def split: if_splits)
  show ?thesis
    using k d assms(2)
    unfolding predicate_of_key_def process_uid_slot_def process_gid_slot_def
    by (auto split: if_splits simp: predicate_domain_ok_def systemd_ok_def
        dest!: compile_identity_ok compile_systemd_selector_ok compile_signature_key_ok)
qed

text \<open>Groups are never empty in a compiled expression.\<close>

fun groups_nonempty :: "EvidenceExpression \<Rightarrow> bool" where
  "groups_nonempty (EvLeaf p) \<longleftrightarrow> True"
| "groups_nonempty (EvAll cs) \<longleftrightarrow> cs \<noteq> [] \<and> (\<forall>c \<in> set cs. groups_nonempty c)"
| "groups_nonempty (EvAny cs) \<longleftrightarrow> cs \<noteq> [] \<and> (\<forall>c \<in> set cs. groups_nonempty c)"

definition expr_ok :: "LoadEnv \<Rightarrow> AuthorizationDomain \<Rightarrow> EvidenceExpression \<Rightarrow> bool" where
  "expr_ok env dmn e \<longleftrightarrow> groups_nonempty e \<and> (\<forall>p \<in> set (visit_leaves e). predicate_ok env dmn p)"

lemma expr_ok_simps [simp]:
  "expr_ok env dmn (EvLeaf p) \<longleftrightarrow> predicate_ok env dmn p"
  "expr_ok env dmn (EvAll cs) \<longleftrightarrow> cs \<noteq> [] \<and> (\<forall>c \<in> set cs. expr_ok env dmn c)"
  "expr_ok env dmn (EvAny cs) \<longleftrightarrow> cs \<noteq> [] \<and> (\<forall>c \<in> set cs. expr_ok env dmn c)"
  by (auto simp: expr_ok_def)

definition max_depth_of :: "EvidenceExpression list \<Rightarrow> nat" where
  "max_depth_of es = foldr max (map depth es) 0"

lemma max_depth_of_simps [simp]: "max_depth_of [] = 0" "max_depth_of (e # es) = max (depth e) (max_depth_of es)"
  by (simp_all add: max_depth_of_def)

lemma sat_add_usize_small: "n < usize_max \<Longrightarrow> sat_add_usize n (Suc 0) = Suc n"
  by (simp add: sat_add_usize_def usize_max_def)

lemmas limits = MAX_EXPRESSION_DEPTH_def MAX_EXPRESSION_LEAVES_def

lemma limits_usize: "n \<le> MAX_EXPRESSION_DEPTH \<Longrightarrow> n < usize_max" "n \<le> MAX_EXPRESSION_LEAVES \<Longrightarrow> n < usize_max"
  by (simp_all add: limits usize_max_def)

text \<open>
  The two counters of the compiler are exact: it descends at most to the depth limit and its
  leaf counter is the number of leaves compiled so far.
\<close>

lemma compile_node_ok:
  "compile_expression_node env subject dmn d v acc n = Inr (e, acc', n') \<Longrightarrow> accounts_ok env acc \<Longrightarrow>
     d \<le> MAX_EXPRESSION_DEPTH \<Longrightarrow> n \<le> MAX_EXPRESSION_LEAVES \<Longrightarrow>
     expr_ok env dmn e \<and> accounts_ok env acc' \<and> d + depth e \<le> MAX_EXPRESSION_DEPTH \<and>
     n' = n + leaf_count e \<and> n' \<le> MAX_EXPRESSION_LEAVES"
  "compile_children env subject dmn d cs acc n = Inr (es, acc', n') \<Longrightarrow> accounts_ok env acc \<Longrightarrow>
     d \<le> MAX_EXPRESSION_DEPTH \<Longrightarrow> n \<le> MAX_EXPRESSION_LEAVES \<Longrightarrow>
     (\<forall>e \<in> set es. expr_ok env dmn e) \<and> length es = length cs \<and> accounts_ok env acc' \<and>
     d + max_depth_of es \<le> MAX_EXPRESSION_DEPTH \<and>
     n' = n + sum_list (map leaf_count es) \<and> n' \<le> MAX_EXPRESSION_LEAVES"
proof (induction env subject dmn d v acc n and env subject dmn d cs acc n
    arbitrary: e acc' n' and es acc' n' rule: compile_expression_node_compile_children.induct)
  case (1 env subject dmn d key v acc n)
  show ?case
  proof (cases "key = ''all'' \<or> key = ''any''")
    case group: True
    have sat: "sat_add_usize d (Suc 0) = Suc d"
      using "1.prems"(3) by (intro sat_add_usize_small limits_usize(1))
    from "1.prems"(1) group sat obtain children where v: "v = JArr children" "children \<noteq> []" "Suc d \<le> MAX_EXPRESSION_DEPTH"
      by (cases v) (auto simp: Let_def split: if_splits)
    with "1.prems"(1) group sat have "\<exists>es. compile_children env subject dmn (Suc d) children acc n = Inr (es, acc', n') \<and>
        e = (if key = ''all'' then EvAll es else EvAny es)"
      by (auto simp: Let_def)
    with v obtain es where g: "v = JArr children" "children \<noteq> []" "Suc d \<le> MAX_EXPRESSION_DEPTH"
      "compile_children env subject dmn (Suc d) children acc n = Inr (es, acc', n')"
      "e = (if key = ''all'' then EvAll es else EvAny es)" by blast
    have "(\<forall>e \<in> set es. expr_ok env dmn e) \<and> length es = length children \<and> accounts_ok env acc' \<and>
      Suc d + max_depth_of es \<le> MAX_EXPRESSION_DEPTH \<and> n' = n + sum_list (map leaf_count es) \<and>
      n' \<le> MAX_EXPRESSION_LEAVES"
      using "1.IH" [of "Suc d" children] group sat g "1.prems" by auto
    with g show ?thesis by (auto simp: max_depth_of_def)
  next
    case leaf: False
    have sat: "sat_add_usize n (Suc 0) = Suc n"
      using "1.prems"(4) by (intro sat_add_usize_small limits_usize(2))
    from "1.prems"(1) leaf sat obtain p where
      "\<not> Suc n > MAX_EXPRESSION_LEAVES" "compile_predicate env subject dmn key v acc = Inr (p, acc')"
      "e = EvLeaf p" "n' = Suc n"
      by (auto simp: Let_def split: if_splits)
    with "1.prems" compile_predicate_ok show ?thesis by auto
  qed
qed fastforce+

section \<open>What a loaded policy satisfies\<close>

definition subject_ok :: "LoadEnv \<Rightarrow> SubjectName \<Rightarrow> SubjectDefinition \<Rightarrow> bool" where
  "subject_ok env nm sub \<longleftrightarrow>
     nm \<noteq> [] \<and> length nm \<le> 128 \<and> \<not> has_control nm \<and> expr_ok env (sub_domain sub) (sub_match sub) \<and>
     depth (sub_match sub) \<le> MAX_EXPRESSION_DEPTH \<and> leaf_count (sub_match sub) \<le> MAX_EXPRESSION_LEAVES"

definition rule_ok :: "(SubjectName, SubjectDefinition) btree \<Rightarrow> ResolvedRule \<Rightarrow> bool" where
  "rule_ok subs r \<longleftrightarrow>
     rr_subjects r \<noteq> [] \<and> (\<forall>s \<in> set (rr_subjects r). bt_get subs s \<noteq> None) \<and>
     (\<forall>g \<in> set (rr_grants r). glob_wf (g_target g) \<and>
        (matches_all (g_target g) \<longrightarrow> (\<forall>s \<in> set (rr_subjects r). is_break_glass subs s)))"

definition loaded_ok :: "LoadEnv \<Rightarrow> ResolvedPolicy \<Rightarrow> bool" where
  "loaded_ok env p \<longleftrightarrow>
     bt_wf (subjects p) \<and> (\<forall>nm sub. bt_get (subjects p) nm = Some sub \<longrightarrow> subject_ok env nm sub) \<and>
     (\<forall>r \<in> set (rules p). rule_ok (subjects p) r)"

lemma parse_subject_ok:
  assumes "parse_subject env nm raw acc = Inr (nm', sub, acc')" and "accounts_ok env acc"
  shows "subject_ok env nm' sub \<and> accounts_ok env acc' \<and> nm' = trim nm \<and>
    sub_domain sub = rs_domain raw \<and> sub_break_glass sub = rs_break_glass raw"
proof -
  from assms(1) have ne: "trim nm \<noteq> []" "length (trim nm) \<le> 128" "\<not> has_control (trim nm)"
    by (auto simp: parse_subject_def Let_def split: if_splits)
  with assms(1) obtain m where m: "compile_expression env (trim nm) (rs_domain raw) (rs_match raw) acc = Inr (m, acc')"
    "nm' = trim nm" "sub = \<lparr>sub_domain = rs_domain raw, sub_break_glass = rs_break_glass raw, sub_match = m\<rparr>"
    by (auto simp: parse_subject_def Let_def split: if_splits)
  from m(1) obtain n where
    "compile_expression_node env (trim nm) (rs_domain raw) 0 (rs_match raw) acc 0 = Inr (m, acc', n)"
    by (auto simp: compile_expression_def)
  from compile_node_ok(1) [OF this assms(2)] m ne show ?thesis
    by (simp add: subject_ok_def)
qed

lemma subjects_loop_ok:
  assumes "subjects_loop env raw acc subs warns = Inr (subs', warns')"
    and "accounts_ok env acc" and "bt_wf subs"
    and "\<forall>nm sub. bt_get subs nm = Some sub \<longrightarrow> subject_ok env nm sub"
  shows "bt_wf subs' \<and> (\<forall>nm sub. bt_get subs' nm = Some sub \<longrightarrow> subject_ok env nm sub)"
  using assms
proof (induction env raw acc subs warns rule: subjects_loop.induct)
  case (2 env nm raw rest acc subs warns)
  from "2.prems"(1) obtain nm' sub acc' where p: "parse_subject env nm raw acc = Inr (nm', sub, acc')"
    and rest: "subjects_loop env rest acc' (bt_insert nm' sub subs) (warns @ complexity_warning nm' sub) = Inr (subs', warns')"
    by auto
  note ok = parse_subject_ok [OF p "2.prems"(2)]
  show ?case
    by (rule "2.IH" [OF rest]) (use ok "2.prems" in \<open>auto simp: bt_get_insert\<close>)
qed simp

lemma parse_rule_Inr:
  assumes "parse_rule subs raw = Inr r"
  shows "rule_id r = rw_id raw \<and> rule_subjects r = rw_subjects raw \<and> rw_subjects raw \<noteq> [] \<and>
    (\<forall>s \<in> set (rw_subjects raw). bt_get subs s \<noteq> None) \<and>
    res_collect ActionTerm_parse (rw_action raw) = Inr (rule_action r) \<and>
    res_collect KeyGlob_parse (rw_target raw) = Inr (rule_target r) \<and>
    (list_ex matches_all (rule_target r) \<longrightarrow> (\<forall>s \<in> set (rw_subjects raw). is_break_glass subs s))"
  using assms by (auto simp: parse_rule_def res_each_Inr list_ex_iff split: if_splits)

lemma rules_loop_Inr:
  "rules_loop subs seen raws = Inr rs \<longleftrightarrow>
     distinct (map rw_id raws) \<and> rw_id ` set raws \<inter> set seen = {} \<and>
     list_all2 (\<lambda>raw r. parse_rule subs raw = Inr r) raws rs"
  by (induction raws arbitrary: seen rs) (auto simp: list_all2_Cons1)

lemma grants_of_resolve_rule:
  "g \<in> set (rr_grants (resolve_rule roles r)) \<longleftrightarrow>
     g_rule_id g = rule_id r \<and> g_target g \<in> set (rule_target r) \<and>
     (g_op g, g_action g) \<in> set (expand_ops (rule_action r) roles)"
proof
  assume "g \<in> set (rr_grants (resolve_rule roles r))"
  then show "g_rule_id g = rule_id r \<and> g_target g \<in> set (rule_target r) \<and>
     (g_op g, g_action g) \<in> set (expand_ops (rule_action r) roles)"
    by (auto simp: resolve_rule_def Let_def)
next
  assume "g_rule_id g = rule_id r \<and> g_target g \<in> set (rule_target r) \<and>
     (g_op g, g_action g) \<in> set (expand_ops (rule_action r) roles)"
  then show "g \<in> set (rr_grants (resolve_rule roles r))"
    by (auto simp: resolve_rule_def Let_def
        intro!: bexI [of _ "g_target g"] image_eqI [of _ _ "(g_op g, g_action g)"])
qed

lemma rr_subjects_resolve_rule [simp]: "rr_subjects (resolve_rule roles r) = rule_subjects r"
  by (simp add: resolve_rule_def Let_def)

lemma resolve_rule_ok:
  assumes "parse_rule subs raw = Inr r"
  shows "rule_ok subs (resolve_rule roles r)"
proof -
  note p = parse_rule_Inr [OF assms]
  have "glob_wf g" if "g \<in> set (rule_target r)" for g
    using res_collect_Inr_in [of KeyGlob_parse "rw_target raw" "rule_target r" g] p that source_of_parse by blast
  with p show ?thesis
    unfolding rule_ok_def
    by (auto simp: grants_of_resolve_rule list_ex_iff)
qed

lemma load_Inr:
  assumes "load env cj pj = Inr (cat, pol, cfg, warns)"
  obtains raw subs sw rs ws where
    "env_parse_catalog env cj = Some cat" "env_parse_policy env pj = Some raw" "cfg = raw_config raw"
    "validate_catalog cat = Inr ws" "parse_subjects env (raw_subjects raw) = Inr (subs, sw)"
    "parse_rules (raw_rules raw) subs = Inr rs" "validate_rule_roles rs (raw_roles raw) = Inr ()"
    "pol = build_resolved subs rs (raw_roles raw)" "warns = ws @ sw"
  using assms by (auto simp: load_def)

lemma load_ok:
  assumes "load env cj pj = Inr (cat, pol, cfg, warns)"
  shows "loaded_ok env pol"
proof -
  from assms obtain raw subs sw rs ws where
    "env_parse_catalog env cj = Some cat" "env_parse_policy env pj = Some raw" "cfg = raw_config raw"
    "validate_catalog cat = Inr ws" and subs: "parse_subjects env (raw_subjects raw) = Inr (subs, sw)"
    and rs: "parse_rules (raw_rules raw) subs = Inr rs" and "validate_rule_roles rs (raw_roles raw) = Inr ()"
    and pol: "pol = build_resolved subs rs (raw_roles raw)" and "warns = ws @ sw"
    by (rule load_Inr)
  have "bt_wf subs \<and> (\<forall>nm sub. bt_get subs nm = Some sub \<longrightarrow> subject_ok env nm sub)"
    by (rule subjects_loop_ok [OF subs [unfolded parse_subjects_def]]) (simp_all add: bt_get_def)
  moreover have "rule_ok subs (resolve_rule (raw_roles raw) r)" if r: "r \<in> set rs" for r
  proof -
    obtain rw where "parse_rule subs rw = Inr r"
      using rs r by (auto simp: parse_rules_def rules_loop_Inr list_all2_conv_all_nth in_set_conv_nth)
    then show ?thesis by (rule resolve_rule_ok)
  qed
  ultimately show ?thesis by (simp add: loaded_ok_def pol build_resolved_def)
qed

section \<open>Grants in terms of the raw document\<close>

definition term_covers :: "(string, Op list) btree \<Rightarrow> Op \<Rightarrow> ActionTerm \<Rightarrow> bool" where
  "term_covers roles op t =
     (case t of
        OpTerm x \<Rightarrow> x = op
      | Role nm \<Rightarrow> (case bt_get roles nm of None \<Rightarrow> False | Some ops \<Rightarrow> op \<in> set ops)
      | AnyOp \<Rightarrow> op \<in> set ALL_OPS)"

lemma fold_or_insert:
  "bt_get (fold (\<lambda>x. bt_or_insert x v) xs m) k =
     (case bt_get m k of Some w \<Rightarrow> Some w | None \<Rightarrow> if k \<in> set xs then Some v else None)"
  by (induction xs arbitrary: m) (auto simp: bt_get_or_insert split: option.splits)

lemma fold_or_insert_wf: "bt_wf m \<Longrightarrow> bt_wf (fold (\<lambda>x. bt_or_insert x v) xs m)"
  by (induction xs arbitrary: m) auto

lemma expand_term_get:
  "bt_get (expand_term roles t m) op =
     (case bt_get m op of Some w \<Rightarrow> Some w
      | None \<Rightarrow> if term_covers roles op t then Some (action_spelling t) else None)"
  by (cases t) (auto simp: expand_term_def term_covers_def fold_or_insert bt_get_or_insert split: option.splits)

lemma expand_term_wf: "bt_wf m \<Longrightarrow> bt_wf (expand_term roles t m)"
  by (cases t) (auto simp: expand_term_def fold_or_insert_wf split: option.splits)

lemma expand_ops_wf: "bt_wf (expand_ops ts roles)"
proof -
  have "bt_wf m \<Longrightarrow> bt_wf (fold (expand_term roles) ts m)" for m
    by (induction ts arbitrary: m) (auto simp: expand_term_wf)
  then show ?thesis by (simp add: expand_ops_def)
qed

text \<open>The first term that covers an operation gives its spelling.\<close>

lemma expand_ops_get:
  "bt_get (expand_ops ts roles) op = map_option action_spelling (find (term_covers roles op) ts)"
proof -
  have "bt_get (fold (expand_term roles) ts m) op =
     (case bt_get m op of Some w \<Rightarrow> Some w | None \<Rightarrow> map_option action_spelling (find (term_covers roles op) ts))" for m
    by (induction ts arbitrary: m) (auto simp: expand_term_get split: option.splits)
  then show ?thesis by (simp add: expand_ops_def bt_get_def)
qed

text \<open>What a raw rule grants, read from its strings.\<close>

definition raw_grants :: "(string, Op list) btree \<Rightarrow> RawRule \<Rightarrow> Op \<Rightarrow> string \<Rightarrow> bool" where
  "raw_grants roles raw op key \<longleftrightarrow>
     (\<exists>t \<in> set (rw_action raw). \<exists>a. ActionTerm_parse t = Inr a \<and> term_covers roles op a) \<and>
     (\<exists>t \<in> set (rw_target raw). \<exists>g. KeyGlob_parse t = Inr g \<and> glob_denotes g key)"

lemma find_covers:
  "(\<exists>t. find (term_covers roles op) ts = Some t) \<longleftrightarrow> (\<exists>t \<in> set ts. term_covers roles op t)"
  by (induction ts) auto

lemma collected_iff:
  "res_collect f xs = Inr ys \<Longrightarrow> (\<exists>y \<in> set ys. P y) \<longleftrightarrow> (\<exists>x \<in> set xs. \<exists>y. f x = Inr y \<and> P y)"
proof (induction xs arbitrary: ys)
  case (Cons x xs)
  then show ?case by auto
qed simp

lemma resolved_rule_grants:
  assumes "parse_rule subs raw = Inr r"
  shows "(\<exists>g \<in> set (rr_grants (resolve_rule roles r)). grant_matches op key g) \<longleftrightarrow> raw_grants roles raw op key"
proof -
  note p = parse_rule_Inr [OF assms]
  have "(\<exists>g \<in> set (rr_grants (resolve_rule roles r)). grant_matches op key g) \<longleftrightarrow>
    (\<exists>t \<in> set (rule_target r). glob_matches t key) \<and> (\<exists>a. (op, a) \<in> set (expand_ops (rule_action r) roles))"
  proof
    assume "(\<exists>t \<in> set (rule_target r). glob_matches t key) \<and> (\<exists>a. (op, a) \<in> set (expand_ops (rule_action r) roles))"
    then obtain t a where "t \<in> set (rule_target r)" "glob_matches t key" "(op, a) \<in> set (expand_ops (rule_action r) roles)"
      by blast
    then show "\<exists>g \<in> set (rr_grants (resolve_rule roles r)). grant_matches op key g"
      by (intro bexI [of _ "\<lparr>g_op = op, g_target = t, g_rule_id = rule_id r, g_action = a\<rparr>"])
        (simp_all add: grants_of_resolve_rule grant_matches_def)
  qed (auto simp: grants_of_resolve_rule grant_matches_def)
  also have "(\<exists>a. (op, a) \<in> set (expand_ops (rule_action r) roles)) \<longleftrightarrow>
    (\<exists>t \<in> set (rule_action r). term_covers roles op t)"
    by (simp add: bt_get_in_set [OF expand_ops_wf, symmetric] expand_ops_get find_covers)
  also have "\<dots> \<longleftrightarrow> (\<exists>t \<in> set (rw_action raw). \<exists>a. ActionTerm_parse t = Inr a \<and> term_covers roles op a)"
    using p by (intro collected_iff) simp
  also have "(\<exists>t \<in> set (rule_target r). glob_matches t key) \<longleftrightarrow>
    (\<exists>t \<in> set (rw_target raw). \<exists>g. KeyGlob_parse t = Inr g \<and> glob_matches g key)"
    using p by (intro collected_iff) simp
  also have "\<dots> \<longleftrightarrow> (\<exists>t \<in> set (rw_target raw). \<exists>g. KeyGlob_parse t = Inr g \<and> glob_denotes g key)"
    using source_of_parse glob_matches_denotes by blast
  finally show ?thesis by (auto simp: raw_grants_def)
qed

lemma loaded_has_grant:
  assumes "load env cj pj = Inr (cat, pol, cfg, warns)" and "env_parse_policy env pj = Some raw"
  shows "has_grant pol subj op key \<longleftrightarrow>
    (\<exists>rw \<in> set (raw_rules raw). subj \<in> set (rw_subjects rw) \<and> raw_grants (raw_roles raw) rw op key)"
proof -
  from assms obtain subs sw rs ws where
    "env_parse_catalog env cj = Some cat" and "cfg = raw_config raw"
    and "validate_catalog cat = Inr ws" and "parse_subjects env (raw_subjects raw) = Inr (subs, sw)"
    and rs: "parse_rules (raw_rules raw) subs = Inr rs" and "validate_rule_roles rs (raw_roles raw) = Inr ()"
    and pol: "pol = build_resolved subs rs (raw_roles raw)" and "warns = ws @ sw"
    by (elim load_Inr) auto
  have all: "list_all2 (\<lambda>raw r. parse_rule subs raw = Inr r) (raw_rules raw) rs"
    using rs by (simp add: parse_rules_def rules_loop_Inr)
  have one: "(\<exists>g. rule_grants subj op key (resolve_rule (raw_roles raw) r) g) \<longleftrightarrow>
      subj \<in> set (rw_subjects rw) \<and> raw_grants (raw_roles raw) rw op key"
    if "parse_rule subs rw = Inr r" for rw r
    using resolved_rule_grants [OF that, of "raw_roles raw" op key] parse_rule_Inr [OF that]
    by (auto simp: rule_grants_def)
  have "has_grant pol subj op key \<longleftrightarrow> (\<exists>r \<in> set rs. \<exists>g. rule_grants subj op key (resolve_rule (raw_roles raw) r) g)"
    by (simp add: has_grant_def pol build_resolved_def)
  also have "\<dots> \<longleftrightarrow> (\<exists>rw \<in> set (raw_rules raw). subj \<in> set (rw_subjects rw) \<and> raw_grants (raw_roles raw) rw op key)"
    using all by (induction rule: list_all2_induct) (simp_all add: one)
  finally show ?thesis .
qed

section \<open>Subjects in terms of the raw document\<close>

text \<open>Names are trimmed before they are stored, so the last raw entry with a given trimmed name wins.\<close>

definition raw_subject :: "(SubjectName \<times> RawSubjectDefinition) list \<Rightarrow> string \<Rightarrow> RawSubjectDefinition option" where
  "raw_subject raws nm = map_option snd (find (\<lambda>x. trim (fst x) = nm) (rev raws))"

definition same_subject :: "SubjectDefinition option \<Rightarrow> RawSubjectDefinition option \<Rightarrow> bool" where
  "same_subject a b \<longleftrightarrow>
     map_option (\<lambda>s. (sub_domain s, sub_break_glass s)) a = map_option (\<lambda>r. (rs_domain r, rs_break_glass r)) b"

lemma find_append: "find p (xs @ ys) = (case find p xs of Some x \<Rightarrow> Some x | None \<Rightarrow> find p ys)"
  by (induction xs) auto

lemma subjects_loop_raw:
  assumes "subjects_loop env raw acc subs warns = Inr (subs', warns')" and "accounts_ok env acc"
    and "\<forall>nm. same_subject (bt_get subs nm) (raw_subject before nm)"
  shows "same_subject (bt_get subs' nm) (raw_subject (before @ raw) nm)"
  using assms
proof (induction env raw acc subs warns arbitrary: before rule: subjects_loop.induct)
  case (2 env n raw rest acc subs warns)
  from "2.prems"(1) obtain nm' sub acc' where p: "parse_subject env n raw acc = Inr (nm', sub, acc')"
    and rest: "subjects_loop env rest acc' (bt_insert nm' sub subs) (warns @ complexity_warning nm' sub) = Inr (subs', warns')"
    by auto
  note ok = parse_subject_ok [OF p "2.prems"(2)]
  have "same_subject (bt_get (bt_insert nm' sub subs) nm) (raw_subject (before @ [(n, raw)]) nm)" for nm
    using ok "2.prems"(3) by (auto simp: bt_get_insert same_subject_def raw_subject_def)
  with "2.IH" [OF rest, of "before @ [(n, raw)]"] ok show ?case by simp
qed simp

lemma loaded_subject_raw:
  assumes "load env cj pj = Inr (cat, pol, cfg, warns)" and "env_parse_policy env pj = Some raw"
  shows "same_subject (bt_get (subjects pol) nm) (raw_subject (raw_subjects raw) nm)"
proof -
  from assms obtain subs sw rs ws where
    subs: "parse_subjects env (raw_subjects raw) = Inr (subs, sw)"
    and pol: "pol = build_resolved subs rs (raw_roles raw)"
    by (elim load_Inr) auto
  have "same_subject (bt_get subs nm) (raw_subject ([] @ raw_subjects raw) nm)"
    by (rule subjects_loop_raw [OF subs [unfolded parse_subjects_def]])
      (simp_all add: same_subject_def raw_subject_def bt_get_def)
  then show ?thesis by (simp add: pol build_resolved_def)
qed

lemma loaded_registered:
  assumes "load env cj pj = Inr (cat, pol, cfg, warns)" and "env_parse_policy env pj = Some raw"
    and "pdp_policy pdp = pol"
  shows "actor_is_registered pdp actor \<longleftrightarrow>
    (\<exists>r. raw_subject (raw_subjects raw) (actor_subject actor) = Some r \<and> rs_domain r = actor_domain actor)"
  using loaded_subject_raw [OF assms(1,2), of "actor_subject actor"] assms(3)
  by (cases "bt_get (subjects pol) (actor_subject actor)";
      cases "raw_subject (raw_subjects raw) (actor_subject actor)")
    (auto simp: actor_is_registered_def same_subject_def)

lemma loaded_config:
  assumes "load env cj pj = Inr (cat, pol, cfg, warns)"
  shows "env_parse_catalog env cj = Some cat"
  using assms by (elim load_Inr)

lemma admin_covers:
  assumes "term_covers roles op a" and "is_admin_op op"
  shows "a = OpTerm op \<or> (\<exists>nm ops. a = Role nm \<and> bt_get roles nm = Some ops \<and> op \<in> set ops)"
  using assms by (auto simp: term_covers_def ALL_OPS_iff split: ActionTerm.splits option.splits)

section \<open>Properties\<close>

definition demo_raw_policy :: RawPolicy where
  "demo_raw_policy = \<lparr>
     raw_subjects = [(''ops'', \<lparr>rs_domain = HostProcess, rs_break_glass = True,
         rs_match = JObj [(''all'', JArr [JObj [(''process.uid'', JInt 0)]])]\<rparr>),
       (''web'', \<lparr>rs_domain = HostProcess, rs_break_glass = False, rs_match = JObj [(''process.uid'', JInt 7)]\<rparr>)],
     raw_roles = [(''admin'', [OpReload])],
     raw_rules = [\<lparr>rw_id = ''r1'', rw_subjects = [''web''], rw_action = [''op:get''], rw_target = [''db.*''],
         rw_comment = None\<rparr>,
       \<lparr>rw_id = ''r2'', rw_subjects = [''ops''], rw_action = [''role:admin'', ''*''], rw_target = [''**''],
         rw_comment = None\<rparr>],
     raw_config = \<lparr>names = \<lparr>users = [], groups = []\<rparr>, memberships = []\<rparr>\<rparr>"

definition demo_probe :: FileProbe where
  "demo_probe = \<lparr>fp_open = False, fp_before = None, fp_content = None, fp_after = None,
     fp_path_after = None, fp_utf8 = True\<rparr>"

definition demo_load_env :: LoadEnv where
  "demo_load_env = \<lparr>env_parse_catalog = (\<lambda>_. Some demo_loaded_catalog), env_parse_policy = (\<lambda>_. Some demo_raw_policy),
     env_parse_value = (\<lambda>_. None), env_passwd = demo_probe, env_group = demo_probe,
     env_b64url_decode = (\<lambda>_. None), env_b32_decode = (\<lambda>_. None)\<rparr>"

definition demo_policy :: ResolvedPolicy where
  "demo_policy = \<lparr>
     subjects = [(''ops'', \<lparr>sub_domain = HostProcess, sub_break_glass = True,
         sub_match = EvAll [EvLeaf (ProcessUid (Numeric 0))]\<rparr>),
       (''web'', \<lparr>sub_domain = HostProcess, sub_break_glass = False, sub_match = EvLeaf (ProcessUid (Numeric 7))\<rparr>)],
     rules = [\<lparr>rr_subjects = [''web''], rr_grants = [\<lparr>g_op = OpGet, g_target = Pattern [Literal ''db'', Star],
         g_rule_id = ''r1'', g_action = ''op:get''\<rparr>]\<rparr>,
       \<lparr>rr_subjects = [''ops''], rr_grants =
         map (\<lambda>x. \<lparr>g_op = x, g_target = Pattern [DoubleStar], g_rule_id = ''r2'', g_action = ''*''\<rparr>) ALL_OPS @
         [\<lparr>g_op = OpReload, g_target = Pattern [DoubleStar], g_rule_id = ''r2'', g_action = ''role:admin''\<rparr>]\<rparr>]\<rparr>"

definition demo_loaded_pdp :: Pdp where
  "demo_loaded_pdp = \<lparr>pdp_catalog = demo_loaded_catalog, pdp_policy = demo_policy,
     pdp_config = raw_config demo_raw_policy\<rparr>"

definition demo_rules :: "Rule list" where
  "demo_rules = [\<lparr>rule_id = ''r1'', rule_subjects = [''web''], rule_action = [OpTerm OpGet],
       rule_target = [Pattern [Literal ''db'', Star]], rule_comment = None\<rparr>,
     \<lparr>rule_id = ''r2'', rule_subjects = [''ops''], rule_action = [Role ''admin'', AnyOp],
       rule_target = [Pattern [DoubleStar]], rule_comment = None\<rparr>]"

lemma demo_names: "trim ''ops'' = ''ops''" "trim ''web'' = ''web''" "\<not> has_control ''ops''" "\<not> has_control ''web''"
  by code_simp+

lemma demo_subjects:
  "parse_subjects env (raw_subjects demo_raw_policy) = Inr (subjects demo_policy, [])"
  by (simp add: parse_subjects_def demo_raw_policy_def demo_policy_def parse_subject_def demo_names
      compile_expression_def compile_predicate_def predicate_of_key_def compile_identity_def
      validate_predicate_domain_def predicate_domain_ok_def complexity_warning_def limits
      sat_add_usize_def usize_max_def u32_max_def)

lemma demo_rules_parse: "parse_rules (raw_rules demo_raw_policy) (subjects demo_policy) = Inr demo_rules"
  by code_simp

lemma demo_roles: "validate_rule_roles demo_rules (raw_roles demo_raw_policy) = Inr ()"
  by code_simp

lemma demo_resolved: "build_resolved (subjects demo_policy) demo_rules (raw_roles demo_raw_policy) = demo_policy"
  by code_simp

lemma demo_load:
  "load demo_load_env ''c'' ''p'' = Inr (demo_loaded_catalog, demo_policy, raw_config demo_raw_policy, [])"
  by (simp add: load_def demo_load_env_def ok_or_def demo_loaded_ok demo_subjects demo_rules_parse
      demo_roles demo_resolved)

text \<open>
  The policy document read directly, with no reference to the loader's tables: subject names
  count up to surrounding white space.
\<close>

definition document_registers :: "(SubjectName \<times> RawSubjectDefinition) list \<Rightarrow> AuthenticatedActor \<Rightarrow> bool" where
  "document_registers raws actor \<longleftrightarrow>
     (\<exists>(n, r) \<in> set raws. trim n = actor_subject actor \<and> rs_domain r = actor_domain actor)"

definition document_permits ::
    "RawPolicy \<Rightarrow> Catalog \<Rightarrow> AuthenticatedActor \<Rightarrow> Op \<Rightarrow> string \<Rightarrow> bool" where
  "document_permits raw cat actor op key \<longleftrightarrow>
     document_registers (raw_subjects raw) actor \<and>
     (\<exists>entry. bt_get (keys cat) key = Some entry \<and> hard_cap entry op = None \<and>
        ((\<exists>rw \<in> set (raw_rules raw). actor_subject actor \<in> set (rw_subjects rw) \<and>
             raw_grants (raw_roles raw) rw op key) \<or>
         ke_class entry = ClassPublic \<and> is_public_read op))"

lemma raw_subject_in: "raw_subject raws nm = Some r \<Longrightarrow> \<exists>n. (n, r) \<in> set raws \<and> trim n = nm"
  by (auto simp: raw_subject_def dest!: find_Some_in)

lemma raw_subject_distinct:
  assumes "distinct (map (trim \<circ> fst) raws)" and "(n, r) \<in> set raws"
  shows "raw_subject raws (trim n) = Some r"
proof (cases "raw_subject raws (trim n)")
  case None
  then show ?thesis using assms(2) by (auto simp: raw_subject_def find_None_iff)
next
  case (Some r')
  then obtain n' where "(n', r') \<in> set raws" "trim n' = trim n" using raw_subject_in by blast
  moreover have "inj_on (trim \<circ> fst) (set raws)" using assms(1) by (simp add: distinct_map)
  ultimately have "(n', r') = (n, r)" using inj_onD [of "trim \<circ> fst" "set raws" "(n', r')" "(n, r)"] assms(2) by simp
  then show ?thesis using Some by simp
qed



text \<open>
  C36: what loading guarantees. In every loaded policy the subject names are non-empty, at
  most 128 bytes and free of control characters; every subject expression has non-empty
  groups, at most eight levels and 64 leaves, and every leaf is well formed for the subject's
  domain (systemd selectors only outside the host-process domain, symbolic names only where
  they are admitted and with the identifier of the local account database, digests and
  signature keys in canonical form); every rule names registered subjects only; every
  granted target is a well-formed glob, and one that spans all keys is granted to
  break-glass subjects only.
\<close>

theorem loaded_policy_wellformed:
  "load env cj pj = Inr (cat, pol, cfg, warns) \<Longrightarrow> loaded_ok env pol"
  by (rule load_ok)

lemma loaded_policy_wellformed_witness:
  "load demo_load_env ''c'' ''p'' = Inr (demo_loaded_catalog, demo_policy, raw_config demo_raw_policy, []) \<and>
   loaded_ok demo_load_env demo_policy"
  using demo_load loaded_policy_wellformed [OF demo_load] by simp

text \<open>
  C29: no wildcard confers administration. When the decision point allows a broker-wide
  operation under a loaded policy, the document has a rule that names the subject and either
  spells the operation out as \<open>op:\<close> or names a role whose definition contains it; an action
  \<open>*\<close> never suffices.
\<close>

theorem admin_needs_explicit_action:
  assumes "load env cj pj = Inr (cat, pol, cfg, warns)" and "env_parse_policy env pj = Some raw"
    and "is_allow (decide_admin \<lparr>pdp_catalog = cat, pdp_policy = pol, pdp_config = cfg\<rparr> actor op)"
  shows "\<exists>rw \<in> set (raw_rules raw). actor_subject actor \<in> set (rw_subjects rw) \<and>
    (''op:'' @ op_token op \<in> set (rw_action rw) \<or>
     (\<exists>nm ops. ''role:'' @ nm \<in> set (rw_action rw) \<and> bt_get (raw_roles raw) nm = Some ops \<and> op \<in> set ops))"
proof -
  obtain target where t: "admin_target op = Some target" and h: "has_grant pol (actor_subject actor) op target"
    using assms(3) by (auto simp: decide_admin_def admin_loop_eq has_grant_def split: option.splits if_splits)
  from t have admin: "is_admin_op op" by (cases op) (simp_all add: admin_target_def is_admin_op_def)
  from h loaded_has_grant [OF assms(1,2)] obtain rw where rw: "rw \<in> set (raw_rules raw)"
    "actor_subject actor \<in> set (rw_subjects rw)" "raw_grants (raw_roles raw) rw op target" by blast
  then obtain t' a where a: "t' \<in> set (rw_action rw)" "ActionTerm_parse t' = Inr a" "term_covers (raw_roles raw) op a"
    by (auto simp: raw_grants_def)
  from ActionTerm_parse_Inr [OF a(2)] admin_covers [OF a(3) admin] a(1)
  have "''op:'' @ op_token op \<in> set (rw_action rw) \<or>
     (\<exists>nm ops. ''role:'' @ nm \<in> set (rw_action rw) \<and> bt_get (raw_roles raw) nm = Some ops \<and> op \<in> set ops)"
    by auto
  with rw show ?thesis by blast
qed

definition demo_ops_actor :: AuthenticatedActor where
  "demo_ops_actor = (demo_actor HostProcess)\<lparr>actor_subject := ''ops''\<rparr>"

lemma admin_needs_explicit_action_witness:
  "is_allow (decide_admin demo_loaded_pdp demo_ops_actor OpReload) \<and>
   (\<exists>rw. rw \<in> set (raw_rules demo_raw_policy) \<and> ''ops'' \<in> set (rw_subjects rw))"
proof -
  have p: "env_parse_policy demo_load_env ''p'' = Some demo_raw_policy" by (simp add: demo_load_env_def)
  have a: "is_allow (decide_admin demo_loaded_pdp demo_ops_actor OpReload)" by code_simp
  from admin_needs_explicit_action [OF demo_load p a [unfolded demo_loaded_pdp_def]] a
  show ?thesis by (auto simp: demo_ops_actor_def)
qed

text \<open>
  C28: the break-glass gate holds end to end. If under a loaded policy a rule gives a subject
  a grant whose target matches every key, then the document declares that subject
  \<open>breakGlass\<close>, whether the target was written \<open>*\<close> or \<open>**\<close>.
\<close>

theorem all_keys_grant_needs_break_glass:
  assumes "load env cj pj = Inr (cat, pol, cfg, warns)" and "env_parse_policy env pj = Some raw"
    and "rule \<in> set (rules pol)" and "g \<in> set (rr_grants rule)" and "s \<in> set (rr_subjects rule)"
    and "\<forall>k. glob_matches (g_target g) k"
  shows "\<exists>r. raw_subject (raw_subjects raw) s = Some r \<and> rs_break_glass r"
proof -
  have ok: "rule_ok (subjects pol) rule" using load_ok [OF assms(1)] assms(3) by (simp add: loaded_ok_def)
  then have "glob_wf (g_target g)" using assms(4) by (simp add: rule_ok_def)
  then have "matches_all (g_target g)" using assms(6) not_matches_all_misses by blast
  with ok assms(4,5) have "is_break_glass (subjects pol) s" by (auto simp: rule_ok_def)
  with loaded_subject_raw [OF assms(1,2), of s] show ?thesis
    by (cases "bt_get (subjects pol) s"; cases "raw_subject (raw_subjects raw) s")
      (auto simp: is_break_glass_def same_subject_def)
qed

lemma all_keys_grant_needs_break_glass_witness:
  "\<exists>r. raw_subject (raw_subjects demo_raw_policy) ''ops'' = Some r \<and> rs_break_glass r"
proof -
  have p: "env_parse_policy demo_load_env ''p'' = Some demo_raw_policy" by (simp add: demo_load_env_def)
  let ?r = "\<lparr>rr_subjects = [''ops''], rr_grants =
         map (\<lambda>x. \<lparr>g_op = x, g_target = Pattern [DoubleStar], g_rule_id = ''r2'', g_action = ''*''\<rparr>) ALL_OPS @
         [\<lparr>g_op = OpReload, g_target = Pattern [DoubleStar], g_rule_id = ''r2'', g_action = ''role:admin''\<rparr>]\<rparr>"
  have "\<forall>k. glob_matches (Pattern [DoubleStar]) k" by (simp add: matches_all_matches matches_all_def)
  then show ?thesis
    using all_keys_grant_needs_break_glass [OF demo_load p, of ?r
      "\<lparr>g_op = OpReload, g_target = Pattern [DoubleStar], g_rule_id = ''r2'', g_action = ''role:admin''\<rparr>" "''ops''"]
    by (simp add: demo_policy_def)
qed

text \<open>
  A document may register two subjects whose names differ only in surrounding white
  space; both pass validation and the later one silently replaces the earlier one, although
  the reader of the document refuses repeated names.
\<close>

theorem trimmed_subjects_collapse:
  "parse_subjects env
     [('' web'', \<lparr>rs_domain = HostProcess, rs_break_glass = True, rs_match = JObj [(''process.uid'', JInt 0)]\<rparr>),
      (''web'', \<lparr>rs_domain = HostProcess, rs_break_glass = False, rs_match = JObj [(''process.uid'', JInt 7)]\<rparr>)] =
   Inr ([(''web'', \<lparr>sub_domain = HostProcess, sub_break_glass = False, sub_match = EvLeaf (ProcessUid (Numeric 7))\<rparr>)], [])"
proof -
  have "trim '' web'' = ''web''" by code_simp
  then show ?thesis
    by (simp add: parse_subjects_def parse_subject_def demo_names
      compile_expression_def compile_predicate_def predicate_of_key_def compile_identity_def
      validate_predicate_domain_def predicate_domain_ok_def complexity_warning_def limits
      sat_add_usize_def usize_max_def u32_max_def)
qed

end
