(* ===== verification/Connection.thy ===== *)
theory Connection
  imports Actor
begin

text \<open>
  The registry of accepted transports (\<open>transport/connection.rs\<close>): admission under four hard
  ceilings, exact per-listener and per-type counts, cancellation, stream leases and the
  admission gate a listener transition holds. Each operation is one critical section of the
  registry's mutex, so it is one function on the state; the drop of a lease or a guard is the
  operation its \<open>Drop\<close> runs.

  Reading the peer credentials and delivering a cancellation signal are outside: the former
  enters as an option, the latter as a predicate \<open>delivered\<close> on connection ids.

  Results: the counts are exact and the ceilings hold in every reachable state; connection
  identifiers are never reused; couriers cannot take the capacity reserved for the host
  surface; while a gate is held no transport of a gated listener appears.
\<close>

section \<open>Association lists as counted maps\<close>

text \<open>\<open>get_mut\<close> followed by an update of the value.\<close>

definition bt_modify :: "'k :: linorder \<Rightarrow> ('v \<Rightarrow> 'v) \<Rightarrow> ('k, 'v) btree \<Rightarrow> ('k, 'v) btree" where
  "bt_modify k f m = map (\<lambda>(k', v). (k', if k' = k then f v else v)) m"

text \<open>A \<open>BTreeSet\<close> is a \<open>BTreeMap\<close> with unit values.\<close>

type_synonym 'a bset = "('a, unit) btree"

definition bs_mem :: "'a \<Rightarrow> 'a bset \<Rightarrow> bool" where
  "bs_mem x s \<longleftrightarrow> bt_get s x \<noteq> None"

definition bs_insert :: "'a :: linorder \<Rightarrow> 'a bset \<Rightarrow> 'a bset" where
  "bs_insert x s = bt_insert x () s"

definition bs_of_list :: "'a :: linorder list \<Rightarrow> 'a bset" where
  "bs_of_list xs = fold bs_insert xs []"

definition bt_count :: "('v \<Rightarrow> bool) \<Rightarrow> ('k, 'v) btree \<Rightarrow> nat" where
  "bt_count p m = length (filter (\<lambda>x. p (snd x)) m)"

section \<open>Data\<close>

definition DEFAULT_MAX_CONNECTIONS :: nat where "DEFAULT_MAX_CONNECTIONS = 4096"
definition DEFAULT_MAX_CONNECTIONS_PER_LISTENER :: nat where "DEFAULT_MAX_CONNECTIONS_PER_LISTENER = 1024"
definition DEFAULT_MAX_CONNECTIONS_HOST :: nat where "DEFAULT_MAX_CONNECTIONS_HOST = 1024"
definition DEFAULT_MAX_CONNECTIONS_COURIER :: nat where "DEFAULT_MAX_CONNECTIONS_COURIER = 3072"

datatype ListenerType = Host | Courier

record ConnectionCeilings =
  maximum :: nat
  maximum_per_listener :: nat
  maximum_host :: nat
  maximum_courier :: nat

definition ceilings_compiled :: ConnectionCeilings where
  "ceilings_compiled = \<lparr>maximum = DEFAULT_MAX_CONNECTIONS,
     maximum_per_listener = DEFAULT_MAX_CONNECTIONS_PER_LISTENER,
     maximum_host = DEFAULT_MAX_CONNECTIONS_HOST, maximum_courier = DEFAULT_MAX_CONNECTIONS_COURIER\<rparr>"

fun maximum_for_type :: "ConnectionCeilings \<Rightarrow> ListenerType \<Rightarrow> nat" where
  "maximum_for_type c Host = maximum_host c"
| "maximum_for_type c Courier = maximum_courier c"

definition is_coherent :: "ConnectionCeilings \<Rightarrow> bool" where
  "is_coherent c \<longleftrightarrow> maximum c \<noteq> 0 \<and> maximum_per_listener c \<noteq> 0 \<and> maximum_host c \<noteq> 0 \<and>
     maximum_courier c \<noteq> 0 \<and> maximum_per_listener c \<le> maximum c \<and>
     maximum_host c \<le> maximum c \<and> maximum_courier c \<le> maximum c"

record TypeCounts =
  tc_host :: nat
  tc_courier :: nat

fun tc_get :: "TypeCounts \<Rightarrow> ListenerType \<Rightarrow> nat" where
  "tc_get c Host = tc_host c"
| "tc_get c Courier = tc_courier c"

fun tc_update :: "ListenerType \<Rightarrow> (nat \<Rightarrow> nat) \<Rightarrow> TypeCounts \<Rightarrow> TypeCounts" where
  "tc_update Host f c = c\<lparr>tc_host := f (tc_host c)\<rparr>"
| "tc_update Courier f c = c\<lparr>tc_courier := f (tc_courier c)\<rparr>"

definition admission_count :: "TypeCounts \<Rightarrow> ListenerType \<Rightarrow> nat" where
  "admission_count c lt = (case lt of Host \<Rightarrow> tc_host c | Courier \<Rightarrow> tc_courier c)"

text \<open>Identifiers are \<open>u64\<close> values, kept as naturals below \<open>2^64\<close>.\<close>

type_synonym ConnectionId = nat


definition connection_id_from_u64 :: "nat \<Rightarrow> ConnectionId option" where
  "connection_id_from_u64 v = (if v = 0 then None else Some v)"

record ListenerConnectInfo =
  ci_connection_id :: ConnectionId
  ci_listener_name :: string
  ci_listener_type :: ListenerType
  ci_peer :: PeerInfo

record ConnectionIdentity =
  cid_domain :: AuthorizationDomain
  cid_subject :: string
  cid_workload :: "WorkloadIdentity option"

record ConnectionRecord =
  cr_context :: ListenerConnectInfo
  cr_identity :: "ConnectionIdentity option"
  cr_cancellation_requested :: bool
  cr_active_streams :: nat

datatype ConnectionSelector =
    SelId ConnectionId
  | SelUid u32
  | SelSystemd string "u32 option"

record ConnectionCancellation =
  cc_matched :: nat
  cc_cancelled :: nat
  cc_already_requested :: nat
  cc_caller_excluded :: nat

datatype ConnectionRegistryError =
    InvalidLimit
  | GlobalLimit
  | ListenerLimit string
  | ListenerTypeLimit ListenerType
  | IdExhausted
  | PeerCredentials
  | ListenerGated string
  | ConnectionUnavailable
  | StreamCountExhausted

text \<open>\<open>re_cancel\<close> tells whether the entry still holds its one-shot sender.\<close>

record RegistryEntry =
  re_context :: ListenerConnectInfo
  re_identity :: "ConnectionIdentity option"
  re_cancel :: bool
  re_active_streams :: nat

record RegistryState =
  next_id :: "nat option"
  reg_entries :: "(ConnectionId, RegistryEntry) btree"
  listener_counts :: "(string, nat) btree"
  type_counts :: TypeCounts
  gated_listeners :: "string bset"

section \<open>Operations\<close>

definition from_ceilings :: RegistryState where
  "from_ceilings = \<lparr>next_id = Some 1, reg_entries = [], listener_counts = [],
     type_counts = \<lparr>tc_host = 0, tc_courier = 0\<rparr>, gated_listeners = []\<rparr>"

definition with_ceilings :: "ConnectionCeilings \<Rightarrow> ConnectionRegistryError + RegistryState" where
  "with_ceilings c = (if \<not> is_coherent c then Inl InvalidLimit else Inr from_ceilings)"

definition registry_new :: "nat \<Rightarrow> nat \<Rightarrow> ConnectionRegistryError + RegistryState" where
  "registry_new mx per_listener = with_ceilings \<lparr>maximum = mx, maximum_per_listener = per_listener,
     maximum_host = mx, maximum_courier = mx\<rparr>"

definition checked_succ :: "nat \<Rightarrow> nat option" where
  "checked_succ n = (if n < u64_max then Some (n + 1) else None)"

definition register ::
    "ConnectionCeilings \<Rightarrow> PeerInfo option \<Rightarrow> string \<Rightarrow> ListenerType \<Rightarrow> RegistryState \<Rightarrow>
     (ConnectionRegistryError + ListenerConnectInfo) \<times> RegistryState" where
  "register c peer_result listener_name listener_type st =
     (case peer_result of
        None \<Rightarrow> (Inl PeerCredentials, st)
      | Some peer \<Rightarrow>
          if bs_mem listener_name (gated_listeners st) then (Inl (ListenerGated listener_name), st)
          else if length (reg_entries st) \<ge> maximum c then (Inl GlobalLimit, st)
          else if admission_count (type_counts st) listener_type \<ge> maximum_for_type c listener_type
          then (Inl (ListenerTypeLimit listener_type), st)
          else if (case bt_get (listener_counts st) listener_name of
                     Some n \<Rightarrow> n \<ge> maximum_per_listener c | None \<Rightarrow> False)
          then (Inl (ListenerLimit listener_name), st)
          else case next_id st of
            None \<Rightarrow> (Inl IdExhausted, st)
          | Some raw_id \<Rightarrow>
              if bt_get (reg_entries st) raw_id \<noteq> None then (Inl IdExhausted, st\<lparr>next_id := None\<rparr>)
              else
                let ctx = \<lparr>ci_connection_id = raw_id, ci_listener_name = listener_name,
                      ci_listener_type = listener_type, ci_peer = peer\<rparr>
                in (Inr ctx,
                  st\<lparr>next_id := checked_succ raw_id,
                     reg_entries := bt_insert raw_id
                       \<lparr>re_context = ctx, re_identity = None, re_cancel = True, re_active_streams = 0\<rparr>
                       (reg_entries st),
                     listener_counts := (case bt_get (listener_counts st) listener_name of
                        Some n \<Rightarrow> bt_insert listener_name (n + 1) (listener_counts st)
                      | None \<Rightarrow> bt_insert listener_name 1 (listener_counts st)),
                     type_counts := tc_update listener_type (\<lambda>n. sat_add_usize n 1) (type_counts st)\<rparr>))"

text \<open>\<open>cancel\<close> takes the sender of one entry; the signal is sent after the lock is released.\<close>

definition cancel :: "(ConnectionId \<Rightarrow> bool) \<Rightarrow> ConnectionId \<Rightarrow> RegistryState \<Rightarrow> bool \<times> RegistryState" where
  "cancel delivered i st =
     (case bt_get (reg_entries st) i of
        None \<Rightarrow> (False, st)
      | Some e \<Rightarrow> (re_cancel e \<and> delivered i,
          st\<lparr>reg_entries := bt_modify i (\<lambda>e. e\<lparr>re_cancel := False\<rparr>) (reg_entries st)\<rparr>))"

definition record_actor :: "ConnectionId \<Rightarrow> AuthenticatedActor \<Rightarrow> RegistryState \<Rightarrow> RegistryState" where
  "record_actor i actor st =
     st\<lparr>reg_entries := bt_modify i (\<lambda>e. e\<lparr>re_identity := Some
       \<lparr>cid_domain = actor_domain actor, cid_subject = actor_subject actor,
        cid_workload = actor_workload_identity actor\<rparr>\<rparr>) (reg_entries st)\<rparr>"

definition begin_stream :: "ConnectionId \<Rightarrow> RegistryState \<Rightarrow> (ConnectionRegistryError + unit) \<times> RegistryState" where
  "begin_stream i st =
     (case bt_get (reg_entries st) i of
        None \<Rightarrow> (Inl ConnectionUnavailable, st)
      | Some e \<Rightarrow>
          if re_active_streams e \<ge> usize_max then (Inl StreamCountExhausted, st)
          else (Inr (), st\<lparr>reg_entries := bt_modify i
            (\<lambda>e. e\<lparr>re_active_streams := re_active_streams e + 1\<rparr>) (reg_entries st)\<rparr>))"

text \<open>The first drop of a \<open>ConnectionStreamLease\<close>.\<close>

definition end_stream :: "ConnectionId \<Rightarrow> RegistryState \<Rightarrow> RegistryState" where
  "end_stream i st =
     st\<lparr>reg_entries := bt_modify i (\<lambda>e. e\<lparr>re_active_streams := re_active_streams e - 1\<rparr>) (reg_entries st)\<rparr>"

definition selector_matches :: "ConnectionSelector \<Rightarrow> ConnectionId \<Rightarrow> RegistryEntry \<Rightarrow> bool" where
  "selector_matches selector i e =
     (case selector of
        SelId expected \<Rightarrow> i = expected
      | SelUid expected \<Rightarrow> peer_uid (ci_peer (re_context e)) = Some expected
      | SelSystemd u mu \<Rightarrow>
          (case Option.bind (re_identity e) cid_workload of
             Some (SystemdIdentity actual_unit actual_manager) \<Rightarrow> actual_unit = u \<and> actual_manager = mu
           | None \<Rightarrow> False))"

text \<open>The loop of \<open>cancel_matching\<close> over the entries in id order, with the extracted senders.\<close>

fun cancel_loop ::
    "ConnectionSelector list \<Rightarrow> ConnectionId option \<Rightarrow> (ConnectionId \<times> RegistryEntry) list \<Rightarrow>
     ConnectionId list \<Rightarrow> ConnectionCancellation \<Rightarrow>
     (ConnectionId \<times> RegistryEntry) list \<times> ConnectionId list \<times> ConnectionCancellation" where
  "cancel_loop selectors caller [] senders result = ([], senders, result)"
| "cancel_loop selectors caller ((i, e) # rest) senders result =
     (if \<not> list_ex (\<lambda>s. selector_matches s i e) selectors
      then (case cancel_loop selectors caller rest senders result of (es, ss, r) \<Rightarrow> ((i, e) # es, ss, r))
      else
        let result' = result\<lparr>cc_matched := cc_matched result + 1\<rparr> in
        if caller = Some i
        then (case cancel_loop selectors caller rest senders
                (result'\<lparr>cc_caller_excluded := cc_caller_excluded result' + 1\<rparr>) of (es, ss, r) \<Rightarrow> ((i, e) # es, ss, r))
        else if re_cancel e
        then (case cancel_loop selectors caller rest (senders @ [i]) result' of (es, ss, r) \<Rightarrow>
                ((i, e\<lparr>re_cancel := False\<rparr>) # es, ss, r))
        else (case cancel_loop selectors caller rest senders
                (result'\<lparr>cc_already_requested := cc_already_requested result' + 1\<rparr>) of (es, ss, r) \<Rightarrow> ((i, e) # es, ss, r)))"

definition cancel_matching ::
    "(ConnectionId \<Rightarrow> bool) \<Rightarrow> ConnectionSelector list \<Rightarrow> ConnectionId option \<Rightarrow> RegistryState \<Rightarrow>
     ConnectionCancellation \<times> RegistryState" where
  "cancel_matching delivered selectors caller st =
     (case cancel_loop selectors caller (reg_entries st) []
         \<lparr>cc_matched = 0, cc_cancelled = 0, cc_already_requested = 0, cc_caller_excluded = 0\<rparr> of
        (es, senders, result) \<Rightarrow>
          (result\<lparr>cc_cancelled := length (filter delivered senders)\<rparr>, st\<lparr>reg_entries := es\<rparr>))"

definition registry_snapshot :: "RegistryState \<Rightarrow> ConnectionRecord list" where
  "registry_snapshot st =
     map (\<lambda>(i, e). \<lparr>cr_context = re_context e, cr_identity = re_identity e,
       cr_cancellation_requested = (\<not> re_cancel e), cr_active_streams = re_active_streams e\<rparr>) (reg_entries st)"

definition active_for_listener :: "RegistryState \<Rightarrow> string \<Rightarrow> nat" where
  "active_for_listener st nm = (case bt_get (listener_counts st) nm of Some n \<Rightarrow> n | None \<Rightarrow> 0)"

definition active_for_type :: "RegistryState \<Rightarrow> ListenerType \<Rightarrow> nat" where
  "active_for_type st lt = tc_get (type_counts st) lt"

record ListenerTransitionGuard =
  tg_names :: "string bset"
  tg_active :: "(string, nat) btree"

definition begin_listener_transition ::
    "string list \<Rightarrow> RegistryState \<Rightarrow> (ConnectionRegistryError + ListenerTransitionGuard) \<times> RegistryState" where
  "begin_listener_transition nms st =
     (let ns = bs_of_list nms in
      case find (\<lambda>(nm, _). bs_mem nm (gated_listeners st)) ns of
        Some (nm, _) \<Rightarrow> (Inl (ListenerGated nm), st)
      | None \<Rightarrow>
          (Inr \<lparr>tg_names = ns, tg_active = map (\<lambda>(nm, _). (nm, active_for_listener st nm)) ns\<rparr>,
           st\<lparr>gated_listeners := fold (\<lambda>(nm, _). bs_insert nm) ns (gated_listeners st)\<rparr>))"

definition guard_active :: "ListenerTransitionGuard \<Rightarrow> string \<Rightarrow> nat" where
  "guard_active g nm = (case bt_get (tg_active g) nm of Some n \<Rightarrow> n | None \<Rightarrow> 0)"

text \<open>The drop of a guard.\<close>

definition end_listener_transition :: "ListenerTransitionGuard \<Rightarrow> RegistryState \<Rightarrow> RegistryState" where
  "end_listener_transition g st =
     st\<lparr>gated_listeners := fold (\<lambda>(nm, _). bt_remove nm) (tg_names g) (gated_listeners st)\<rparr>"

text \<open>The drop of a connection's lease.\<close>

definition release :: "ConnectionId \<Rightarrow> RegistryState \<Rightarrow> RegistryState" where
  "release i st =
     (case bt_get (reg_entries st) i of
        None \<Rightarrow> st
      | Some e \<Rightarrow>
          let nm = ci_listener_name (re_context e) in
          st\<lparr>reg_entries := bt_remove i (reg_entries st),
             type_counts := tc_update (ci_listener_type (re_context e)) (\<lambda>n. n - 1) (type_counts st),
             listener_counts :=
               (case bt_get (listener_counts st) nm of
                  Some n \<Rightarrow> if n > 1 then bt_insert nm (n - 1) (listener_counts st)
                            else bt_remove nm (listener_counts st)
                | None \<Rightarrow> listener_counts st)\<rparr>)"

section \<open>Counting\<close>

lemma bt_wf_Cons: "bt_wf (x # m) \<longleftrightarrow> (\<forall>y \<in> set m. fst x < fst y) \<and> bt_wf m"
  by (auto simp: bt_wf_def)

lemma bt_get_Cons: "bt_get ((k', v) # m) k = (if k = k' then Some v else bt_get m k)"
  by (simp add: bt_get_def)

lemma bt_get_Nil [simp]: "bt_get [] k = None"
  by (simp add: bt_get_def)

lemma bt_count_insert_new:
  "bt_get m k = None \<Longrightarrow> bt_count p (bt_insert k v m) = bt_count p m + (if p v then 1 else 0)"
  by (induction k v m rule: bt_insert.induct) (auto simp: bt_count_def bt_get_Cons split: if_splits)

lemma bt_remove_absent: "bt_get m k = None \<Longrightarrow> bt_remove k m = m"
  by (induction m) (auto simp: bt_remove_def bt_get_Cons split: if_splits)

lemma bt_count_remove:
  assumes "bt_wf m" and "bt_get m k = Some v"
  shows "bt_count p m = bt_count p (bt_remove k m) + (if p v then 1 else 0)"
  using assms
proof (induction m)
  case (Cons x m)
  obtain k' v' where x: "x = (k', v')" by fastforce
  show ?case
  proof (cases "k' = k")
    case True
    have "bt_get m k = None"
    proof (rule ccontr)
      assume "bt_get m k \<noteq> None"
      then obtain w where "bt_get m k = Some w" by blast
      with Cons.prems x True have "(k, w) \<in> set m" by (simp add: bt_wf_Cons bt_get_in_set)
      with Cons.prems(1) x True show False by (auto simp: bt_wf_Cons)
    qed
    then have "bt_remove k (x # m) = m"
      using x True bt_remove_absent [of m k] by (simp add: bt_remove_def)
    with Cons.prems x True show ?thesis by (simp add: bt_count_def bt_get_Cons)
  next
    case False
    with Cons x show ?thesis by (auto simp: bt_count_def bt_get_Cons bt_wf_Cons bt_remove_def)
  qed
qed simp

lemma length_bt_count: "length m = bt_count (\<lambda>_. True) m"
  by (simp add: bt_count_def)

lemma bt_modify_keys [simp]: "map fst (bt_modify k f m) = map fst m"
  by (simp add: bt_modify_def comp_def case_prod_beta)

lemma length_bt_modify [simp]: "length (bt_modify k f m) = length m"
  by (simp add: bt_modify_def)

lemma bt_wf_modify [simp]: "bt_wf (bt_modify k f m) = bt_wf m"
  by (simp add: bt_wf_def)

lemma bt_get_modify: "bt_get (bt_modify k f m) j = (if j = k then map_option f (bt_get m k) else bt_get m j)"
  by (induction m) (auto simp: bt_modify_def bt_get_def)

lemma bt_count_modify: "\<forall>v. p (f v) = p v \<Longrightarrow> bt_count p (bt_modify k f m) = bt_count p m"
  by (induction m) (simp_all add: bt_modify_def bt_count_def case_prod_beta)

lemma bt_count_le: "\<forall>v. p v \<longrightarrow> q v \<Longrightarrow> bt_count p m \<le> bt_count q m"
  by (induction m) (simp_all add: bt_count_def)

lemma bt_get_remove: "bt_wf m \<Longrightarrow> bt_get (bt_remove k m) j = (if j = k then None else bt_get m j)"
  by (simp add: bt.get_del)

lemma bt_wf_remove [simp]: "bt_wf m \<Longrightarrow> bt_wf (bt_remove k m)"
  by (simp add: bt_remove_def)

lemma bs_mem_insert [simp]: "bs_mem x (bs_insert y s) \<longleftrightarrow> x = y \<or> bs_mem x s"
  by (simp add: bs_mem_def bs_insert_def bt_get_insert)

lemma bs_wf_insert [simp]: "bt_wf s \<Longrightarrow> bt_wf (bs_insert x s)"
  by (simp add: bs_insert_def)

lemma bs_fold_insert:
  "bs_mem x (fold (\<lambda>(nm, _). bs_insert nm) ns s) \<longleftrightarrow> x \<in> fst ` set ns \<or> bs_mem x s"
  "bt_wf s \<Longrightarrow> bt_wf (fold (\<lambda>(nm, _). bs_insert nm) ns s)"
  by (induction ns arbitrary: s) auto

lemma bs_mem_remove [simp]: "bt_wf s \<Longrightarrow> bs_mem x (bt_remove y s) \<longleftrightarrow> x \<noteq> y \<and> bs_mem x s"
  by (simp add: bs_mem_def bt_get_remove)

lemma bs_fold_remove:
  "bt_wf s \<Longrightarrow> bt_wf (fold (\<lambda>(nm, _). bt_remove nm) ns s)"
  "bt_wf s \<Longrightarrow> bs_mem x (fold (\<lambda>(nm, _). bt_remove nm) ns s) \<longleftrightarrow> bs_mem x s \<and> x \<notin> fst ` set ns"
  by (induction ns arbitrary: s) (force simp: image_iff)+

lemma bs_of_list_props: "bt_wf (bs_of_list xs)" "bs_mem x (bs_of_list xs) \<longleftrightarrow> x \<in> set xs"
proof -
  have "bt_wf s \<Longrightarrow> bt_wf (fold bs_insert xs s)" for s by (induction xs arbitrary: s) auto
  then show "bt_wf (bs_of_list xs)" by (simp add: bs_of_list_def)
  have "bs_mem x (fold bs_insert xs s) \<longleftrightarrow> x \<in> set xs \<or> bs_mem x s" for s by (induction xs arbitrary: s) auto
  then show "bs_mem x (bs_of_list xs) \<longleftrightarrow> x \<in> set xs" by (simp add: bs_of_list_def bs_mem_def)
qed

lemma bs_mem_keys: "bs_mem x s \<longleftrightarrow> x \<in> fst ` set s"
  unfolding bs_mem_def bt_get_def by (metis map_of_eq_None_iff)

section \<open>The registry invariant\<close>

definition by_name :: "string \<Rightarrow> RegistryEntry \<Rightarrow> bool" where
  "by_name nm e \<longleftrightarrow> ci_listener_name (re_context e) = nm"

definition by_type :: "ListenerType \<Rightarrow> RegistryEntry \<Rightarrow> bool" where
  "by_type lt e \<longleftrightarrow> ci_listener_type (re_context e) = lt"

abbreviation count_name :: "RegistryState \<Rightarrow> string \<Rightarrow> nat" where
  "count_name st nm \<equiv> bt_count (by_name nm) (reg_entries st)"

abbreviation count_type :: "RegistryState \<Rightarrow> ListenerType \<Rightarrow> nat" where
  "count_type st lt \<equiv> bt_count (by_type lt) (reg_entries st)"

definition nonzero :: "nat \<Rightarrow> nat option" where
  "nonzero n = (if n = 0 then None else Some n)"

definition ids_ok :: "RegistryState \<Rightarrow> bool" where
  "ids_ok st \<longleftrightarrow> bt_wf (reg_entries st) \<and>
     (\<forall>i e. bt_get (reg_entries st) i = Some e \<longrightarrow>
        ci_connection_id (re_context e) = i \<and> 1 \<le> i \<and> i \<le> u64_max \<and> (\<forall>n. next_id st = Some n \<longrightarrow> i < n)) \<and>
     (\<forall>n. next_id st = Some n \<longrightarrow> 1 \<le> n \<and> n \<le> u64_max)"

definition counts_exact :: "RegistryState \<Rightarrow> bool" where
  "counts_exact st \<longleftrightarrow> bt_wf (listener_counts st) \<and>
     (\<forall>nm. bt_get (listener_counts st) nm = nonzero (count_name st nm)) \<and>
     (\<forall>lt. tc_get (type_counts st) lt = count_type st lt)"

definition ceilings_hold :: "ConnectionCeilings \<Rightarrow> RegistryState \<Rightarrow> bool" where
  "ceilings_hold c st \<longleftrightarrow> length (reg_entries st) \<le> maximum c \<and>
     (\<forall>lt. count_type st lt \<le> maximum_for_type c lt) \<and> (\<forall>nm. count_name st nm \<le> maximum_per_listener c)"

definition reg_inv :: "ConnectionCeilings \<Rightarrow> RegistryState \<Rightarrow> bool" where
  "reg_inv c st \<longleftrightarrow> bt_wf (gated_listeners st) \<and> ids_ok st \<and> counts_exact st \<and> ceilings_hold c st"

definition sized :: "ConnectionCeilings \<Rightarrow> bool" where
  "sized c \<longleftrightarrow> is_coherent c \<and> maximum c \<le> usize_max"

lemma active_for_listener_count: "counts_exact st \<Longrightarrow> active_for_listener st nm = count_name st nm"
  by (simp add: active_for_listener_def counts_exact_def nonzero_def)

lemma tc_get_update [simp]: "tc_get (tc_update lt f c) lt' = (if lt' = lt then f (tc_get c lt) else tc_get c lt')"
  by (cases lt; cases lt') simp_all

lemma admission_count_get: "admission_count c lt = tc_get c lt"
  by (cases lt) (simp_all add: admission_count_def)

lemma count_type_le: "count_type st lt \<le> length (reg_entries st)"
  unfolding length_bt_count by (rule bt_count_le) simp

lemma count_name_le: "count_name st nm \<le> length (reg_entries st)"
  unfolding length_bt_count by (rule bt_count_le) simp

lemma count_types_sum: "count_type st Host + count_type st Courier = length (reg_entries st)"
proof -
  have "bt_count (by_type Host) m + bt_count (by_type Courier) m = length m" for m :: "(nat, RegistryEntry) btree"
  proof (induction m)
    case (Cons x m)
    then show ?case by (cases "ci_listener_type (re_context (snd x))") (auto simp: bt_count_def by_type_def)
  qed (simp add: bt_count_def)
  then show ?thesis .
qed

lemma from_ceilings_inv: "reg_inv c from_ceilings"
proof -
  have "tc_get \<lparr>tc_host = 0, tc_courier = 0\<rparr> lt = 0" for lt by (cases lt) simp_all
  then show ?thesis
    by (simp add: reg_inv_def from_ceilings_def ids_ok_def counts_exact_def ceilings_hold_def nonzero_def
      bt_count_def u64_max_def)
qed

subsection \<open>Operations that keep every context\<close>

definition contexts :: "(ConnectionId, RegistryEntry) btree \<Rightarrow> (ConnectionId \<times> ListenerConnectInfo) list" where
  "contexts m = map (\<lambda>(i, e). (i, re_context e)) m"

lemma contexts_Cons [simp]: "contexts ((i, e) # m) = (i, re_context e) # contexts m"
  by (simp add: contexts_def)

lemma contexts_keys: "map fst m = map fst (contexts m)"
  by (simp add: contexts_def comp_def case_prod_beta)

lemma contexts_get: "map_option re_context (bt_get m i) = map_of (contexts m) i"
  by (induction m) (auto simp: bt_get_Cons contexts_def)

lemma contexts_count:
  "bt_count (by_name nm) m = length (filter (\<lambda>x. ci_listener_name (snd x) = nm) (contexts m))"
  "bt_count (by_type lt) m = length (filter (\<lambda>x. ci_listener_type (snd x) = lt) (contexts m))"
  by (induction m) (auto simp: bt_count_def by_name_def by_type_def contexts_def)

lemma contexts_modify: "(\<And>e. re_context (f e) = re_context e) \<Longrightarrow> contexts (bt_modify k f m) = contexts m"
  by (simp add: contexts_def bt_modify_def case_prod_beta)

text \<open>The invariant only depends on the contexts.\<close>

lemma reg_inv_contexts:
  assumes "contexts m = contexts (reg_entries st)" and "reg_inv c st"
  shows "reg_inv c (st\<lparr>reg_entries := m\<rparr>)"
proof -
  have keys: "map fst m = map fst (reg_entries st)" using assms(1) by (simp add: contexts_keys)
  then have len: "length m = length (reg_entries st)" by (metis length_map)
  have wf: "bt_wf m \<longleftrightarrow> bt_wf (reg_entries st)" using keys by (simp add: bt_wf_def)
  have ctx: "map_option re_context (bt_get m i) = map_option re_context (bt_get (reg_entries st) i)" for i
    using assms(1) by (simp add: contexts_get)
  have get: "\<exists>e'. bt_get (reg_entries st) i = Some e' \<and> re_context e' = re_context e" if "bt_get m i = Some e" for i e
    using ctx [of i] that by (cases "bt_get (reg_entries st) i") auto
  have cnt: "bt_count (by_name nm) m = count_name st nm" "bt_count (by_type lt) m = count_type st lt" for nm lt
    using assms(1) by (simp_all add: contexts_count)
  have "ids_ok (st\<lparr>reg_entries := m\<rparr>)"
    using assms(2) wf get by (fastforce simp: reg_inv_def ids_ok_def)
  with assms(2) cnt len show ?thesis
    by (simp add: reg_inv_def counts_exact_def ceilings_hold_def)
qed

lemma cancel_loop_contexts:
  "contexts (fst (cancel_loop sels caller es senders r)) = contexts es"
  by (induction sels caller es senders r rule: cancel_loop.induct)
    (auto simp: Let_def split: prod.splits)

lemma cancel_inv: "reg_inv c st \<Longrightarrow> reg_inv c (snd (cancel delivered i st))"
  by (auto simp: cancel_def split: option.splits intro!: reg_inv_contexts contexts_modify)

lemma record_actor_inv: "reg_inv c st \<Longrightarrow> reg_inv c (record_actor i actor st)"
  by (auto simp: record_actor_def intro!: reg_inv_contexts contexts_modify)

lemma begin_stream_inv: "reg_inv c st \<Longrightarrow> reg_inv c (snd (begin_stream i st))"
  by (auto simp: begin_stream_def split: option.splits intro!: reg_inv_contexts contexts_modify)

lemma end_stream_inv: "reg_inv c st \<Longrightarrow> reg_inv c (end_stream i st)"
  by (auto simp: end_stream_def intro!: reg_inv_contexts contexts_modify)

lemma cancel_matching_inv: "reg_inv c st \<Longrightarrow> reg_inv c (snd (cancel_matching delivered sels caller st))"
  using cancel_loop_contexts [of sels caller "reg_entries st" "[]"
    "\<lparr>cc_matched = 0, cc_cancelled = 0, cc_already_requested = 0, cc_caller_excluded = 0\<rparr>"]
  by (auto simp: cancel_matching_def split: prod.splits intro!: reg_inv_contexts)

subsection \<open>Gates\<close>

lemma begin_listener_transition_inv:
  "reg_inv c st \<Longrightarrow> reg_inv c (snd (begin_listener_transition nms st))"
  by (auto simp: begin_listener_transition_def Let_def reg_inv_def ids_ok_def counts_exact_def ceilings_hold_def
      bs_fold_insert split: option.splits)

lemma end_listener_transition_inv: "reg_inv c st \<Longrightarrow> reg_inv c (end_listener_transition g st)"
  by (auto simp: end_listener_transition_def reg_inv_def ids_ok_def counts_exact_def ceilings_hold_def bs_fold_remove)

subsection \<open>Registration and release\<close>

lemma register_refused:
  assumes "register c pr nm lt st = (Inl err, st')" and "ids_ok st"
  shows "st' = st"
proof -
  have "bt_get (reg_entries st) n = None" if "next_id st = Some n" for n
    using assms(2) that by (cases "bt_get (reg_entries st) n") (auto simp: ids_ok_def)
  with assms(1) show ?thesis
    by (auto simp: register_def Let_def split: option.splits if_splits)
qed

definition new_entry :: "ListenerConnectInfo \<Rightarrow> RegistryEntry" where
  "new_entry ctx = \<lparr>re_context = ctx, re_identity = None, re_cancel = True, re_active_streams = 0\<rparr>"

definition registered_state :: "nat \<Rightarrow> ListenerConnectInfo \<Rightarrow> RegistryState \<Rightarrow> RegistryState" where
  "registered_state raw ctx st =
     st\<lparr>next_id := checked_succ raw, reg_entries := bt_insert raw (new_entry ctx) (reg_entries st),
        listener_counts := (case bt_get (listener_counts st) (ci_listener_name ctx) of
           Some n \<Rightarrow> bt_insert (ci_listener_name ctx) (n + 1) (listener_counts st)
         | None \<Rightarrow> bt_insert (ci_listener_name ctx) 1 (listener_counts st)),
        type_counts := tc_update (ci_listener_type ctx) (\<lambda>n. sat_add_usize n 1) (type_counts st)\<rparr>"

lemma register_success:
  assumes "register c pr nm lt st = (Inr ctx, st')"
  shows "\<exists>raw peer. pr = Some peer \<and> next_id st = Some raw \<and> bt_get (reg_entries st) raw = None \<and>
    \<not> bs_mem nm (gated_listeners st) \<and> length (reg_entries st) < maximum c \<and>
    tc_get (type_counts st) lt < maximum_for_type c lt \<and>
    active_for_listener st nm < max 1 (maximum_per_listener c) \<and>
    ctx = \<lparr>ci_connection_id = raw, ci_listener_name = nm, ci_listener_type = lt, ci_peer = peer\<rparr> \<and>
    st' = registered_state raw ctx st"
  using assms
  by (auto simp: register_def registered_state_def new_entry_def Let_def admission_count_get active_for_listener_def
      split: option.splits if_splits)

lemma registered_counts:
  assumes "bt_get (reg_entries st) raw = None"
  shows "count_name (registered_state raw ctx st) nm = count_name st nm + (if ci_listener_name ctx = nm then 1 else 0)"
    and "count_type (registered_state raw ctx st) lt = count_type st lt + (if ci_listener_type ctx = lt then 1 else 0)"
    and "length (reg_entries (registered_state raw ctx st)) = Suc (length (reg_entries st))"
  using assms
  by (simp_all add: registered_state_def bt_count_insert_new by_name_def by_type_def new_entry_def length_bt_count)

lemma registered_ids:
  assumes "ids_ok st" and "next_id st = Some raw" and "ci_connection_id ctx = raw"
  shows "ids_ok (registered_state raw ctx st)"
  using assms
  by (auto simp: ids_ok_def registered_state_def new_entry_def bt_get_insert checked_succ_def less_Suc_eq
      split: if_splits)

lemma registered_exact:
  assumes "counts_exact st" and "bt_get (reg_entries st) raw = None" and "count_type st (ci_listener_type ctx) < usize_max"
  shows "counts_exact (registered_state raw ctx st)"
proof -
  let ?st = "registered_state raw ctx st"
  have "bt_get (listener_counts ?st) nm = nonzero (count_name ?st nm)" for nm
    unfolding registered_counts(1) [OF assms(2)]
    using assms(1) by (auto simp: registered_state_def counts_exact_def nonzero_def bt_get_insert split: if_splits)
  moreover have "bt_wf (listener_counts ?st)"
    using assms(1) by (auto simp: registered_state_def counts_exact_def split: option.splits)
  moreover have "tc_get (type_counts ?st) lt = count_type ?st lt" for lt
    unfolding registered_counts(2) [OF assms(2)]
    using assms(1,3) by (auto simp: registered_state_def counts_exact_def sat_add_usize_def)
  ultimately show ?thesis by (simp add: counts_exact_def)
qed

lemma register_inv:
  assumes "reg_inv c st" and "sized c"
  shows "reg_inv c (snd (register c pr nm lt st))"
proof (cases "register c pr nm lt st")
  case (Pair r st')
  show ?thesis
  proof (cases r)
    case (Inl e)
    have "ids_ok st" using assms(1) by (simp add: reg_inv_def)
    with register_refused [OF Pair [unfolded Inl]] have "st' = st" by blast
    with Pair assms(1) show ?thesis by simp
  next
    case (Inr ctx)
    from register_success [OF Pair [unfolded Inr]] obtain raw peer where
      s: "next_id st = Some raw" "bt_get (reg_entries st) raw = None" "length (reg_entries st) < maximum c"
        "tc_get (type_counts st) lt < maximum_for_type c lt" "active_for_listener st nm < max 1 (maximum_per_listener c)"
        "ctx = \<lparr>ci_connection_id = raw, ci_listener_name = nm, ci_listener_type = lt, ci_peer = peer\<rparr>"
        "st' = registered_state raw ctx st" by blast
    have inv: "ids_ok st" "counts_exact st" "ceilings_hold c st" "bt_wf (gated_listeners st)"
      using assms(1) by (simp_all add: reg_inv_def)
    have cap: "count_type st lt < maximum_for_type c lt" "count_name st nm < maximum_per_listener c"
      using s(4,5) inv(2) assms(2) active_for_listener_count [OF inv(2), of nm]
      by (auto simp: counts_exact_def sized_def is_coherent_def)
    have small: "count_type st lt < usize_max"
      using count_type_le [of lt st] s(3) assms(2) by (simp add: sized_def)
    have "ids_ok st'" unfolding s(7) by (rule registered_ids [OF inv(1) s(1)]) (simp add: s(6))
    moreover have "counts_exact st'"
      unfolding s(7) by (rule registered_exact [OF inv(2) s(2)]) (simp add: s(6) small)
    moreover have "ceilings_hold c st'"
      unfolding s(7) ceilings_hold_def registered_counts [OF s(2)]
      using inv(3) cap s(3,6) by (auto simp: ceilings_hold_def Suc_le_eq)
    moreover have "bt_wf (gated_listeners st')" using inv(4) s(7) by (simp add: registered_state_def)
    ultimately show ?thesis using Pair by (simp add: reg_inv_def)
  qed
qed

lemma release_absent: "bt_get (reg_entries st) i = None \<Longrightarrow> release i st = st"
  by (simp add: release_def)

lemma release_counts:
  assumes "bt_wf (reg_entries st)" and "bt_get (reg_entries st) i = Some e"
  shows "count_name st nm = count_name (release i st) nm + (if ci_listener_name (re_context e) = nm then 1 else 0)"
    and "count_type st lt = count_type (release i st) lt + (if ci_listener_type (re_context e) = lt then 1 else 0)"
    and "length (reg_entries st) = Suc (length (reg_entries (release i st)))"
  using bt_count_remove [OF assms] assms(2)
  by (simp_all add: release_def Let_def by_name_def by_type_def length_bt_count)

lemma release_listener_count:
  assumes "counts_exact st" and "bt_wf (reg_entries st)" and "bt_get (reg_entries st) i = Some e"
  shows "bt_get (listener_counts (release i st)) nm = nonzero (count_name (release i st) nm)"
proof -
  define own where "own = ci_listener_name (re_context e)"
  define r where "r = count_name (release i st) own"
  have g: "bt_get (listener_counts st) nm' = nonzero (count_name st nm')" for nm'
    using assms(1) by (simp add: counts_exact_def)
  have own: "count_name st own = Suc r"
    using release_counts(1) [OF assms(2,3), of own] by (simp add: own_def r_def)
  have wf: "bt_wf (listener_counts st)" using assms(1) by (simp add: counts_exact_def)
  have L: "listener_counts (release i st) =
      (if r = 0 then bt_remove own (listener_counts st) else bt_insert own r (listener_counts st))"
    using assms(3) g [of own] own by (simp add: release_def Let_def own_def [symmetric] nonzero_def)
  show ?thesis
  proof (cases "nm = own")
    case True
    then show ?thesis using L wf by (simp add: bt_get_insert bt_get_remove nonzero_def r_def)
  next
    case False
    then have "count_name (release i st) nm = count_name st nm"
      using release_counts(1) [OF assms(2,3), of nm] by (simp add: own_def)
    with False show ?thesis using L wf g [of nm] by (simp add: bt_get_insert bt_get_remove)
  qed
qed

lemma release_inv:
  assumes "reg_inv c st"
  shows "reg_inv c (release i st)"
proof (cases "bt_get (reg_entries st) i")
  case None
  with assms show ?thesis by (simp add: release_absent)
next
  case (Some e)
  have inv: "ids_ok st" "counts_exact st" "ceilings_hold c st" "bt_wf (gated_listeners st)" "bt_wf (reg_entries st)"
    using assms by (simp_all add: reg_inv_def ids_ok_def)
  note cnt = release_counts [OF inv(5) Some]
  have "ids_ok (release i st)"
    using inv(1) Some by (auto simp: ids_ok_def release_def Let_def bt_get_remove split: if_splits)
  moreover have "bt_wf (listener_counts (release i st))"
    using inv(2) Some by (auto simp: counts_exact_def release_def Let_def split: option.splits)
  moreover have "bt_get (listener_counts (release i st)) nm = nonzero (count_name (release i st) nm)" for nm
    by (rule release_listener_count [OF inv(2,5) Some])
  moreover have "tc_get (type_counts (release i st)) lt = count_type (release i st) lt" for lt
    using cnt(2) [of lt] inv(2) Some by (auto simp: release_def Let_def counts_exact_def split: if_splits)
  moreover have "ceilings_hold c (release i st)"
  proof -
    have "count_name (release i st) nm \<le> count_name st nm" "count_type (release i st) lt \<le> count_type st lt" for nm lt
      using cnt(1) [of nm] cnt(2) [of lt] by simp_all
    with inv(3) cnt(3) show ?thesis unfolding ceilings_hold_def by (intro conjI allI) (simp, (meson le_trans)+)
  qed
  moreover have "bt_wf (gated_listeners (release i st))"
    using inv(4) Some by (simp add: release_def Let_def)
  ultimately show ?thesis by (simp add: reg_inv_def counts_exact_def)
qed

section \<open>Runs of the registry\<close>

datatype ConnEvent =
    EvRegister string ListenerType "ConnectionRegistryError + ListenerConnectInfo"
  | EvRelease ConnectionId
  | EvCancel ConnectionId bool
  | EvCancelMatching "ConnectionSelector list" "ConnectionId option" ConnectionCancellation
  | EvActor ConnectionId AuthenticatedActor
  | EvBeginStream ConnectionId "ConnectionRegistryError + unit"
  | EvEndStream ConnectionId
  | EvGate "string list" "ConnectionRegistryError + ListenerTransitionGuard"
  | EvUngate ListenerTransitionGuard

inductive conn_step :: "ConnectionCeilings \<Rightarrow> RegistryState \<Rightarrow> ConnEvent \<Rightarrow> RegistryState \<Rightarrow> bool"
  for c :: ConnectionCeilings where
  st_register: "register c pr nm lt st = (r, st') \<Longrightarrow> conn_step c st (EvRegister nm lt r) st'"
| st_release: "conn_step c st (EvRelease i) (release i st)"
| st_cancel: "cancel delivered i st = (b, st') \<Longrightarrow> conn_step c st (EvCancel i b) st'"
| st_cancel_matching: "cancel_matching delivered sels caller st = (r, st') \<Longrightarrow>
     conn_step c st (EvCancelMatching sels caller r) st'"
| st_actor: "conn_step c st (EvActor i actor) (record_actor i actor st)"
| st_begin_stream: "begin_stream i st = (r, st') \<Longrightarrow> conn_step c st (EvBeginStream i r) st'"
| st_end_stream: "conn_step c st (EvEndStream i) (end_stream i st)"
| st_gate: "begin_listener_transition nms st = (r, st') \<Longrightarrow> conn_step c st (EvGate nms r) st'"
| st_ungate: "conn_step c st (EvUngate g) (end_listener_transition g st)"

lemma conn_step_inv:
  assumes "reg_inv c st \<and> sized c" and "conn_step c st ev st'"
  shows "reg_inv c st' \<and> sized c"
  using assms(2,1)
proof cases
  case (st_register pr nm lt r)
  then show ?thesis using assms(1) register_inv [of c st pr nm lt] by simp
next
  case (st_cancel delivered i b)
  then show ?thesis using assms(1) cancel_inv [of c st delivered i] by simp
next
  case (st_cancel_matching delivered sels caller r)
  then show ?thesis using assms(1) cancel_matching_inv [of c st delivered sels caller] by simp
next
  case (st_begin_stream i r)
  then show ?thesis using assms(1) begin_stream_inv [of c st i] by simp
next
  case (st_gate nms r)
  then show ?thesis using assms(1) begin_listener_transition_inv [of c st nms] by simp
qed (simp_all add: release_inv record_actor_inv end_stream_inv end_listener_transition_inv)

lemma conn_steps_inv:
  "steps (conn_step c) st es st' \<Longrightarrow> reg_inv c st \<Longrightarrow> sized c \<Longrightarrow> reg_inv c st'"
  using steps_invariant [of "conn_step c" st es st' "\<lambda>st. reg_inv c st \<and> sized c"] conn_step_inv by blast

subsection \<open>Identifiers\<close>

fun registered_id :: "ConnEvent \<Rightarrow> ConnectionId option" where
  "registered_id (EvRegister nm lt (Inr ctx)) = Some (ci_connection_id ctx)"
| "registered_id _ = None"

definition reg_ids :: "ConnEvent list \<Rightarrow> ConnectionId list" where
  "reg_ids es = concat (map (\<lambda>e. case registered_id e of Some i \<Rightarrow> [i] | None \<Rightarrow> []) es)"

lemma reg_ids_simps [simp]:
  "reg_ids [] = []"
  "reg_ids (e # es) = (case registered_id e of Some i \<Rightarrow> i # reg_ids es | None \<Rightarrow> reg_ids es)"
  by (simp_all add: reg_ids_def split: option.splits)

lemma conn_step_next_id:
  assumes "conn_step c st ev st'" and "reg_inv c st"
  shows "(registered_id ev = None \<and> next_id st' = next_id st) \<or>
    (\<exists>n. registered_id ev = Some n \<and> next_id st = Some n \<and> next_id st' = checked_succ n)"
  using assms(1)
proof cases
  case (st_register pr nm lt r)
  have ids: "ids_ok st" using assms(2) by (simp add: reg_inv_def)
  show ?thesis
  proof (cases r)
    case (Inl e)
    with st_register(2) have "st' = st" using register_refused ids by blast
    with Inl st_register(1) show ?thesis by simp
  next
    case (Inr ctx)
    from register_success [OF st_register(2) [unfolded Inr]] st_register(1) Inr show ?thesis
      by (auto simp: registered_state_def)
  qed
next
  case (st_cancel_matching delivered sels caller r)
  then show ?thesis by (auto simp: cancel_matching_def split: prod.splits)
qed (auto simp: release_def Let_def cancel_def record_actor_def begin_stream_def end_stream_def
      begin_listener_transition_def end_listener_transition_def split: option.splits if_splits)

lemma reg_ids_increasing:
  assumes "steps (conn_step c) st es st'" and "reg_inv c st" and "sized c"
  shows "sorted_wrt (<) (reg_ids es) \<and> (\<forall>i \<in> set (reg_ids es). \<exists>n. next_id st = Some n \<and> n \<le> i)"
  using assms
proof (induction rule: steps.induct)
  case (steps_cons s e t es u)
  have inv: "reg_inv c t" using conn_step_inv [of c s e t] steps_cons by blast
  from steps_cons inv have ih: "sorted_wrt (<) (reg_ids es)" "\<forall>i \<in> set (reg_ids es). \<exists>n. next_id t = Some n \<and> n \<le> i"
    by blast+
  from conn_step_next_id [OF steps_cons.hyps(1) steps_cons.prems(1)] show ?case
  proof (elim disjE exE conjE)
    assume "registered_id e = None" "next_id t = next_id s"
    with ih show ?thesis by simp
  next
    fix n assume n: "registered_id e = Some n" "next_id s = Some n" "next_id t = checked_succ n"
    with ih have "\<forall>i \<in> set (reg_ids es). n < i" by (auto simp: checked_succ_def split: if_splits)
    with n ih show ?thesis by (auto intro: less_imp_le)
  qed
qed simp

lemma reg_ids_distinct:
  assumes "steps (conn_step c) st es st'" and "reg_inv c st" and "sized c"
  shows "distinct (reg_ids es)"
  using reg_ids_increasing [OF assms] by (simp add: strict_sorted_iff)

subsection \<open>Cancellation signals\<close>

definition pending_senders :: "RegistryState \<Rightarrow> ConnectionId set" where
  "pending_senders st = {i. \<exists>e. bt_get (reg_entries st) i = Some e \<and> re_cancel e}"

fun cancelled_id :: "ConnEvent \<Rightarrow> ConnectionId option" where
  "cancelled_id (EvCancel i True) = Some i"
| "cancelled_id _ = None"

text \<open>The closed form of the loop of \<open>cancel_matching\<close>.\<close>

definition hit :: "ConnectionSelector list \<Rightarrow> ConnectionId \<times> RegistryEntry \<Rightarrow> bool" where
  "hit sels x \<longleftrightarrow> list_ex (\<lambda>s. selector_matches s (fst x) (snd x)) sels"

definition cancel_one :: "ConnectionSelector list \<Rightarrow> ConnectionId option \<Rightarrow> ConnectionId \<times> RegistryEntry \<Rightarrow> ConnectionId \<times> RegistryEntry" where
  "cancel_one sels caller x =
     (fst x, if hit sels x \<and> caller \<noteq> Some (fst x) then (snd x)\<lparr>re_cancel := False\<rparr> else snd x)"

lemma re_cancel_False_id: "\<not> re_cancel e \<Longrightarrow> e\<lparr>re_cancel := False\<rparr> = e"
  by (cases e) simp

lemma cancel_loop_eq:
  "cancel_loop sels caller es senders r =
     (map (cancel_one sels caller) es,
      senders @ map fst (filter (\<lambda>x. hit sels x \<and> caller \<noteq> Some (fst x) \<and> re_cancel (snd x)) es),
      r\<lparr>cc_matched := cc_matched r + length (filter (hit sels) es),
        cc_already_requested := cc_already_requested r +
          length (filter (\<lambda>x. hit sels x \<and> caller \<noteq> Some (fst x) \<and> \<not> re_cancel (snd x)) es),
        cc_caller_excluded := cc_caller_excluded r +
          length (filter (\<lambda>x. hit sels x \<and> caller = Some (fst x)) es)\<rparr>)"
proof (induction sels caller es senders r rule: cancel_loop.induct)
  case (2 selectors caller i e rest senders result)
  then show ?case
    by (auto simp: Let_def hit_def cancel_one_def re_cancel_False_id)
qed simp

lemma cancel_matching_eq:
  "cancel_matching delivered sels caller st =
     (\<lparr>cc_matched = length (filter (hit sels) (reg_entries st)),
       cc_cancelled = length (filter (\<lambda>x. hit sels x \<and> caller \<noteq> Some (fst x) \<and> re_cancel (snd x) \<and> delivered (fst x)) (reg_entries st)),
       cc_already_requested = length (filter (\<lambda>x. hit sels x \<and> caller \<noteq> Some (fst x) \<and> \<not> re_cancel (snd x)) (reg_entries st)),
       cc_caller_excluded = length (filter (\<lambda>x. hit sels x \<and> caller = Some (fst x)) (reg_entries st))\<rparr>,
      st\<lparr>reg_entries := map (cancel_one sels caller) (reg_entries st)\<rparr>)"
  by (simp add: cancel_matching_def cancel_loop_eq filter_map comp_def conj_commute conj_left_commute)

lemma bt_get_cancel_one:
  "bt_get (map (cancel_one sels caller) m) i = map_option (\<lambda>e. snd (cancel_one sels caller (i, e))) (bt_get m i)"
  by (induction m) (auto simp: cancel_one_def bt_get_def)

lemma conn_step_senders:
  assumes "reg_inv c st \<and> sized c" and "conn_step c st ev st'"
  shows "pending_senders st' \<subseteq> pending_senders st \<union> set_option (registered_id ev)"
  using assms(2)
proof cases
  case (st_register pr nm lt r)
  have ids: "ids_ok st" using assms(1) by (simp add: reg_inv_def)
  show ?thesis
  proof (cases r)
    case (Inl e)
    with st_register(2) have "st' = st" using register_refused ids by blast
    then show ?thesis by simp
  next
    case (Inr ctx)
    from register_success [OF st_register(2) [unfolded Inr]] st_register(1) Inr show ?thesis
      by (auto simp: registered_state_def pending_senders_def bt_get_insert split: if_splits)
  qed
next
  case (st_cancel_matching delivered sels caller r)
  then show ?thesis
    by (auto simp: cancel_matching_eq pending_senders_def bt_get_cancel_one cancel_one_def split: if_splits)
next
  case (st_release i)
  have "bt_wf (reg_entries st)" using assms(1) by (simp add: reg_inv_def ids_ok_def)
  with st_release show ?thesis
    by (auto simp: release_def Let_def pending_senders_def bt_get_remove split: option.splits if_splits)
qed (auto simp: cancel_def record_actor_def begin_stream_def end_stream_def pending_senders_def bt_get_modify
      begin_listener_transition_def end_listener_transition_def Let_def split: option.splits if_splits)

lemma conn_step_cancelled:
  assumes "reg_inv c st \<and> sized c" and "conn_step c st ev st'" and "cancelled_id ev = Some i"
  shows "i \<in> pending_senders st \<and> i \<notin> pending_senders st'"
  using assms(2)
proof cases
  case (st_cancel delivered j b)
  with assms(3) have "j = i" "b" by (cases b; simp)+
  with st_cancel show ?thesis
    by (auto simp: cancel_def pending_senders_def bt_get_modify split: option.splits)
qed (use assms(3) in auto)

interpretation cancellations: single_use "conn_step c" "\<lambda>st. reg_inv c st \<and> sized c" pending_senders registered_id cancelled_id
  for c
  by unfold_locales (fact conn_step_inv conn_step_senders conn_step_cancelled)+

lemma reg_ids_count: "length (filter (\<lambda>e. registered_id e = Some i) es) = count_list (reg_ids es) i"
  by (induction es) (auto split: option.splits)

subsection \<open>Listener gates\<close>

fun ungates :: "string \<Rightarrow> ConnEvent \<Rightarrow> bool" where
  "ungates nm (EvUngate g) = bs_mem nm (tg_names g)"
| "ungates nm _ = False"

lemma count_cancel_one: "bt_count (by_name nm) (map (cancel_one sels caller) m) = bt_count (by_name nm) m"
  by (induction m) (auto simp: bt_count_def cancel_one_def by_name_def)

lemma conn_step_gated:
  assumes "conn_step c st ev st'" and "reg_inv c st" and "bs_mem nm (gated_listeners st)" and "\<not> ungates nm ev"
  shows "bs_mem nm (gated_listeners st') \<and> count_name st' nm \<le> count_name st nm"
  using assms(1)
proof cases
  case (st_register pr nm' lt r)
  have ids: "ids_ok st" using assms(2) by (simp add: reg_inv_def)
  show ?thesis
  proof (cases r)
    case (Inl e)
    with st_register(2) have "st' = st" using register_refused ids by blast
    then show ?thesis using assms(3) by simp
  next
    case (Inr ctx)
    from register_success [OF st_register(2) [unfolded Inr]] obtain raw where
      s: "bt_get (reg_entries st) raw = None" "\<not> bs_mem nm' (gated_listeners st)" "ci_listener_name ctx = nm'"
        "st' = registered_state raw ctx st" by auto
    with assms(3) have "nm' \<noteq> nm" by blast
    with s assms(3) registered_counts(1) [OF s(1), where ctx = ctx and nm = nm] show ?thesis by (simp add: registered_state_def)
  qed
next
  case (st_release i)
  show ?thesis
  proof (cases "bt_get (reg_entries st) i")
    case None
    with st_release assms(3) show ?thesis by (simp add: release_absent)
  next
    case (Some e)
    have wf: "bt_wf (reg_entries st)" using assms(2) by (simp add: reg_inv_def ids_ok_def)
    from st_release Some assms(3) have "reg_entries st' = bt_remove i (reg_entries st)" "bs_mem nm (gated_listeners st')"
      by (simp_all add: release_def Let_def)
    then show ?thesis using bt_count_remove [OF wf Some, of "by_name nm"] by simp
  qed
next
  case (st_cancel_matching delivered sels caller r)
  then have "count_name st' nm = count_name st nm"
    using count_cancel_one [of nm sels caller "reg_entries st"] by (auto simp: cancel_matching_eq)
  with st_cancel_matching assms(3) show ?thesis by (auto simp: cancel_matching_eq)
next
  case (st_gate nms r)
  have "bt_wf (gated_listeners st)" using assms(2) by (simp add: reg_inv_def)
  with st_gate assms(3) show ?thesis
    by (auto simp: begin_listener_transition_def Let_def bs_fold_insert split: option.splits)
next
  case (st_ungate g)
  have "bt_wf (gated_listeners st)" using assms(2) by (simp add: reg_inv_def)
  moreover have "nm \<notin> fst ` set (tg_names g)" using st_ungate assms(4) by (simp add: bs_mem_keys)
  ultimately show ?thesis using st_ungate assms(3) by (auto simp: end_listener_transition_def bs_fold_remove)
qed (use assms(3) in \<open>auto simp: cancel_def record_actor_def begin_stream_def end_stream_def by_name_def
      bt_count_modify split: option.splits if_splits\<close>)

lemma conn_steps_gated:
  assumes "steps (conn_step c) st es st'" and "reg_inv c st" and "sized c"
    and "bs_mem nm (gated_listeners st)" and "\<not> list_ex (ungates nm) es"
  shows "bs_mem nm (gated_listeners st') \<and> count_name st' nm \<le> count_name st nm"
  using assms
proof (induction rule: steps.induct)
  case (steps_cons s e t es u)
  have "reg_inv c t" using conn_step_inv [of c s e t] steps_cons by blast
  moreover have "bs_mem nm (gated_listeners t) \<and> count_name t nm \<le> count_name s nm"
    using conn_step_gated [OF steps_cons.hyps(1)] steps_cons.prems by simp
  ultimately have "bs_mem nm (gated_listeners u) \<and> count_name u nm \<le> count_name t nm"
    using steps_cons by simp
  with \<open>bs_mem nm (gated_listeners t) \<and> count_name t nm \<le> count_name s nm\<close> show ?case by linarith
qed simp

section \<open>Properties\<close>

lemma length_filter_le_filter: "(\<And>x. x \<in> set xs \<Longrightarrow> P x \<Longrightarrow> Q x) \<Longrightarrow> length (filter P xs) \<le> length (filter Q xs)"
  by (induction xs) auto

lemma distinct_count_le: "distinct xs \<Longrightarrow> count_list xs x \<le> 1"
  by (induction xs) auto

lemma compiled_sized: "sized ceilings_compiled"
  by (simp add: sized_def is_coherent_def ceilings_compiled_def usize_max_def DEFAULT_MAX_CONNECTIONS_def
      DEFAULT_MAX_CONNECTIONS_PER_LISTENER_def DEFAULT_MAX_CONNECTIONS_HOST_def DEFAULT_MAX_CONNECTIONS_COURIER_def)

lemma length_snapshot: "length (registry_snapshot st) = length (reg_entries st)"
  by (simp add: registry_snapshot_def)

definition demo_peer :: PeerInfo where
  "demo_peer = \<lparr>peer_pid = Some 7, peer_uid = Some 1000, peer_gid = None, peer_executable_path = None,
     peer_attestation_class = '''', peer_subject_id = None, peer_signature_valid = False, peer_display_label = None\<rparr>"

definition demo_info :: ListenerConnectInfo where
  "demo_info = \<lparr>ci_connection_id = 1, ci_listener_name = ''host'', ci_listener_type = Host, ci_peer = demo_peer\<rparr>"

lemma demo_register:
  "register ceilings_compiled (Some demo_peer) ''host'' Host from_ceilings = (Inr demo_info, registered_state 1 demo_info from_ceilings)"
  by (simp add: register_def from_ceilings_def ceilings_compiled_def DEFAULT_MAX_CONNECTIONS_def Let_def
      DEFAULT_MAX_CONNECTIONS_PER_LISTENER_def DEFAULT_MAX_CONNECTIONS_HOST_def admission_count_def
      bs_mem_def demo_info_def registered_state_def new_entry_def)

lemma demo_steps:
  "steps (conn_step ceilings_compiled) from_ceilings [EvRegister ''host'' Host (Inr demo_info)] (registered_state 1 demo_info from_ceilings)"
  by (rule steps.intros, rule st_register, rule demo_register, rule steps.intros)

text \<open>
  C9: after any sequence of registrations, releases, cancellations, stream leases and listener
  gates from a fresh registry with coherent ceilings, the per-listener and per-type counters
  are exactly the numbers of live connections of that listener and type, and no ceiling
  (process, type, listener) is exceeded.
\<close>

theorem connection_counts_exact_and_bounded:
  assumes "with_ceilings c = Inr st" and "maximum c \<le> usize_max" and "steps (conn_step c) st es st'"
  shows "active_for_listener st' nm = length (filter (\<lambda>r. ci_listener_name (cr_context r) = nm) (registry_snapshot st'))
    \<and> active_for_type st' lt = length (filter (\<lambda>r. ci_listener_type (cr_context r) = lt) (registry_snapshot st'))
    \<and> length (registry_snapshot st') \<le> maximum c
    \<and> active_for_type st' lt \<le> maximum_for_type c lt
    \<and> active_for_listener st' nm \<le> maximum_per_listener c"
proof -
  from assms have st: "st = from_ceilings" and sz: "sized c"
    by (auto simp: with_ceilings_def sized_def split: if_splits)
  have "reg_inv c st'" using conn_steps_inv [OF assms(3)] sz from_ceilings_inv st by blast
  then have ce: "counts_exact st'" and "ceilings_hold c st'" by (simp_all add: reg_inv_def)
  moreover have "count_name st' nm = length (filter (\<lambda>r. ci_listener_name (cr_context r) = nm) (registry_snapshot st'))"
    "count_type st' lt = length (filter (\<lambda>r. ci_listener_type (cr_context r) = lt) (registry_snapshot st'))"
    by (simp_all add: bt_count_def registry_snapshot_def filter_map comp_def case_prod_beta by_name_def by_type_def)
  ultimately show ?thesis
    using active_for_listener_count [OF ce, of nm] length_snapshot [of st']
    unfolding ceilings_hold_def active_for_type_def counts_exact_def by metis
qed

theorem connection_counts_exact_and_bounded_witness:
  "active_for_listener (registered_state 1 demo_info from_ceilings) ''host'' \<le> maximum_per_listener ceilings_compiled"
  using connection_counts_exact_and_bounded [OF _ _ demo_steps, of "''host''" Host] compiled_sized
  by (simp add: with_ceilings_def sized_def)

text \<open>
  Over the whole life of a registry, connection ids are handed out in strictly increasing
  order, so none is ever reused, and one connection is told to stop by \<open>cancel\<close> at most once.
\<close>

theorem connection_ids_never_reused:
  assumes "sized c" and "steps (conn_step c) from_ceilings es st'"
  shows "sorted_wrt (<) (reg_ids es) \<and> distinct (reg_ids es)
    \<and> length (filter (\<lambda>e. cancelled_id e = Some i) es) \<le> 1"
proof -
  have inv: "reg_inv c from_ceilings" by (rule from_ceilings_inv)
  have d: "distinct (reg_ids es)" by (rule reg_ids_distinct [OF assms(2) inv assms(1)])
  then have "count_list (reg_ids es) i \<le> 1" by (rule distinct_count_le)
  moreover have "i \<notin> pending_senders from_ceilings" by (simp add: pending_senders_def from_ceilings_def)
  ultimately have "length (filter (\<lambda>e. cancelled_id e = Some i) es) \<le> 1"
    using cancellations.exactly_once [OF assms(2), of i] inv assms(1) by (simp add: reg_ids_count)
  with d reg_ids_increasing [OF assms(2) inv assms(1)] show ?thesis by blast
qed

theorem connection_ids_never_reused_witness:
  "sorted_wrt (<) (reg_ids [EvRegister ''host'' Host (Inr demo_info)])"
  using connection_ids_never_reused [OF compiled_sized demo_steps] by blast

text \<open>
  Couriers cannot shut the host out. In every state reachable under the compiled ceilings,
  a host listener that carries only host connections and is not being changed admits a further
  host connection as long as fewer than 1024 host connections are live and ids remain.
\<close>

theorem host_capacity_reserved:
  assumes "steps (conn_step ceilings_compiled) from_ceilings es st"
    and "active_for_type st Host < DEFAULT_MAX_CONNECTIONS_HOST"
    and "\<forall>r \<in> set (registry_snapshot st). ci_listener_name (cr_context r) = nm \<longrightarrow> ci_listener_type (cr_context r) = Host"
    and "\<not> bs_mem nm (gated_listeners st)" and "next_id st = Some n"
  shows "\<exists>ctx. fst (register ceilings_compiled (Some peer) nm Host st) = Inr ctx"
proof -
  have inv: "reg_inv ceilings_compiled st"
    using conn_steps_inv [OF assms(1) from_ceilings_inv compiled_sized] .
  then have ex: "counts_exact st" and ids: "ids_ok st" and ceil: "ceilings_hold ceilings_compiled st"
    by (simp_all add: reg_inv_def)
  have h: "count_type st Host < 1024" "tc_get (type_counts st) Host = count_type st Host"
    using assms(2) ex unfolding active_for_type_def counts_exact_def DEFAULT_MAX_CONNECTIONS_HOST_def by metis+
  have "count_type st Courier \<le> 3072"
    using ceil unfolding ceilings_hold_def
    by (metis ceilings_compiled_def maximum_for_type.simps(2) ConnectionCeilings.select_convs(4) DEFAULT_MAX_CONNECTIONS_COURIER_def)
  then have total_ok: "length (reg_entries st) < 4096" using h count_types_sum [of st] by linarith
  have "count_name st nm \<le> count_type st Host"
    using assms(3) unfolding bt_count_def
    by (intro length_filter_le_filter) (auto simp: registry_snapshot_def by_name_def by_type_def)
  then have lst: "bt_get (listener_counts st) nm = Some k \<Longrightarrow> k < 1024" for k
    using ex h by (auto simp: counts_exact_def nonzero_def split: if_splits)
  have "bt_get (reg_entries st) n = None"
    using ids assms(5) by (cases "bt_get (reg_entries st) n") (auto simp: ids_ok_def)
  with total_ok lst h assms(4,5) show ?thesis
    by (auto simp: register_def ceilings_compiled_def DEFAULT_MAX_CONNECTIONS_def Let_def
        DEFAULT_MAX_CONNECTIONS_PER_LISTENER_def DEFAULT_MAX_CONNECTIONS_HOST_def admission_count_def
        not_le [symmetric] split: option.split)
qed

theorem host_capacity_reserved_witness:
  "\<exists>ctx. fst (register ceilings_compiled (Some demo_peer) ''host'' Host (registered_state 1 demo_info from_ceilings)) = Inr ctx"
  by (rule host_capacity_reserved [OF demo_steps, of _ 2])
     (simp_all add: registered_state_def from_ceilings_def active_for_type_def demo_info_def new_entry_def
        DEFAULT_MAX_CONNECTIONS_HOST_def registry_snapshot_def bs_mem_def checked_succ_def u64_max_def sat_add_usize_def usize_max_def)

text \<open>
  While a listener transition is open, no connection is admitted on the listeners it names,
  whatever else happens: their number of live connections stays at most the number the guard
  reported, so a listener found idle stays idle until the guard is dropped.
\<close>

theorem gated_listener_stays_drained:
  assumes "sized c" and "steps (conn_step c) from_ceilings es0 st"
    and "begin_listener_transition nms st = (Inr g, st1)" and "nm \<in> set nms"
    and "steps (conn_step c) st1 es st2" and "\<not> list_ex (ungates nm) es"
  shows "active_for_listener st2 nm \<le> guard_active g nm
    \<and> fst (register c (Some peer) nm lt st2) = Inl (ListenerGated nm)"
proof -
  have inv: "reg_inv c st" by (rule conn_steps_inv [OF assms(2) from_ceilings_inv assms(1)])
  have inv1: "reg_inv c st1" using begin_listener_transition_inv [OF inv, of nms] assms(3) by simp
  have inv2: "reg_inv c st2" by (rule conn_steps_inv [OF assms(5) inv1 assms(1)])
  have mem: "bs_mem nm (bs_of_list nms)" using assms(4) by (simp add: bs_of_list_props)
  from assms(3) have g: "g = \<lparr>tg_names = bs_of_list nms, tg_active = map (\<lambda>(nm, _). (nm, active_for_listener st nm)) (bs_of_list nms)\<rparr>"
    and st1: "reg_entries st1 = reg_entries st" "bs_mem nm (gated_listeners st1)"
    using mem [unfolded bs_mem_keys]
    by (force simp: begin_listener_transition_def Let_def bs_fold_insert split: option.splits)+
  have "bt_get (map (\<lambda>(nm, _). (nm, f nm)) s) k = (if bs_mem k s then Some (f k) else None)" for f :: "string \<Rightarrow> nat" and s k
    by (induction s) (auto simp: bt_get_def bs_mem_def)
  then have ga: "guard_active g nm = count_name st nm"
    using mem active_for_listener_count [of st nm] inv by (simp add: g guard_active_def reg_inv_def)
  from conn_steps_gated [OF assms(5) inv1 assms(1) st1(2) assms(6)]
  have "bs_mem nm (gated_listeners st2)" "count_name st2 nm \<le> count_name st nm" by (simp_all add: st1)
  with ga inv2 active_for_listener_count [of st2 nm] show ?thesis by (simp add: reg_inv_def register_def)
qed

definition demo_guard :: ListenerTransitionGuard where
  "demo_guard = \<lparr>tg_names = [(''host'', ())], tg_active = [(''host'', 0)]\<rparr>"

theorem gated_listener_stays_drained_witness:
  "fst (register ceilings_compiled (Some demo_peer) ''host'' Host (from_ceilings\<lparr>gated_listeners := [(''host'', ())]\<rparr>))
     = Inl (ListenerGated ''host'')"
proof -
  have "begin_listener_transition [''host''] from_ceilings = (Inr demo_guard, from_ceilings\<lparr>gated_listeners := [(''host'', ())]\<rparr>)"
    by (simp add: begin_listener_transition_def from_ceilings_def bs_of_list_def bs_insert_def bs_mem_def
        active_for_listener_def demo_guard_def Let_def)
  from gated_listener_stays_drained [OF compiled_sized steps.intros(1) this _ steps.intros(1), of "''host''" demo_peer Host]
  show ?thesis by simp
qed

text \<open>
  One call of \<open>cancel_matching\<close> signals exactly the live connections some selector matches
  that are not the caller's own and still hold their signal, each once however many selectors
  match it; the four counts partition the matches, the caller's connection and every unmatched
  one are left as they were, and no connection is removed from the inventory.
\<close>

theorem cancel_matching_exact:
  "cancel_matching delivered sels caller st = (r, st') \<Longrightarrow>
     cc_matched r = length (filter (hit sels) (reg_entries st))
   \<and> cc_matched r = cc_caller_excluded r + cc_already_requested r
       + length (filter (\<lambda>x. hit sels x \<and> caller \<noteq> Some (fst x) \<and> re_cancel (snd x)) (reg_entries st))
   \<and> cc_cancelled r = length (filter (\<lambda>x. hit sels x \<and> caller \<noteq> Some (fst x) \<and> re_cancel (snd x) \<and> delivered (fst x)) (reg_entries st))
   \<and> bt_get (reg_entries st') i = (case bt_get (reg_entries st) i of None \<Rightarrow> None
       | Some e \<Rightarrow> Some (if hit sels (i, e) \<and> caller \<noteq> Some i then e\<lparr>re_cancel := False\<rparr> else e))"
proof -
  assume a: "cancel_matching delivered sels caller st = (r, st')"
  have part: "length (filter P xs) = length (filter (\<lambda>x. P x \<and> Q x) xs) + length (filter (\<lambda>x. P x \<and> \<not> Q x \<and> \<not> R x) xs)
      + length (filter (\<lambda>x. P x \<and> \<not> Q x \<and> R x) xs)" for P Q R and xs :: "(ConnectionId \<times> RegistryEntry) list"
    by (induction xs) auto
  show ?thesis
    using a part [of "hit sels" "reg_entries st" "\<lambda>x. caller = Some (fst x)" "\<lambda>x. re_cancel (snd x)"]
    by (auto simp: cancel_matching_eq bt_get_cancel_one cancel_one_def split: option.split)
qed

theorem cancel_matching_exact_witness:
  "cc_matched (fst (cancel_matching (\<lambda>_. True) [SelUid 1000, SelId 1] None (registered_state 1 demo_info from_ceilings))) = 1"
proof -
  let ?c = "cancel_matching (\<lambda>_. True) [SelUid 1000, SelId 1] None (registered_state 1 demo_info from_ceilings)"
  from cancel_matching_exact [OF prod.collapse [symmetric, of ?c]] show ?thesis
    by (simp add: registered_state_def from_ceilings_def hit_def selector_matches_def demo_info_def new_entry_def demo_peer_def)
qed

end
