(* ===== verification/Listener.thy ===== *)
theory Listener
  imports Connection
begin

text \<open>
  Named listeners: the configuration set of \<open>transport/listener.rs\<close>, the transition gate of
  \<open>transport/listener_manager.rs\<close> and the rewire ledger of \<open>transport/rewire.rs\<close>.

    \<^item> A path is the byte string of its \<open>OsStr\<close>. Rust compares paths by their components, so
      \<open>path_eq\<close> is equality of \<open>components\<close>, the Unix algorithm of the standard library: repeated
      separators and inner \<open>.\<close> components disappear, a leading \<open>.\<close> of a relative path stays.
    \<^item> A listener set is a \<open>BTreeMap\<close> from name to configuration, a sorted association list.
    \<^item> A transition takes and returns the state of the connection registry: a refused
      transition drops its guard before it returns.
    \<^item> The ledger is updated by a whole transition; the eviction loop of \<open>apply\<close> is written as
      in the code, with its exit on an empty ledger.
\<close>

section \<open>Paths\<close>

type_synonym PathBuf = string

datatype Component = RootDir | CurDir | ParentDir | Normal string

definition has_root :: "PathBuf \<Rightarrow> bool" where
  "has_root p \<longleftrightarrow> starts_with ''/'' p"

fun body_component :: "string \<Rightarrow> Component list" where
  "body_component s = (if s = [] \<or> s = ''.'' then [] else if s = ''..'' then [ParentDir] else [Normal s])"

definition components :: "PathBuf \<Rightarrow> Component list" where
  "components p =
     (let parts = split_on (CHR ''/'') p in
      (if has_root p then [RootDir] else if hd parts = ''.'' then [CurDir] else []) @
      concat (map body_component parts))"

definition path_eq :: "PathBuf \<Rightarrow> PathBuf \<Rightarrow> bool" where
  "path_eq p q \<longleftrightarrow> components p = components q"

definition file_name :: "PathBuf \<Rightarrow> string option" where
  "file_name p = (case rev (components p) of Normal s # _ \<Rightarrow> Some s | _ \<Rightarrow> None)"

text \<open>Well-formed UTF-8, by the table of RFC 3629 that \<open>to_str\<close> checks.\<close>

definition in_range :: "nat \<Rightarrow> nat \<Rightarrow> char \<Rightarrow> bool" where
  "in_range lo hi c \<longleftrightarrow> lo \<le> byte_of c \<and> byte_of c \<le> hi"

definition utf8_seq :: "string \<Rightarrow> bool" where
  "utf8_seq s =
     (case s of
        [a] \<Rightarrow> in_range 0 127 a
      | [a, b] \<Rightarrow> in_range 194 223 a \<and> in_range 128 191 b
      | [a, b, c] \<Rightarrow> in_range 128 191 c \<and>
          (if byte_of a = 224 then in_range 160 191 b
           else if byte_of a = 237 then in_range 128 159 b
           else in_range 225 239 a \<and> in_range 128 191 b)
      | [a, b, c, d] \<Rightarrow> in_range 128 191 c \<and> in_range 128 191 d \<and>
          (if byte_of a = 240 then in_range 144 191 b
           else if byte_of a = 244 then in_range 128 143 b
           else in_range 241 243 a \<and> in_range 128 191 b)
      | _ \<Rightarrow> False)"

definition utf8_ok :: "string \<Rightarrow> bool" where
  "utf8_ok s \<longleftrightarrow> list_all utf8_seq (utf8_chars s)"

fun contains_str :: "string \<Rightarrow> string \<Rightarrow> bool" where
  "contains_str pat [] \<longleftrightarrow> pat = []"
| "contains_str pat (c # cs) \<longleftrightarrow> starts_with pat (c # cs) \<or> contains_str pat cs"

section \<open>Listener configuration\<close>

definition MAX_LISTENERS :: nat where "MAX_LISTENERS = 32"
definition DEFAULT_SOCKET_MODE :: nat where "DEFAULT_SOCKET_MODE = 384"
definition DEFAULT_SOCKET_PATH :: PathBuf where "DEFAULT_SOCKET_PATH = ''/tmp/basil-agent.sock''"
definition MAX_LISTENER_NAME_BYTES :: nat where "MAX_LISTENER_NAME_BYTES = 63"
definition MAX_UNIX_SOCKET_PATH_BYTES :: nat where "MAX_UNIX_SOCKET_PATH_BYTES = 103"

record ListenerConfigInput =
  in_listener_type :: ListenerType
  in_path :: PathBuf
  in_mode :: "nat option"
  in_group :: "string option"

record LegacyListenerConfig =
  leg_path :: "PathBuf option"
  leg_mode :: "nat option"
  leg_group :: "string option"

definition is_explicit :: "LegacyListenerConfig \<Rightarrow> bool" where
  "is_explicit l \<longleftrightarrow> leg_path l \<noteq> None \<or> leg_mode l \<noteq> None \<or> leg_group l \<noteq> None"

record ListenerConfig =
  lc_name :: string
  lc_listener_type :: ListenerType
  lc_path :: PathBuf
  lc_mode :: nat
  lc_group :: "string option"

datatype ListenerConfigError =
    LegacyNamedConflict
  | TooMany nat nat
  | MissingHost
  | InvalidName string
  | InvalidPath PathBuf
  | DuplicatePath PathBuf
  | InvalidMode nat
  | InvalidGroup

definition validate_name :: "string \<Rightarrow> ListenerConfigError + unit" where
  "validate_name name =
     (let valid = name \<noteq> [] \<and> length name \<le> MAX_LISTENER_NAME_BYTES \<and>
        list_all (\<lambda>(index, byte). is_ascii_lowercase byte \<or> is_ascii_digit byte \<or>
            (index > 0 \<and> (byte = CHR ''.'' \<or> byte = CHR ''_'' \<or> byte = CHR ''-'')))
          (List.enumerate 0 name)
      in if valid then Inr () else Inl (InvalidName name))"

definition components_are_normal :: "PathBuf \<Rightarrow> bool" where
  "components_are_normal p =
     list_all (\<lambda>(index, c). case c of RootDir \<Rightarrow> index = 0 | Normal _ \<Rightarrow> True | _ \<Rightarrow> False)
       (List.enumerate 0 (components p))"

definition text_is_normal :: "PathBuf \<Rightarrow> bool" where
  "text_is_normal p \<longleftrightarrow> utf8_ok p \<and> \<not> contains_str ''//'' p \<and> strip_suffix ''/'' p = None"

definition validate_path :: "PathBuf \<Rightarrow> ListenerConfigError + unit" where
  "validate_path p =
     (if has_root p \<and> components_are_normal p \<and> text_is_normal p \<and>
         length p \<le> MAX_UNIX_SOCKET_PATH_BYTES \<and> file_name p \<noteq> None
      then Inr () else Inl (InvalidPath p))"

definition validate_mode :: "nat \<Rightarrow> ListenerConfigError + unit" where
  "validate_mode mode = (if mode \<le> 4095 then Inr () else Inl (InvalidMode mode))"

definition validate_group :: "string option \<Rightarrow> ListenerConfigError + unit" where
  "validate_group grp =
     (case grp of
        Some v \<Rightarrow> if v = [] \<or> length v > 255 \<or> CHR 0x00 \<in> set v then Inl InvalidGroup else Inr ()
      | None \<Rightarrow> Inr ())"

definition validated ::
    "string \<Rightarrow> ListenerType \<Rightarrow> PathBuf \<Rightarrow> nat \<Rightarrow> string option \<Rightarrow> ListenerConfigError + ListenerConfig" where
  "validated name listener_type path mode grp =
     res_bind (validate_name name) (\<lambda>_.
     res_bind (validate_path path) (\<lambda>_.
     res_bind (validate_mode mode) (\<lambda>_.
     res_bind (validate_group grp) (\<lambda>_.
     Inr \<lparr>lc_name = name, lc_listener_type = listener_type, lc_path = path, lc_mode = mode, lc_group = grp\<rparr>))))"

type_synonym ListenerConfigSet = "(string, ListenerConfig) btree"

definition listener_set_default :: ListenerConfigSet where
  "listener_set_default = [(''host'', \<lparr>lc_name = ''host'', lc_listener_type = Host,
     lc_path = DEFAULT_SOCKET_PATH, lc_mode = DEFAULT_SOCKET_MODE, lc_group = None\<rparr>)]"

text \<open>The loop over the inputs in name order, with the paths seen so far.\<close>

fun resolve_inputs ::
    "(string \<times> ListenerConfigInput) list \<Rightarrow> PathBuf list \<Rightarrow> ListenerConfigSet \<Rightarrow> bool \<Rightarrow>
     ListenerConfigError + (ListenerConfigSet \<times> bool)" where
  "resolve_inputs [] paths listeners has_host = Inr (listeners, has_host)"
| "resolve_inputs ((name, i) # rest) paths listeners has_host =
     (if list_ex (path_eq (in_path i)) paths then Inl (DuplicatePath (in_path i))
      else
        res_bind (validated name (in_listener_type i) (in_path i)
            (case in_mode i of Some m \<Rightarrow> m | None \<Rightarrow> DEFAULT_SOCKET_MODE) (in_group i)) (\<lambda>config.
          resolve_inputs rest (in_path i # paths) (bt_insert name config listeners)
            (has_host \<or> in_listener_type i = Host)))"

definition legacy_input :: "LegacyListenerConfig \<Rightarrow> ListenerConfigInput" where
  "legacy_input legacy = \<lparr>in_listener_type = Host,
     in_path = (case leg_path legacy of Some p \<Rightarrow> p | None \<Rightarrow> DEFAULT_SOCKET_PATH),
     in_mode = leg_mode legacy, in_group = leg_group legacy\<rparr>"

definition listener_set_resolve ::
    "(string, ListenerConfigInput) btree \<Rightarrow> LegacyListenerConfig \<Rightarrow> ListenerConfigError + ListenerConfigSet" where
  "listener_set_resolve named legacy =
     res_bind (if named = [] then Inr [(''host'', legacy_input legacy)]
               else if is_explicit legacy then Inl LegacyNamedConflict else Inr named) (\<lambda>inputs.
     if length inputs > MAX_LISTENERS then Inl (TooMany (length inputs) MAX_LISTENERS)
     else res_bind (resolve_inputs inputs [] [] False) (\<lambda>(listeners, has_host).
       if \<not> has_host then Inl MissingHost else Inr listeners))"

text \<open>Derived equality of two configurations; the path field compares by components.\<close>

definition listener_eq :: "ListenerConfig \<Rightarrow> ListenerConfig \<Rightarrow> bool" where
  "listener_eq a b \<longleftrightarrow> lc_name a = lc_name b \<and> lc_listener_type a = lc_listener_type b \<and>
     path_eq (lc_path a) (lc_path b) \<and> lc_mode a = lc_mode b \<and> lc_group a = lc_group b"

section \<open>Transitions\<close>

datatype ListenerChangeKind = ChangeAdd | ChangeRemove | ChangeReconfigure

record ListenerImpact =
  imp_name :: string
  imp_kind :: ListenerChangeKind
  imp_active_connections :: nat
  imp_previous_path :: "PathBuf option"
  imp_new_path :: "PathBuf option"

definition rewires_path :: "ListenerImpact \<Rightarrow> bool" where
  "rewires_path i \<longleftrightarrow> imp_kind i = ChangeReconfigure \<and>
     map_option components (imp_previous_path i) \<noteq> map_option components (imp_new_path i)"

datatype ListenerTransitionError =
    TransitionRegistry ConnectionRegistryError
  | TransitionActive "ListenerImpact list"

definition current_impact :: "ListenerConfigSet \<Rightarrow> RegistryState \<Rightarrow> ListenerConfig \<Rightarrow> ListenerImpact option" where
  "current_impact candidate st l =
     (let change = (case bt_get candidate (lc_name l) of
          None \<Rightarrow> Some (ChangeRemove, None)
        | Some replacement \<Rightarrow>
            if \<not> listener_eq replacement l then Some (ChangeReconfigure, Some (lc_path replacement)) else None)
      in map_option (\<lambda>(kind, new_path).
        \<lparr>imp_name = lc_name l, imp_kind = kind, imp_active_connections = active_for_listener st (lc_name l),
         imp_previous_path = Some (lc_path l), imp_new_path = new_path\<rparr>) change)"

definition added_impact :: "ListenerConfigSet \<Rightarrow> ListenerConfig \<Rightarrow> ListenerImpact option" where
  "added_impact current l =
     (if bt_get current (lc_name l) = None
      then Some \<lparr>imp_name = lc_name l, imp_kind = ChangeAdd, imp_active_connections = 0,
             imp_previous_path = None, imp_new_path = Some (lc_path l)\<rparr>
      else None)"

definition assess_transition :: "ListenerConfigSet \<Rightarrow> ListenerConfigSet \<Rightarrow> RegistryState \<Rightarrow> ListenerImpact list" where
  "assess_transition current candidate st =
     sort_key imp_name
       (List.map_filter (current_impact candidate st) (map snd current) @
        List.map_filter (added_impact current) (map snd candidate))"

definition require_zero_active :: "ListenerImpact list \<Rightarrow> ListenerImpact list + unit" where
  "require_zero_active impacts =
     (let blocking = filter (\<lambda>i. imp_kind i \<noteq> ChangeAdd \<and> imp_active_connections i \<noteq> 0) impacts
      in if blocking = [] then Inr () else Inl blocking)"

definition begin_transition ::
    "ListenerConfigSet \<Rightarrow> ListenerConfigSet \<Rightarrow> RegistryState \<Rightarrow>
     (ListenerTransitionError + (ListenerImpact list \<times> ListenerTransitionGuard)) \<times> RegistryState" where
  "begin_transition current candidate st =
     (let impacts = assess_transition current candidate st;
          disruptive = map imp_name (filter (\<lambda>i. imp_kind i \<noteq> ChangeAdd) impacts)
      in case begin_listener_transition disruptive st of
           (Inl e, st') \<Rightarrow> (Inl (TransitionRegistry e), st')
         | (Inr g, st') \<Rightarrow>
             let impacts' = map (\<lambda>i. if imp_kind i \<noteq> ChangeAdd
                   then i\<lparr>imp_active_connections := guard_active g (imp_name i)\<rparr> else i) impacts
             in case require_zero_active impacts' of
                  Inl blocking \<Rightarrow> (Inl (TransitionActive blocking), end_listener_transition g st')
                | Inr _ \<Rightarrow> (Inr (impacts', g), st'))"

section \<open>The rewire ledger\<close>

definition MAX_REWIRE_DIAGNOSTICS :: nat where "MAX_REWIRE_DIAGNOSTICS = MAX_LISTENERS"

record RewireDiagnostic =
  rw_listener :: string
  rw_previous_path :: PathBuf
  rw_new_path :: PathBuf
  rw_applied_generation :: nat
  rw_recorded_at_unix :: nat

datatype RewireUpdate = RewRecord RewireDiagnostic | RewResolve string

definition rewire_updates :: "ListenerConfigSet \<Rightarrow> ListenerConfigSet \<Rightarrow> nat \<Rightarrow> nat \<Rightarrow> RewireUpdate list" where
  "rewire_updates current candidate applied_generation recorded_at_unix =
     List.map_filter (\<lambda>l. case bt_get candidate (lc_name l) of
         None \<Rightarrow> Some (RewResolve (lc_name l))
       | Some replacement \<Rightarrow>
           if \<not> path_eq (lc_path replacement) (lc_path l)
           then Some (RewRecord \<lparr>rw_listener = lc_name l, rw_previous_path = lc_path l,
             rw_new_path = lc_path replacement, rw_applied_generation = applied_generation,
             rw_recorded_at_unix = recorded_at_unix\<rparr>)
           else None) (map snd current)"

type_synonym RewireLedger = "(string, RewireDiagnostic) btree"

text \<open>\<open>min_by_key\<close> keeps the first of several minima.\<close>

fun min_by_generation :: "(string \<times> RewireDiagnostic) list \<Rightarrow> (string \<times> RewireDiagnostic) option" where
  "min_by_generation [] = None"
| "min_by_generation (x # xs) =
     (case min_by_generation xs of
        None \<Rightarrow> Some x
      | Some y \<Rightarrow> Some (if rw_applied_generation (snd x) \<le> rw_applied_generation (snd y) then x else y))"

lemma min_by_generation_in: "min_by_generation xs = Some x \<Longrightarrow> x \<in> set xs"
  by (induction xs arbitrary: x) (auto split: option.splits if_splits)

function evict_oldest :: "string \<Rightarrow> RewireLedger \<Rightarrow> RewireLedger" where
  "evict_oldest name entries =
     (if length entries \<ge> MAX_REWIRE_DIAGNOSTICS \<and> bt_get entries name = None
      then case min_by_generation entries of
             None \<Rightarrow> entries
           | Some (oldest, _) \<Rightarrow> evict_oldest name (bt_remove oldest entries)
      else entries)"
  by pat_completeness auto

termination
  by (relation "measure (\<lambda>(_, entries). length entries)")
     (auto simp: bt_remove_def dest!: min_by_generation_in intro!: length_filter_less)

definition apply_update :: "RewireUpdate \<Rightarrow> RewireLedger \<Rightarrow> RewireLedger" where
  "apply_update update entries =
     (case update of
        RewRecord d \<Rightarrow>
          let diagnostic = (case bt_get entries (rw_listener d) of
                Some existing \<Rightarrow> d\<lparr>rw_previous_path := rw_previous_path existing\<rparr>
              | None \<Rightarrow> d)
          in if path_eq (rw_new_path diagnostic) (rw_previous_path diagnostic)
             then bt_remove (rw_listener diagnostic) entries
             else bt_insert (rw_listener diagnostic) diagnostic (evict_oldest (rw_listener diagnostic) entries)
      | RewResolve listener \<Rightarrow> bt_remove listener entries)"

definition ledger_apply :: "RewireUpdate list \<Rightarrow> RewireLedger \<Rightarrow> RewireLedger" where
  "ledger_apply updates entries = fold apply_update updates entries"

definition ledger_snapshot :: "RewireLedger \<Rightarrow> RewireDiagnostic list" where
  "ledger_snapshot entries = map snd entries"

declare evict_oldest.simps [simp del]

section \<open>Accepted listener sets\<close>

lemma path_eq_refl [simp]: "path_eq p p"
  by (simp add: path_eq_def)

lemma path_eq_sym: "path_eq p q \<longleftrightarrow> path_eq q p"
  by (auto simp: path_eq_def)

lemma path_eq_trans: "path_eq p q \<Longrightarrow> path_eq q r \<Longrightarrow> path_eq p r"
  by (simp add: path_eq_def)

definition config_of :: "string \<Rightarrow> ListenerConfigInput \<Rightarrow> ListenerConfig" where
  "config_of n i = \<lparr>lc_name = n, lc_listener_type = in_listener_type i, lc_path = in_path i,
     lc_mode = (case in_mode i of Some m \<Rightarrow> m | None \<Rightarrow> DEFAULT_SOCKET_MODE), lc_group = in_group i\<rparr>"

definition config_ok :: "ListenerConfig \<Rightarrow> bool" where
  "config_ok l \<longleftrightarrow> validate_name (lc_name l) = Inr () \<and> validate_path (lc_path l) = Inr () \<and>
     validate_mode (lc_mode l) = Inr () \<and> validate_group (lc_group l) = Inr ()"

lemma validated_Inr:
  "validated n lt p m g = Inr l \<longleftrightarrow>
     config_ok \<lparr>lc_name = n, lc_listener_type = lt, lc_path = p, lc_mode = m, lc_group = g\<rparr> \<and>
     l = \<lparr>lc_name = n, lc_listener_type = lt, lc_path = p, lc_mode = m, lc_group = g\<rparr>"
  by (auto simp: validated_def config_ok_def res_bind_Inr_iff)

lemma bt_insert_last: "\<forall>x \<in> set m. fst x < k \<Longrightarrow> bt_insert k v m = m @ [(k, v)]"
  by (induction m) auto

definition input_key :: "string \<times> ListenerConfigInput \<Rightarrow> Component list" where
  "input_key x = components (in_path (snd x))"

definition input_ok :: "string \<times> ListenerConfigInput \<Rightarrow> bool" where
  "input_ok x \<longleftrightarrow> config_ok (config_of (fst x) (snd x))"

definition input_host :: "string \<times> ListenerConfigInput \<Rightarrow> bool" where
  "input_host x \<longleftrightarrow> in_listener_type (snd x) = Host"

definition input_entry :: "string \<times> ListenerConfigInput \<Rightarrow> string \<times> ListenerConfig" where
  "input_entry x = (fst x, config_of (fst x) (snd x))"

lemma input_pair:
  "input_key (n, i) = components (in_path i)" "input_ok (n, i) = config_ok (config_of n i)"
  "input_host (n, i) \<longleftrightarrow> in_listener_type i = Host" "input_entry (n, i) = (n, config_of n i)"
  by (simp_all add: input_key_def input_ok_def input_host_def input_entry_def)

lemma resolve_inputs_Inr:
  assumes "bt_wf inputs" and "\<forall>x \<in> set ls. \<forall>y \<in> set inputs. fst x < fst y"
  shows "resolve_inputs inputs paths ls hh = Inr (ls', hh') \<longleftrightarrow>
    list_all input_ok inputs \<and> distinct (map input_key inputs) \<and>
    components ` set paths \<inter> input_key ` set inputs = {} \<and>
    ls' = ls @ map input_entry inputs \<and> hh' = (hh \<or> list_ex input_host inputs)"
  using assms
proof (induction inputs arbitrary: paths ls hh)
  case (Cons x inputs)
  obtain n i where x: "x = (n, i)" by fastforce
  have wf: "bt_wf inputs" "\<forall>y \<in> set inputs. n < fst y" using Cons.prems(1) by (auto simp: bt_wf_Cons x)
  have ins: "bt_insert n (config_of n i) ls = ls @ [(n, config_of n i)]"
    using Cons.prems(2) by (intro bt_insert_last) (simp add: x)
  have lt: "\<forall>x \<in> set (ls @ [(n, config_of n i)]). \<forall>y \<in> set inputs. fst x < fst y"
    using Cons.prems(2) wf(2) by auto
  have val: "validated n (in_listener_type i) (in_path i) (case in_mode i of Some m \<Rightarrow> m | None \<Rightarrow> DEFAULT_SOCKET_MODE) (in_group i) = Inr l
      \<longleftrightarrow> config_ok (config_of n i) \<and> l = config_of n i" for l
    by (simp add: validated_Inr config_of_def)
  have dup: "list_ex (path_eq (in_path i)) paths \<longleftrightarrow> components (in_path i) \<in> components ` set paths"
    by (auto simp: list_ex_iff path_eq_def)
  show ?case
    unfolding x resolve_inputs.simps dup
    by (simp add: res_bind_Inr_iff val ins Cons.IH [OF wf(1) lt])
       (auto simp: input_pair)
qed auto

definition selected_inputs :: "(string, ListenerConfigInput) btree \<Rightarrow> LegacyListenerConfig \<Rightarrow> (string, ListenerConfigInput) btree" where
  "selected_inputs named legacy = (if named = [] then [(''host'', legacy_input legacy)] else named)"

lemma listener_set_resolve_Inr:
  assumes "bt_wf named"
  shows "listener_set_resolve named legacy = Inr s \<longleftrightarrow>
    (named = [] \<or> \<not> is_explicit legacy) \<and> length (selected_inputs named legacy) \<le> MAX_LISTENERS \<and>
    list_all input_ok (selected_inputs named legacy) \<and>
    distinct (map input_key (selected_inputs named legacy)) \<and>
    list_ex input_host (selected_inputs named legacy) \<and>
    s = map input_entry (selected_inputs named legacy)"
proof -
  have wf: "bt_wf (selected_inputs named legacy)"
    using assms by (auto simp: selected_inputs_def bt_wf_def)
  have sel: "listener_set_resolve named legacy =
    (if named = [] \<or> \<not> is_explicit legacy
     then if length (selected_inputs named legacy) > MAX_LISTENERS
       then Inl (TooMany (length (selected_inputs named legacy)) MAX_LISTENERS)
       else res_bind (resolve_inputs (selected_inputs named legacy) [] [] False) (\<lambda>(listeners, has_host).
         if \<not> has_host then Inl MissingHost else Inr listeners)
     else Inl LegacyNamedConflict)"
    by (simp add: listener_set_resolve_def selected_inputs_def)
  have core: "res_bind (resolve_inputs (selected_inputs named legacy) [] [] False) (\<lambda>(listeners, has_host).
         if \<not> has_host then Inl MissingHost else Inr listeners) = Inr s \<longleftrightarrow>
    list_all input_ok (selected_inputs named legacy) \<and> distinct (map input_key (selected_inputs named legacy)) \<and>
    list_ex input_host (selected_inputs named legacy) \<and> s = map input_entry (selected_inputs named legacy)"
    unfolding res_bind_Inr_iff by (auto simp: resolve_inputs_Inr [OF wf] split: if_splits)
  show ?thesis
    unfolding sel
    by (cases "named = [] \<or> \<not> is_explicit legacy"; cases "length (selected_inputs named legacy) > MAX_LISTENERS")
       (simp_all only: core if_True if_False not_less simp_thms sum.distinct not_le [symmetric])
qed

text \<open>What every accepted set provides to the code that uses it.\<close>

definition named_set :: "ListenerConfigSet \<Rightarrow> bool" where
  "named_set s \<longleftrightarrow> bt_wf s \<and> list_all (\<lambda>(n, l). lc_name l = n) s \<and> length s \<le> MAX_LISTENERS"

lemma resolved_named_set:
  assumes "bt_wf named" and "listener_set_resolve named legacy = Inr s"
  shows "named_set s"
proof -
  from assms(2) have s: "s = map input_entry (selected_inputs named legacy)"
    "length (selected_inputs named legacy) \<le> MAX_LISTENERS"
    using listener_set_resolve_Inr [OF assms(1)] by blast+
  have "bt_wf (selected_inputs named legacy)"
    using assms(1) by (auto simp: selected_inputs_def bt_wf_def)
  moreover have "map fst s = map fst (selected_inputs named legacy)" by (simp add: s comp_def input_entry_def)
  ultimately have "bt_wf s" by (simp add: bt_wf_def)
  with s show ?thesis by (auto simp: named_set_def list_all_iff config_of_def input_entry_def)
qed

lemma named_set_get: "named_set s \<Longrightarrow> bt_get s n = Some l \<Longrightarrow> lc_name l = n"
  by (auto simp: named_set_def list_all_iff bt_get_in_set)

lemma named_set_values: "named_set s \<Longrightarrow> l \<in> snd ` set s \<longleftrightarrow> bt_get s (lc_name l) = Some l"
  by (force simp: named_set_def list_all_iff bt_get_in_set image_iff)

section \<open>The transition gate\<close>

definition disruptive :: "ListenerConfigSet \<Rightarrow> ListenerConfigSet \<Rightarrow> string \<Rightarrow> bool" where
  "disruptive current candidate nm =
     (case bt_get current nm of
        None \<Rightarrow> False
      | Some l \<Rightarrow> (case bt_get candidate nm of None \<Rightarrow> True | Some r \<Rightarrow> \<not> listener_eq r l))"

lemma set_map_filter: "set (List.map_filter f xs) = {y. \<exists>x \<in> set xs. f x = Some y}"
  by (induction xs) (auto simp: map_filter_simps split: option.splits)

lemma current_impact_Some:
  "current_impact candidate st l = Some i \<Longrightarrow>
     imp_kind i \<noteq> ChangeAdd \<and> imp_name i = lc_name l \<and> imp_active_connections i = active_for_listener st (lc_name l)"
  by (auto simp: current_impact_def split: option.splits if_splits)

lemma assess_disruptive:
  assumes "named_set current" and "named_set candidate"
  shows "(\<exists>i \<in> set (assess_transition current candidate st). imp_kind i \<noteq> ChangeAdd \<and> imp_name i = nm) \<longleftrightarrow>
    disruptive current candidate nm"
proof -
  have "(\<exists>i \<in> set (assess_transition current candidate st). imp_kind i \<noteq> ChangeAdd \<and> imp_name i = nm) \<longleftrightarrow>
    (\<exists>l \<in> snd ` set current. lc_name l = nm \<and> current_impact candidate st l \<noteq> None)"
    (is "?l \<longleftrightarrow> ?r")
  proof
    assume ?l
    then obtain i where i: "i \<in> set (assess_transition current candidate st)" "imp_kind i \<noteq> ChangeAdd" "imp_name i = nm" by blast
    then obtain l where "l \<in> snd ` set current" "current_impact candidate st l = Some i"
      by (auto simp: assess_transition_def set_map_filter added_impact_def split: if_splits)
    with i current_impact_Some [of candidate st l i] show ?r by auto
  next
    assume ?r
    then obtain l i where "l \<in> snd ` set current" "lc_name l = nm" "current_impact candidate st l = Some i" by blast
    with current_impact_Some [of candidate st l i] show ?l
      by (auto simp: assess_transition_def set_map_filter)
  qed
  also have "\<dots> \<longleftrightarrow> (\<exists>l. bt_get current nm = Some l \<and> current_impact candidate st l \<noteq> None)"
    using named_set_values [OF assms(1)] named_set_get [OF assms(1)] by metis
  also have "\<dots> \<longleftrightarrow> disruptive current candidate nm"
    using named_set_get [OF assms(1), of nm]
    by (auto simp: disruptive_def current_impact_def split: option.splits if_splits)
  finally show ?thesis .
qed

definition disruptive_names :: "ListenerConfigSet \<Rightarrow> ListenerConfigSet \<Rightarrow> RegistryState \<Rightarrow> string list" where
  "disruptive_names current candidate st =
     map imp_name (filter (\<lambda>i. imp_kind i \<noteq> ChangeAdd) (assess_transition current candidate st))"

lemma set_disruptive_names:
  "named_set current \<Longrightarrow> named_set candidate \<Longrightarrow>
     nm \<in> set (disruptive_names current candidate st) \<longleftrightarrow> disruptive current candidate nm"
  using assess_disruptive [of current candidate st nm] by (auto simp: disruptive_names_def)

lemma bt_keys_eq:
  fixes a b :: "'a :: linorder bset"
  assumes "bt_wf a" and "bt_wf b" and "\<And>x. bs_mem x a \<longleftrightarrow> bs_mem x b"
  shows "a = b"
proof -
  have "map fst a = map fst b"
    using assms by (intro strict_sorted_equal) (auto simp: bt_wf_def bs_mem_keys)
  moreover have "c = map (\<lambda>k. (k, ())) (map fst c)" for c :: "'a bset"
    by (induction c) auto
  ultimately show ?thesis by metis
qed

lemma begin_listener_transition_cases:
  assumes "bt_wf (gated_listeners st)"
  shows "(\<exists>nm. begin_listener_transition nms st = (Inl (ListenerGated nm), st) \<and> nm \<in> set nms \<and> bs_mem nm (gated_listeners st)) \<or>
    (\<exists>g st'. begin_listener_transition nms st = (Inr g, st') \<and> (\<forall>nm \<in> set nms. \<not> bs_mem nm (gated_listeners st)) \<and>
       st' = st\<lparr>gated_listeners := gated_listeners st'\<rparr> \<and> (\<forall>nm. bs_mem nm (gated_listeners st') \<longleftrightarrow> nm \<in> set nms \<or> bs_mem nm (gated_listeners st)) \<and>
       (\<forall>nm \<in> set nms. guard_active g nm = active_for_listener st nm) \<and> end_listener_transition g st' = st)"
proof -
  have mem: "x \<in> fst ` set (bs_of_list nms) \<longleftrightarrow> x \<in> set nms" for x
    using bs_of_list_props(2) [of x nms] by (simp add: bs_mem_keys)
  then have mem': "(x, ()) \<in> set (bs_of_list nms) \<longleftrightarrow> x \<in> set nms" for x by force
  show ?thesis
proof (cases "find (\<lambda>(nm, _). bs_mem nm (gated_listeners st)) (bs_of_list nms)")
  case (Some x)
  obtain nm u where x: "x = (nm, u)" by (rule prod.exhaust)
  with Some have "(nm, u) \<in> set (bs_of_list nms)" "bs_mem nm (gated_listeners st)"
    by (auto simp: find_Some_iff in_set_conv_nth)
  then have "nm \<in> set nms" "bs_mem nm (gated_listeners st)" using mem [of nm] by force+
  then show ?thesis using Some x by (auto simp: begin_listener_transition_def Let_def)
next
  case None
  let ?ns = "bs_of_list nms"
  let ?st = "st\<lparr>gated_listeners := fold (\<lambda>(nm, _). bs_insert nm) ?ns (gated_listeners st)\<rparr>"
  let ?g = "\<lparr>tg_names = ?ns, tg_active = map (\<lambda>(nm, _). (nm, active_for_listener st nm)) ?ns\<rparr>"
  have free: "\<forall>nm \<in> set nms. \<not> bs_mem nm (gated_listeners st)"
    using None mem' by (auto simp: find_None_iff)
  have "bt_get (map (\<lambda>(nm, _). (nm, f nm)) s) k = (if bs_mem k s then Some (f k) else None)" for f :: "string \<Rightarrow> nat" and s k
    by (induction s) (auto simp: bt_get_def bs_mem_def)
  then have "\<forall>nm \<in> set nms. guard_active ?g nm = active_for_listener st nm"
    by (simp add: guard_active_def bs_of_list_props)
  moreover have "bs_mem nm (gated_listeners ?st) \<longleftrightarrow> nm \<in> set nms \<or> bs_mem nm (gated_listeners st)" for nm
    using mem by (simp add: bs_fold_insert)
  moreover have "gated_listeners (end_listener_transition ?g ?st) = gated_listeners st"
    using assms free mem
    by (intro bt_keys_eq) (auto simp: end_listener_transition_def bs_fold_remove bs_fold_insert)
  then have "end_listener_transition ?g ?st = st" by (simp add: end_listener_transition_def)
  moreover have "begin_listener_transition nms st = (Inr ?g, ?st)"
    using None by (simp add: begin_listener_transition_def Let_def)
  ultimately show ?thesis using free by (intro disjI2 exI [of _ ?g] exI [of _ ?st]) simp
qed
qed

lemma begin_transition_cases:
  assumes "named_set current" and "named_set candidate" and "bt_wf (gated_listeners st)"
  shows "(\<exists>e. begin_transition current candidate st = (Inl e, st) \<and>
       (\<exists>nm. disruptive current candidate nm \<and> (bs_mem nm (gated_listeners st) \<or> active_for_listener st nm \<noteq> 0))) \<or>
    (\<exists>imps g st'. begin_transition current candidate st = (Inr (imps, g), st') \<and>
       begin_listener_transition (disruptive_names current candidate st) st = (Inr g, st') \<and>
       (\<forall>nm. disruptive current candidate nm \<longrightarrow> \<not> bs_mem nm (gated_listeners st) \<and> active_for_listener st nm = 0))"
proof -
  let ?imps = "assess_transition current candidate st"
  let ?dis = "disruptive_names current candidate st"
  have mem: "nm \<in> set ?dis \<longleftrightarrow> disruptive current candidate nm" for nm
    by (rule set_disruptive_names [OF assms(1,2)])
  show ?thesis
    using begin_listener_transition_cases [OF assms(3), of ?dis]
  proof (elim disjE exE conjE)
    fix nm assume "begin_listener_transition ?dis st = (Inl (ListenerGated nm), st)" "nm \<in> set ?dis" "bs_mem nm (gated_listeners st)"
    then show ?thesis
      using mem by (intro disjI1) (auto simp: begin_transition_def disruptive_names_def Let_def)
  next
    fix g st'
    assume b: "begin_listener_transition ?dis st = (Inr g, st')" and free: "\<forall>nm \<in> set ?dis. \<not> bs_mem nm (gated_listeners st)"
      and ga: "\<forall>nm \<in> set ?dis. guard_active g nm = active_for_listener st nm" and un: "end_listener_transition g st' = st"
    let ?imps' = "map (\<lambda>i. if imp_kind i \<noteq> ChangeAdd then i\<lparr>imp_active_connections := guard_active g (imp_name i)\<rparr> else i) ?imps"
    have run: "begin_transition current candidate st =
      (case require_zero_active ?imps' of Inl x \<Rightarrow> (Inl (TransitionActive x), st) | Inr _ \<Rightarrow> (Inr (?imps', g), st'))"
      using b un by (simp add: begin_transition_def disruptive_names_def Let_def split: sum.split)
    have zero: "require_zero_active ?imps' = Inr () \<longleftrightarrow> (\<forall>nm \<in> set ?dis. guard_active g nm = 0)"
      by (auto simp: require_zero_active_def Let_def filter_map comp_def filter_empty_conv disruptive_names_def)
    show ?thesis
    proof (cases "require_zero_active ?imps'")
      case (Inl x)
      with zero ga have "\<exists>nm. disruptive current candidate nm \<and> active_for_listener st nm \<noteq> 0" using mem by auto
      with run Inl show ?thesis by (intro disjI1) auto
    next
      case (Inr u)
      with zero ga free have "\<forall>nm. disruptive current candidate nm \<longrightarrow> \<not> bs_mem nm (gated_listeners st) \<and> active_for_listener st nm = 0"
        using mem by auto
      with run Inr b show ?thesis by (intro disjI2) simp
    qed
  qed
qed

subsection \<open>Properties of transitions\<close>

definition demo_inputs :: "(string, ListenerConfigInput) btree" where
  "demo_inputs = [(''control'', \<lparr>in_listener_type = Host, in_path = ''/run/basil/a.sock'', in_mode = None, in_group = None\<rparr>),
     (''courier'', \<lparr>in_listener_type = Courier, in_path = ''/run/basil/b.sock'', in_mode = Some 432, in_group = Some ''basil''\<rparr>)]"

definition no_legacy :: LegacyListenerConfig where
  "no_legacy = \<lparr>leg_path = None, leg_mode = None, leg_group = None\<rparr>"

definition demo_set :: ListenerConfigSet where
  "demo_set = map input_entry demo_inputs"

lemma demo_inputs_wf: "bt_wf demo_inputs"
  by code_simp

lemma demo_resolve: "listener_set_resolve demo_inputs no_legacy = Inr demo_set"
  by code_simp

lemma demo_named: "named_set demo_set"
  by (rule resolved_named_set [OF demo_inputs_wf demo_resolve])

text \<open>
  A listener configuration is accepted exactly when it does not mix named listeners with
  the legacy fields, has at most 32 listeners and a host listener among them, every name, path,
  mode and group passes its check, and no two paths have the same components; the accepted set
  then holds exactly the configured listeners, in name order, with the default mode filled in.
\<close>

theorem listener_set_resolve_exact:
  assumes "bt_wf named"
  shows "listener_set_resolve named legacy = Inr s \<longleftrightarrow>
    (let inputs = (if named = [] then [(''host'', legacy_input legacy)] else named) in
     (named = [] \<or> \<not> is_explicit legacy) \<and> length inputs \<le> 32 \<and>
     list_all (\<lambda>x. validate_name (fst x) = Inr () \<and> validate_path (in_path (snd x)) = Inr () \<and>
        (case in_mode (snd x) of None \<Rightarrow> True | Some m \<Rightarrow> m \<le> 4095) \<and> validate_group (in_group (snd x)) = Inr ()) inputs \<and>
     distinct (map (\<lambda>x. components (in_path (snd x))) inputs) \<and>
     list_ex (\<lambda>x. in_listener_type (snd x) = Host) inputs \<and>
     s = map (\<lambda>x. (fst x, config_of (fst x) (snd x))) inputs)"
proof -
  have ok: "input_ok = (\<lambda>x. validate_name (fst x) = Inr () \<and> validate_path (in_path (snd x)) = Inr () \<and>
        (case in_mode (snd x) of None \<Rightarrow> True | Some m \<Rightarrow> m \<le> 4095) \<and> validate_group (in_group (snd x)) = Inr ())"
    by (auto simp: fun_eq_iff input_ok_def config_ok_def config_of_def validate_mode_def DEFAULT_SOCKET_MODE_def split: option.splits)
  have fns: "input_key = (\<lambda>x. components (in_path (snd x)))" "input_host = (\<lambda>x. in_listener_type (snd x) = Host)"
    "input_entry = (\<lambda>x. (fst x, config_of (fst x) (snd x)))"
    by (simp_all add: fun_eq_iff input_key_def input_host_def input_entry_def)
  show ?thesis
    unfolding listener_set_resolve_Inr [OF assms] ok fns selected_inputs_def MAX_LISTENERS_def Let_def by (rule refl)
qed

theorem listener_set_resolve_exact_witness:
  "list_ex (\<lambda>x. in_listener_type (snd x) = Host) demo_inputs"
  using listener_set_resolve_exact [OF demo_inputs_wf, of no_legacy demo_set] demo_resolve
  by (simp add: Let_def demo_inputs_def)

text \<open>
  C24: a listener transition either refuses and leaves the connection registry exactly as it
  was, because some removed or changed listener is already gated or still carries a
  connection; or it holds the gate of every removed or changed listener, none of which carries
  a connection, and none can gain one until the gate is dropped.
\<close>

theorem transition_atomic_and_undisruptive:
  assumes "sized c" and "steps (conn_step c) from_ceilings es0 st"
    and "named_set current" and "named_set candidate"
  shows "case begin_transition current candidate st of
      (Inl e, st') \<Rightarrow> st' = st \<and>
        (\<exists>nm. disruptive current candidate nm \<and> (bs_mem nm (gated_listeners st) \<or> active_for_listener st nm \<noteq> 0))
    | (Inr (imps, g), st') \<Rightarrow>
        (\<forall>nm es st2. disruptive current candidate nm \<longrightarrow> steps (conn_step c) st' es st2 \<longrightarrow> \<not> list_ex (ungates nm) es \<longrightarrow>
           active_for_listener st2 nm = 0 \<and> bs_mem nm (gated_listeners st2)) \<and> end_listener_transition g st' = st"
proof -
  have inv: "reg_inv c st" by (rule conn_steps_inv [OF assms(2) from_ceilings_inv assms(1)])
  then have wf: "bt_wf (gated_listeners st)" by (simp add: reg_inv_def)
  from begin_transition_cases [OF assms(3,4) wf] show ?thesis
  proof (elim disjE exE conjE)
    fix imps g st'
    assume b: "begin_transition current candidate st = (Inr (imps, g), st')"
      and l: "begin_listener_transition (disruptive_names current candidate st) st = (Inr g, st')"
      and z: "\<forall>nm. disruptive current candidate nm \<longrightarrow> \<not> bs_mem nm (gated_listeners st) \<and> active_for_listener st nm = 0"
    have inv': "reg_inv c st'" using begin_listener_transition_inv [OF inv, of "disruptive_names current candidate st"] l by simp
    from begin_listener_transition_cases [OF wf, of "disruptive_names current candidate st"] l
    have st': "st' = st\<lparr>gated_listeners := gated_listeners st'\<rparr>" "end_listener_transition g st' = st"
      "\<And>nm. disruptive current candidate nm \<Longrightarrow> bs_mem nm (gated_listeners st')"
      using set_disruptive_names [OF assms(3,4)] by auto
    have "active_for_listener st2 nm = 0 \<and> bs_mem nm (gated_listeners st2)"
      if d: "disruptive current candidate nm" and r: "steps (conn_step c) st' es st2" "\<not> list_ex (ungates nm) es" for nm es st2
    proof -
      have "reg_inv c st2" by (rule conn_steps_inv [OF r(1) inv' assms(1)])
      moreover have "count_name st' nm = count_name st nm" by (subst st'(1)) simp
      moreover have "count_name st nm = 0" using z d active_for_listener_count [of st nm] inv by (simp add: reg_inv_def)
      ultimately show ?thesis
        using conn_steps_gated [OF r(1) inv' assms(1) st'(3) [OF d] r(2)] active_for_listener_count [of st2 nm]
        by (simp add: reg_inv_def)
    qed
    with b st'(2) show ?thesis by simp
  qed auto
qed

theorem transition_atomic_and_undisruptive_witness:
  "case begin_transition demo_set listener_set_default (registered_state 1 demo_info from_ceilings) of
     (Inl e, st') \<Rightarrow> st' = registered_state 1 demo_info from_ceilings | (Inr (imps, g), st') \<Rightarrow> end_listener_transition g st' = registered_state 1 demo_info from_ceilings"
proof -
  have "named_set listener_set_default" by code_simp
  from transition_atomic_and_undisruptive [OF compiled_sized demo_steps demo_named this] show ?thesis
    by (auto split: prod.splits sum.splits)
qed

text \<open>
  The check of socket paths lets a final or inner \<open>.\<close> component through, because the
  component iterator drops it: \<open>/run/basil/.\<close> is accepted although it is not normalized, and
  the socket it stands for is the entry \<open>basil\<close> of \<open>/run\<close>.
\<close>

theorem dot_component_accepted:
  "validate_path ''/run/basil/.'' = Inr () \<and> file_name ''/run/basil/.'' = Some ''basil'' \<and>
   validate_path ''/run/./basil'' = Inr () \<and> path_eq ''/run/./basil'' ''/run/basil/.''"
  by code_simp

section \<open>Exactness of the ledger\<close>

definition update_name :: "RewireUpdate \<Rightarrow> string" where
  "update_name u = (case u of RewRecord d \<Rightarrow> rw_listener d | RewResolve n \<Rightarrow> n)"

text \<open>The effect of one update on the entry of its own listener, when nothing is evicted.\<close>

definition update_entry :: "RewireUpdate \<Rightarrow> RewireDiagnostic option \<Rightarrow> RewireDiagnostic option" where
  "update_entry u old =
     (case u of
        RewResolve _ \<Rightarrow> None
      | RewRecord d \<Rightarrow>
          let d' = (case old of Some e \<Rightarrow> d\<lparr>rw_previous_path := rw_previous_path e\<rparr> | None \<Rightarrow> d)
          in if path_eq (rw_new_path d') (rw_previous_path d') then None else Some d')"

lemma evict_oldest_post: "length (evict_oldest n e) < MAX_REWIRE_DIAGNOSTICS \<or> bt_get (evict_oldest n e) n \<noteq> None"
proof (induction n e rule: evict_oldest.induct)
  case (1 n e)
  show ?case
  proof (cases "length e \<ge> MAX_REWIRE_DIAGNOSTICS \<and> bt_get e n = None")
    case True
    then have "e \<noteq> []" by (auto simp: MAX_REWIRE_DIAGNOSTICS_def MAX_LISTENERS_def)
    then have "min_by_generation e \<noteq> None" by (cases e) (auto split: option.splits)
    then obtain o' d where m: "min_by_generation e = Some (o', d)" by fastforce
    with True 1 show ?thesis by (subst (1 2) evict_oldest.simps) (auto simp: m)
  next
    case False
    then show ?thesis by (subst (1 2) evict_oldest.simps) (auto simp: not_le)
  qed
qed

lemma evict_oldest_room: "length e < MAX_REWIRE_DIAGNOSTICS \<or> bt_get e n \<noteq> None \<Longrightarrow> evict_oldest n e = e"
  by (subst evict_oldest.simps) auto

lemma evict_oldest_wf: "bt_wf e \<Longrightarrow> bt_wf (evict_oldest n e)"
proof (induction n e rule: evict_oldest.induct)
  case (1 n e)
  then show ?case by (subst evict_oldest.simps) (auto split: option.split)
qed

lemma apply_update_get:
  assumes "bt_wf e" and "length e < MAX_REWIRE_DIAGNOSTICS \<or> bt_get e (update_name u) \<noteq> None"
  shows "bt_get (apply_update u e) = (bt_get e)(update_name u := update_entry u (bt_get e (update_name u)))"
proof (cases u)
  case (RewRecord d)
  with assms show ?thesis
    by (auto simp: apply_update_def update_entry_def update_name_def Let_def fun_eq_iff bt_get_insert bt_get_remove
        evict_oldest_room split: option.splits)
next
  case (RewResolve n)
  with assms show ?thesis
    by (auto simp: apply_update_def update_entry_def update_name_def fun_eq_iff bt_get_remove)
qed

lemma apply_update_wf: "bt_wf e \<Longrightarrow> bt_wf (apply_update u e)"
  by (cases u) (auto simp: apply_update_def Let_def evict_oldest_wf split: option.splits)

lemma bt_dom: "bt_wf m \<Longrightarrow> dom (bt_get m) = fst ` set m"
  by (simp add: bt_get_def [abs_def] dom_map_of_conv_image_fst)

lemma bt_length_card: "bt_wf m \<Longrightarrow> length m = card (dom (bt_get m))"
  using bt_wf_distinct [of m] distinct_card [of "map fst m"] by (simp add: bt_dom)

lemma ledger_apply_get:
  assumes "bt_wf e" and "distinct (map update_name us)" and "dom (bt_get e) \<union> update_name ` set us \<subseteq> K"
    and "finite K" and "card K \<le> MAX_REWIRE_DIAGNOSTICS"
  shows "bt_wf (ledger_apply us e) \<and> dom (bt_get (ledger_apply us e)) \<subseteq> K \<and>
    (\<forall>u \<in> set us. bt_get (ledger_apply us e) (update_name u) = update_entry u (bt_get e (update_name u))) \<and>
    (\<forall>n. n \<notin> update_name ` set us \<longrightarrow> bt_get (ledger_apply us e) n = bt_get e n)"
  using assms(1-3)
proof (induction us arbitrary: e)
  case (Cons u us)
  have room: "length e < MAX_REWIRE_DIAGNOSTICS \<or> bt_get e (update_name u) \<noteq> None"
  proof (cases "bt_get e (update_name u) = None")
    case True
    then have "dom (bt_get e) \<subset> K" using Cons.prems(3) by auto
    then have "card (dom (bt_get e)) < card K" using assms(4) by (simp add: psubset_card_mono)
    then show ?thesis using assms(5) bt_length_card [OF Cons.prems(1)] by linarith
  qed simp
  note get = apply_update_get [OF Cons.prems(1) room]
  have "dom (bt_get (apply_update u e)) \<subseteq> K"
    using Cons.prems(3) by (auto simp: get split: if_splits)
  then have ih: "bt_wf (ledger_apply us (apply_update u e)) \<and> dom (bt_get (ledger_apply us (apply_update u e))) \<subseteq> K \<and>
    (\<forall>v \<in> set us. bt_get (ledger_apply us (apply_update u e)) (update_name v) = update_entry v (bt_get (apply_update u e) (update_name v))) \<and>
    (\<forall>n. n \<notin> update_name ` set us \<longrightarrow> bt_get (ledger_apply us (apply_update u e)) n = bt_get (apply_update u e) n)"
    using Cons.prems by (intro Cons.IH) (auto simp: apply_update_wf)
  have step: "ledger_apply (u # us) e = ledger_apply us (apply_update u e)" by (simp add: ledger_apply_def)
  have "\<forall>v \<in> set us. update_name v \<noteq> update_name u" "update_name u \<notin> update_name ` set us"
    using Cons.prems(2) by (auto simp: image_iff)
  with ih show ?case unfolding step by (auto simp: get)
qed (auto simp: ledger_apply_def)

text \<open>The updates of one transition, name by name.\<close>

definition transition_update :: "ListenerConfigSet \<Rightarrow> nat \<Rightarrow> nat \<Rightarrow> ListenerConfig \<Rightarrow> RewireUpdate option" where
  "transition_update candidate gen now l =
     (case bt_get candidate (lc_name l) of
        None \<Rightarrow> Some (RewResolve (lc_name l))
      | Some r \<Rightarrow>
          if \<not> path_eq (lc_path r) (lc_path l)
          then Some (RewRecord \<lparr>rw_listener = lc_name l, rw_previous_path = lc_path l, rw_new_path = lc_path r,
             rw_applied_generation = gen, rw_recorded_at_unix = now\<rparr>)
          else None)"

lemma rewire_updates_eq: "rewire_updates current candidate gen now = List.map_filter (transition_update candidate gen now) (map snd current)"
  by (simp add: rewire_updates_def transition_update_def [abs_def])

lemma transition_update_name: "transition_update candidate gen now l = Some u \<Longrightarrow> update_name u = lc_name l"
  by (auto simp: transition_update_def update_name_def split: option.splits if_splits)

lemma map_filter_names:
  "(\<And>l u. f l = Some u \<Longrightarrow> g u = h l) \<Longrightarrow> map g (List.map_filter f ls) = map h (filter (\<lambda>l. f l \<noteq> None) ls)"
  by (induction ls) (auto simp: map_filter_simps split: option.splits)

lemma rewire_names_distinct:
  assumes "named_set current"
  shows "distinct (map update_name (rewire_updates current candidate gen now))"
proof -
  have "map lc_name (map snd current) = map fst current"
    using assms by (auto simp: named_set_def list_all_iff)
  moreover have "distinct (map fst current)" using assms bt_wf_distinct [of current] by (simp add: named_set_def)
  ultimately have "distinct (map lc_name (map snd current))" by argo
  then have "distinct (map lc_name (filter (\<lambda>l. transition_update candidate gen now l \<noteq> None) (map snd current)))"
    by (rule distinct_map_filter)
  moreover have "map update_name (rewire_updates current candidate gen now) =
    map lc_name (filter (\<lambda>l. transition_update candidate gen now l \<noteq> None) (map snd current))"
    unfolding rewire_updates_eq by (rule map_filter_names) (rule transition_update_name)
  ultimately show ?thesis by simp
qed

subsection \<open>The specification: one anchor per listener\<close>

text \<open>
  The abstract state remembers, for every listener, the path it had when it was last added:
  the path that wiring generated for it may still record.
\<close>

definition next_anchors :: "ListenerConfigSet \<Rightarrow> ListenerConfigSet \<Rightarrow> (string \<Rightarrow> PathBuf option) \<Rightarrow> string \<Rightarrow> PathBuf option" where
  "next_anchors current candidate anchors n =
     (case bt_get candidate n of
        None \<Rightarrow> None
      | Some r \<Rightarrow> if bt_get current n = None then Some (lc_path r) else anchors n)"

definition entry_ok :: "string \<Rightarrow> PathBuf \<Rightarrow> PathBuf \<Rightarrow> RewireDiagnostic option \<Rightarrow> bool" where
  "entry_ok n a p d =
     (case d of None \<Rightarrow> path_eq p a
      | Some d \<Rightarrow> \<not> path_eq p a \<and> rw_listener d = n \<and> path_eq (rw_previous_path d) a \<and> path_eq (rw_new_path d) p)"

definition ledger_ok :: "ListenerConfigSet \<Rightarrow> (string \<Rightarrow> PathBuf option) \<Rightarrow> RewireLedger \<Rightarrow> bool" where
  "ledger_ok current anchors e \<longleftrightarrow> bt_wf e \<and>
     (\<forall>n. case bt_get current n of
        None \<Rightarrow> bt_get e n = None
      | Some l \<Rightarrow> \<exists>a. anchors n = Some a \<and> entry_ok n a (lc_path l) (bt_get e n))"

lemma ledger_ok_get:
  assumes "ledger_ok current anchors e"
  shows "bt_get current n = None \<Longrightarrow> bt_get e n = None"
    and "bt_get current n = Some l \<Longrightarrow> \<exists>a. anchors n = Some a \<and> entry_ok n a (lc_path l) (bt_get e n)"
proof -
  have "case bt_get current n of None \<Rightarrow> bt_get e n = None
      | Some l \<Rightarrow> \<exists>a. anchors n = Some a \<and> entry_ok n a (lc_path l) (bt_get e n)"
    using assms unfolding ledger_ok_def by blast
  then show "bt_get current n = None \<Longrightarrow> bt_get e n = None"
    and "bt_get current n = Some l \<Longrightarrow> \<exists>a. anchors n = Some a \<and> entry_ok n a (lc_path l) (bt_get e n)"
    by simp_all
qed

lemma ledger_ok_dom: "ledger_ok current anchors e \<Longrightarrow> dom (bt_get e) \<subseteq> dom (bt_get current)"
  using ledger_ok_get(1) [of current anchors e] by (force simp: domIff)

lemma rewire_updates_mem:
  assumes "named_set current"
  shows "u \<in> set (rewire_updates current candidate gen now) \<longleftrightarrow>
    (\<exists>n l. bt_get current n = Some l \<and> transition_update candidate gen now l = Some u \<and> update_name u = n)" (is "?l \<longleftrightarrow> ?r")
proof
  assume ?l
  then obtain l where l: "l \<in> snd ` set current" "transition_update candidate gen now l = Some u"
    by (auto simp: rewire_updates_eq set_map_filter)
  with named_set_values [OF assms, of l] transition_update_name [OF l(2)] show ?r by simp
next
  assume ?r
  then obtain n l where l: "bt_get current n = Some l" "transition_update candidate gen now l = Some u" by blast
  then have "l \<in> snd ` set current" using named_set_values [OF assms, of l] named_set_get [OF assms l(1)] by simp
  with l(2) show ?l by (auto simp: rewire_updates_eq set_map_filter)
qed

lemma ledger_apply_entry:
  assumes "named_set current" and "bt_wf e" and "dom (bt_get e) \<subseteq> dom (bt_get current)"
  shows "bt_wf (ledger_apply (rewire_updates current candidate gen now) e)"
    and "bt_get (ledger_apply (rewire_updates current candidate gen now) e) n =
      (case bt_get current n of None \<Rightarrow> None
       | Some l \<Rightarrow> (case transition_update candidate gen now l of None \<Rightarrow> bt_get e n | Some u \<Rightarrow> update_entry u (bt_get e n)))"
proof -
  let ?us = "rewire_updates current candidate gen now" and ?e = "ledger_apply (rewire_updates current candidate gen now) e"
  have wfc: "bt_wf current" and len: "length current \<le> MAX_REWIRE_DIAGNOSTICS"
    using assms(1) by (simp_all add: named_set_def MAX_REWIRE_DIAGNOSTICS_def)
  note us = rewire_updates_mem [OF assms(1), of _ candidate gen now]
  have sub: "dom (bt_get e) \<union> update_name ` set ?us \<subseteq> dom (bt_get current)"
    using assms(3) us by auto
  have fin: "finite (dom (bt_get current))" "card (dom (bt_get current)) \<le> MAX_REWIRE_DIAGNOSTICS"
    using len bt_length_card [OF wfc] by (simp_all add: bt_dom [OF wfc])
  note ap = ledger_apply_get [OF assms(2) rewire_names_distinct [OF assms(1)] sub fin]
  then show "bt_wf ?e" by blast
  show "bt_get ?e n = (case bt_get current n of None \<Rightarrow> None
       | Some l \<Rightarrow> (case transition_update candidate gen now l of None \<Rightarrow> bt_get e n | Some u \<Rightarrow> update_entry u (bt_get e n)))"
  proof (cases "bt_get current n")
    case None
    moreover have "n \<notin> dom (bt_get ?e)" using ap None by blast
    ultimately show ?thesis by (simp add: domIff)
  next
    case (Some l)
    show ?thesis
    proof (cases "transition_update candidate gen now l")
      case None
      then have "n \<notin> update_name ` set ?us" using us Some by auto
      with ap None Some show ?thesis by simp
    next
      case (Some u)
      then have "update_name u = n" using transition_update_name [OF Some] named_set_get [OF assms(1) \<open>bt_get current n = Some l\<close>] by simp
      moreover from this have "u \<in> set ?us" using us Some \<open>bt_get current n = Some l\<close> by blast
      ultimately show ?thesis using ap Some \<open>bt_get current n = Some l\<close> by auto
    qed
  qed
qed

lemma update_entry_ok:
  assumes "entry_ok n a (lc_path l) d" and "lc_name l = n" and "bt_get candidate n = Some r"
  shows "entry_ok n a (lc_path r) (case transition_update candidate gen now l of None \<Rightarrow> d | Some u \<Rightarrow> update_entry u d)"
  using assms
  by (cases d) (auto simp: entry_ok_def transition_update_def update_entry_def Let_def path_eq_def)

lemma ledger_step_ok:
  assumes "named_set current" and "named_set candidate" and "ledger_ok current anchors e"
  shows "ledger_ok candidate (next_anchors current candidate anchors) (ledger_apply (rewire_updates current candidate gen now) e)"
proof -
  have wf: "bt_wf e" using assms(3) by (simp add: ledger_ok_def)
  note ap = ledger_apply_entry [OF assms(1) wf ledger_ok_dom [OF assms(3)], of candidate gen now]
  have "case bt_get candidate n of None \<Rightarrow> bt_get (ledger_apply (rewire_updates current candidate gen now) e) n = None
        | Some r \<Rightarrow> \<exists>a. next_anchors current candidate anchors n = Some a \<and>
            entry_ok n a (lc_path r) (bt_get (ledger_apply (rewire_updates current candidate gen now) e) n)" for n
  proof (cases "bt_get current n")
    case None
    then show ?thesis by (simp add: ap(2) next_anchors_def entry_ok_def split: option.split)
  next
    case (Some l)
    note ln = named_set_get [OF assms(1) Some]
    show ?thesis
    proof (cases "bt_get candidate n")
      case None
      then show ?thesis using Some ln by (simp add: ap(2) transition_update_def update_entry_def)
    next
      case (Some r)
      from assms(3) \<open>bt_get current n = Some l\<close> obtain a where a: "anchors n = Some a" "entry_ok n a (lc_path l) (bt_get e n)"
        using ledger_ok_get(2) by blast
      from update_entry_ok [OF a(2) ln Some, of gen now] a(1) Some \<open>bt_get current n = Some l\<close>
      show ?thesis by (simp add: ap(2) next_anchors_def)
    qed
  qed
  with ap(1) show ?thesis unfolding ledger_ok_def by blast
qed

subsection \<open>Runs of committed transitions\<close>

text \<open>A history lists the committed listener sets, newest first, each with its generation and time.\<close>

type_synonym history = "(ListenerConfigSet \<times> nat \<times> nat) list"

fun history_ledger :: "ListenerConfigSet \<Rightarrow> history \<Rightarrow> RewireLedger" where
  "history_ledger start [] = []"
| "history_ledger start ((s, gen, now) # older) =
     ledger_apply (rewire_updates (case older of [] \<Rightarrow> start | (s', _) # _ \<Rightarrow> s') s gen now) (history_ledger start older)"

text \<open>The path a listener had when it was last added: the oldest one of its current life.\<close>

fun anchor :: "string \<Rightarrow> ListenerConfigSet list \<Rightarrow> PathBuf option" where
  "anchor n [] = None"
| "anchor n (s # older) =
     (case bt_get s n of
        None \<Rightarrow> None
      | Some l \<Rightarrow> (case anchor n older of None \<Rightarrow> Some (lc_path l) | Some a \<Rightarrow> Some a))"

definition history_sets :: "ListenerConfigSet \<Rightarrow> history \<Rightarrow> ListenerConfigSet list" where
  "history_sets start h = map fst h @ [start]"

lemma anchor_None: "anchor n (s # older) = None \<longleftrightarrow> bt_get s n = None"
  by (auto split: option.splits)

lemma history_ledger_ok:
  "list_all named_set (history_sets start h) \<Longrightarrow>
     ledger_ok (hd (history_sets start h)) (\<lambda>n. anchor n (history_sets start h)) (history_ledger start h)"
proof (induction start h rule: history_ledger.induct)
  case (1 start)
  then show ?case by (auto simp: ledger_ok_def history_sets_def entry_ok_def split: option.splits)
next
  case (2 start s gen now older)
  let ?cur = "hd (history_sets start older)"
  have cur: "(case older of [] \<Rightarrow> start | (s', _) # _ \<Rightarrow> s') = ?cur"
    by (auto simp: history_sets_def split: list.split)
  have named: "named_set ?cur" "named_set s" "list_all named_set (history_sets start older)"
    using 2(2) by (auto simp: history_sets_def list_all_iff hd_append hd_map split: list.splits)
  have hs: "history_sets start ((s, gen, now) # older) = s # history_sets start older" by (simp add: history_sets_def)
  have "history_sets start older = ?cur # tl (history_sets start older)" by (simp add: history_sets_def)
  then have none: "anchor n (history_sets start older) = None \<longleftrightarrow> bt_get ?cur n = None" for n
    using anchor_None [of n ?cur "tl (history_sets start older)"] by simp
  have "next_anchors ?cur s (\<lambda>n. anchor n (history_sets start older)) = (\<lambda>n. anchor n (s # history_sets start older))"
    by (auto simp: fun_eq_iff next_anchors_def none [symmetric] split: option.split)
  with ledger_step_ok [OF named(1,2) 2(1) [OF named(3)], of gen now] show ?case
    by (simp only: cur hs list.sel(1) history_ledger.simps)
qed

text \<open>
  C33: after any sequence of committed listener changes the ledger holds a diagnostic for
  exactly those listeners whose socket is not where it was when the listener was last added,
  each naming that oldest path and the present one; it never exceeds one entry per configurable
  listener, so its eviction of the oldest entry is never reached.
\<close>

theorem rewire_ledger_exact:
  assumes "list_all named_set (history_sets start h)"
  shows "(case bt_get (hd (history_sets start h)) n of
      None \<Rightarrow> bt_get (history_ledger start h) n = None
    | Some l \<Rightarrow> (case bt_get (history_ledger start h) n of
          None \<Rightarrow> path_eq (lc_path l) (the (anchor n (history_sets start h)))
        | Some d \<Rightarrow> \<not> path_eq (lc_path l) (the (anchor n (history_sets start h))) \<and> rw_listener d = n \<and>
            path_eq (rw_previous_path d) (the (anchor n (history_sets start h))) \<and> path_eq (rw_new_path d) (lc_path l)))
    \<and> length (ledger_snapshot (history_ledger start h)) \<le> MAX_REWIRE_DIAGNOSTICS"
proof -
  note ok = history_ledger_ok [OF assms]
  have wf: "bt_wf (history_ledger start h)" using ok by (simp add: ledger_ok_def)
  have s: "named_set (hd (history_sets start h))"
    using assms by (auto simp: history_sets_def list_all_iff hd_append hd_map split: list.splits)
  then have wfs: "bt_wf (hd (history_sets start h))" by (simp add: named_set_def)
  have "length (history_ledger start h) \<le> length (hd (history_sets start h))"
    unfolding bt_length_card [OF wf] bt_length_card [OF wfs]
    by (rule card_mono) (simp add: bt_dom [OF wfs], rule ledger_ok_dom [OF ok])
  then have "length (ledger_snapshot (history_ledger start h)) \<le> MAX_REWIRE_DIAGNOSTICS"
    using s by (simp add: named_set_def ledger_snapshot_def MAX_REWIRE_DIAGNOSTICS_def)
  then show ?thesis
    using ledger_ok_get [OF ok, of n] by (auto simp: entry_ok_def split: option.splits)
qed

definition moved_set :: ListenerConfigSet where
  "moved_set = map (\<lambda>(n, l). (n, if n = ''courier'' then l\<lparr>lc_path := ''/run/basil/c.sock''\<rparr> else l)) demo_set"

theorem rewire_ledger_exact_witness:
  "length (ledger_snapshot (history_ledger demo_set [(moved_set, 2, 100)])) \<le> MAX_REWIRE_DIAGNOSTICS \<and>
   bt_get (history_ledger demo_set [(moved_set, 2, 100)]) ''courier'' \<noteq> None"
proof
  have "list_all named_set (history_sets demo_set [(moved_set, 2, 100)])" by code_simp
  from rewire_ledger_exact [OF this]
  show "length (ledger_snapshot (history_ledger demo_set [(moved_set, 2, 100)])) \<le> MAX_REWIRE_DIAGNOSTICS" by blast
  show "bt_get (history_ledger demo_set [(moved_set, 2, 100)]) ''courier'' \<noteq> None" by code_simp
qed


end
