(* ===== verification/Configuration.thy ===== *)
theory Configuration
  imports Loader_Policy Listener
begin

text \<open>
  The configuration corpus (\<open>core/configuration.rs\<close>): reading a source file under a size limit
  with a torn-read check, the bootstrap with its startup overrides, the catalog and policy
  documents with theirs, and the composition that ends in the loader.

    \<^item> Reading a file yields what the system calls of one read observe (\<open>SourceRead\<close>): the
      metadata of the open file before and after, the metadata of the path after, the bytes.
    \<^item> The text parsers and printers of the \<open>toml\<close>, \<open>serde_json\<close> and \<open>serde_yaml\<close> crates, the
      digest and the float and date formats are fields of \<open>ConfigEnv\<close>. The JSON and YAML
      parsers hand over the document tree; \<open>json_value\<close> is the value type the code collects it
      into, where a later member replaces an earlier one of the same name.
    \<^item> The source traces the code collects for its log are returned beside each result.
    \<^item> Error messages are the code's texts; the payload of a library error is its message.
\<close>

section \<open>Values\<close>

datatype Toml =
    TStr string
  | TInt int
  | TFloat F64
  | TBool bool
  | TDatetime string
  | TArr "Toml list"
  | TTable "(string \<times> Toml) list"

fun as_table :: "Toml \<Rightarrow> (string \<times> Toml) list option" where
  "as_table (TTable ms) = Some ms"
| "as_table _ = None"

fun toml_as_str :: "Toml \<Rightarrow> string option" where
  "toml_as_str (TStr s) = Some s"
| "toml_as_str _ = None"

fun as_integer :: "Toml \<Rightarrow> int option" where
  "as_integer (TInt i) = Some i"
| "as_integer _ = None"

text \<open>Assignment through \<open>get_mut\<close>: the member exists.\<close>

definition member_set :: "string \<Rightarrow> 'v \<Rightarrow> (string \<times> 'v) list \<Rightarrow> (string \<times> 'v) list" where
  "member_set k v ms = map (\<lambda>(k', v'). (k', if k' = k then v else v')) ms"

text \<open>\<open>serde_json::Value\<close> of a document tree: objects become ordered maps, last member wins.\<close>

fun json_value :: "Json \<Rightarrow> Json" where
  "json_value (JArr xs) = JArr (map json_value xs)"
| "json_value (JObj ms) = JObj (fold (\<lambda>(k, v) m. bt_insert k v m) (map (\<lambda>(k, v). (k, json_value v)) ms) [])"
| "json_value v = v"

section \<open>Sources\<close>

definition MAX_STARTUP_OVERRIDES :: nat where "MAX_STARTUP_OVERRIDES = 64"
definition MAX_OVERRIDE_PATH_LEN :: nat where "MAX_OVERRIDE_PATH_LEN = 256"
definition MAX_OVERRIDE_VALUE_LEN :: nat where "MAX_OVERRIDE_VALUE_LEN = 4096"
definition MAX_CATALOG_POLICY_SOURCE_BYTES :: nat where "MAX_CATALOG_POLICY_SOURCE_BYTES = 2 * 1024 * 1024"
definition MAX_OTHER_SOURCE_BYTES :: nat where "MAX_OTHER_SOURCE_BYTES = 1024 * 1024"
definition CORPUS_SCHEMA_VERSION :: int where "CORPUS_SCHEMA_VERSION = 3"
definition DEFAULT_CONFIG_PATH :: PathBuf where "DEFAULT_CONFIG_PATH = ''/etc/basil/config.toml''"

record ConfigurationSourceTrace =
  tr_slot :: string
  tr_name :: "string option"
  tr_path :: PathBuf
  tr_modified_unix_seconds :: int
  tr_modified_nanoseconds :: int
  tr_byte_size :: nat
  tr_sha256 :: string

text \<open>A \<open>SystemTime\<close> is its distance from the epoch in nanoseconds.\<close>

record SourceFileState =
  sf_len :: nat
  sf_modified :: int
  sf_dev :: nat
  sf_ino :: nat
  sf_ctime_seconds :: int
  sf_ctime_nanoseconds :: int

record SourceRead =
  rd_before :: "string + SourceFileState"
  rd_content :: "string + string"
  rd_after :: "string + SourceFileState"
  rd_path_after :: "string + SourceFileState"

record ConfigEnv =
  ce_open :: "PathBuf \<Rightarrow> string + SourceRead"
  ce_parse_toml :: "string \<Rightarrow> string + Toml"
  ce_parse_json :: "string \<Rightarrow> string + Json"
  ce_parse_yaml :: "string \<Rightarrow> string + Json"
  ce_toml_to_json :: "Toml \<Rightarrow> string + Json"
  ce_print_json :: "Json \<Rightarrow> string + string"
  ce_parse_f64 :: "string \<Rightarrow> F64 option"
  ce_parse_datetime :: "string \<Rightarrow> string option"
  ce_sha256 :: "string \<Rightarrow> string"
  ce_load :: LoadEnv

definition source_byte_limit :: "string \<Rightarrow> nat" where
  "source_byte_limit slt =
     (if slt = ''catalog'' \<or> slt = ''policy'' then MAX_CATALOG_POLICY_SOURCE_BYTES else MAX_OTHER_SOURCE_BYTES)"

definition source_label :: "string \<Rightarrow> string option \<Rightarrow> string" where
  "source_label slt name = (case name of None \<Rightarrow> slt | Some n \<Rightarrow> slt @ '' `'' @ n @ ''`'')"

definition ensure_source_within_limit ::
    "string \<Rightarrow> string option \<Rightarrow> PathBuf \<Rightarrow> nat \<Rightarrow> nat \<Rightarrow> string + unit" where
  "ensure_source_within_limit slt name path sz max_bytes =
     (if sz \<le> max_bytes then Inr ()
      else Inl (source_label slt name @ '' configuration source '' @ path @ '' is '' @ show_nat sz @
        '' bytes, exceeding the '' @ show_nat max_bytes @ ''-byte limit''))"

definition system_time_parts :: "int \<Rightarrow> int \<times> int" where
  "system_time_parts t =
     (if t \<ge> 0 then (min (t div 1000000000) i64_max, t mod 1000000000)
      else
        let d = - t; secs = min (d div 1000000000) i64_max; nanos = d mod 1000000000
        in if nanos = 0 then (- secs, 0) else (- (sat_add_i64 secs 1), 1000000000 - nanos))"

definition configuration_source_trace_from_bytes ::
    "(string \<Rightarrow> string) \<Rightarrow> string \<Rightarrow> string option \<Rightarrow> PathBuf \<Rightarrow> string \<Rightarrow> int \<Rightarrow> ConfigurationSourceTrace" where
  "configuration_source_trace_from_bytes sha slt name path bytes modified =
     \<lparr>tr_slot = slt, tr_name = name, tr_path = path, tr_modified_unix_seconds = fst (system_time_parts modified),
      tr_modified_nanoseconds = snd (system_time_parts modified), tr_byte_size = length bytes, tr_sha256 = sha bytes\<rparr>"

definition read_configuration_source ::
    "ConfigEnv \<Rightarrow> string \<Rightarrow> string option \<Rightarrow> PathBuf \<Rightarrow> string + (string \<times> ConfigurationSourceTrace)" where
  "read_configuration_source env slt name path =
     res_bind (ce_open env path) (\<lambda>file.
     res_bind (rd_before file) (\<lambda>before.
     let max_bytes = source_byte_limit slt in
     res_bind (ensure_source_within_limit slt name path (sf_len before) max_bytes) (\<lambda>_.
     res_bind (rd_content file) (\<lambda>content.
     let bytes = take (max_bytes + 1) content in
     res_bind (ensure_source_within_limit slt name path (length bytes) max_bytes) (\<lambda>_.
     res_bind (rd_after file) (\<lambda>after.
     res_bind (rd_path_after file) (\<lambda>path_after.
     if before \<noteq> after \<or> after \<noteq> path_after \<or> length bytes \<noteq> sf_len after
     then Inl ''configuration source changed while being read''
     else Inr (bytes, configuration_source_trace_from_bytes (ce_sha256 env) slt name path bytes (sf_modified after)))))))))"

section \<open>Overrides\<close>

datatype ConfigurationError =
    ReadBootstrap PathBuf string
  | ParseBootstrap PathBuf string
  | DecodeBootstrap PathBuf
  | InvalidCorpus string
  | InvalidOverride string
  | ReadDocument string PathBuf string
  | ParseDocument string PathBuf string
  | DecodeDocument string PathBuf
  | CatalogError LoadError

record ConfigOverride =
  ov_path :: string
  ov_value :: string

record OverrideProvenance =
  pv_path :: string
  pv_masked_source :: PathBuf

record CorpusSources =
  src_catalog :: PathBuf
  src_policy :: PathBuf
  src_bundle :: PathBuf

record CorpusDocuments =
  doc_catalog :: Catalog
  doc_policy :: ResolvedPolicy
  doc_policy_config :: Config
  doc_warnings :: "LoadWarning list"
  doc_overrides :: "OverrideProvenance list"

record LoadedBootstrap =
  lb_path :: PathBuf
  lb_value :: Toml
  lb_sources :: CorpusSources
  lb_overrides :: "OverrideProvenance list"
  lb_document_overrides :: "ConfigOverride list"

definition ConfigOverride_parse :: "string \<Rightarrow> ConfigurationError + ConfigOverride" where
  "ConfigOverride_parse raw =
     (case split_once (CHR ''='') raw of
        None \<Rightarrow> Inl (InvalidOverride ''expected PATH=VALUE'')
      | Some (p, v) \<Rightarrow>
          let path = trim p; value = trim v in
          if path = [] \<or> value = [] then Inl (InvalidOverride ''override path and value must both be non-empty'')
          else if length path > MAX_OVERRIDE_PATH_LEN \<or> length value > MAX_OVERRIDE_VALUE_LEN
          then Inl (InvalidOverride (''override exceeds the '' @ show_nat MAX_OVERRIDE_PATH_LEN @
            ''-byte path or '' @ show_nat MAX_OVERRIDE_VALUE_LEN @ ''-byte value limit''))
          else Inr \<lparr>ov_path = path, ov_value = value\<rparr>)"

definition is_source_path :: "ConfigOverride \<Rightarrow> bool" where
  "is_source_path o' \<longleftrightarrow> ov_path o' = ''import.catalog'' \<or> ov_path o' = ''import.policy'' \<or> ov_path o' = ''import.bundle''"

definition is_document_path :: "ConfigOverride \<Rightarrow> bool" where
  "is_document_path o' \<longleftrightarrow> starts_with ''catalog.'' (ov_path o') \<or> starts_with ''policy.'' (ov_path o')"

fun override_paths_loop :: "ConfigOverride list \<Rightarrow> string list \<Rightarrow> ConfigurationError + unit" where
  "override_paths_loop [] paths = Inr ()"
| "override_paths_loop (o' # rest) paths =
     (if ov_path o' \<in> set paths then Inl (InvalidOverride (''duplicate target `'' @ ov_path o' @ ''`''))
      else override_paths_loop rest (ov_path o' # paths))"

definition validate_override_set :: "ConfigOverride list \<Rightarrow> ConfigurationError + unit" where
  "validate_override_set overrides =
     (if length overrides > MAX_STARTUP_OVERRIDES
      then Inl (InvalidOverride (''at most '' @ show_nat MAX_STARTUP_OVERRIDES @ '' startup overrides are accepted''))
      else override_paths_loop overrides [])"

section \<open>The bootstrap\<close>

text \<open>\<open>lookup_mut\<close> as a lookup and an assignment along the same segments.\<close>

fun lookup_segments :: "string \<Rightarrow> Toml \<Rightarrow> string list \<Rightarrow> ConfigurationError + Toml" where
  "lookup_segments path current [] = Inr current"
| "lookup_segments path current (segment # rest) =
     (case as_table current of
        None \<Rightarrow> Inl (InvalidOverride (''target `'' @ path @ ''` crosses a non-table value''))
      | Some table \<Rightarrow>
          (case map_of table segment of
             None \<Rightarrow> Inl (InvalidOverride (''target `'' @ path @ ''` does not already exist''))
           | Some v \<Rightarrow> lookup_segments path v rest))"

fun assign_segments :: "Toml \<Rightarrow> string list \<Rightarrow> Toml \<Rightarrow> Toml" where
  "assign_segments current [] v = v"
| "assign_segments current (segment # rest) v =
     (case current of
        TTable table \<Rightarrow>
          (case map_of table segment of
             Some t \<Rightarrow> TTable (member_set segment (assign_segments t rest v) table)
           | None \<Rightarrow> current)
      | _ \<Rightarrow> current)"

definition lookup_mut :: "Toml \<Rightarrow> string \<Rightarrow> ConfigurationError + Toml" where
  "lookup_mut root path = lookup_segments path root (split_on (CHR ''.'') path)"

definition toml_assign :: "Toml \<Rightarrow> string \<Rightarrow> Toml \<Rightarrow> Toml" where
  "toml_assign root path v = assign_segments root (split_on (CHR ''.'') path) v"

definition parse_string_value :: "ConfigEnv \<Rightarrow> string \<Rightarrow> string" where
  "parse_string_value env raw =
     (case ce_parse_toml env (''value = '' @ raw) of
        Inr (TTable ms) \<Rightarrow>
          (case Option.bind (map_of ms ''value'') toml_as_str of Some s \<Rightarrow> s | None \<Rightarrow> raw)
      | _ \<Rightarrow> raw)"

definition parse_i64 :: "string \<Rightarrow> int option" where
  "parse_i64 s = Option.bind (parse_i128 s) (\<lambda>i. if i64_min \<le> i \<and> i \<le> i64_max then Some i else None)"

definition parse_bool :: "string \<Rightarrow> bool option" where
  "parse_bool s = (if s = ''true'' then Some True else if s = ''false'' then Some False else None)"

fun parse_like :: "ConfigEnv \<Rightarrow> Toml \<Rightarrow> string \<Rightarrow> string + Toml" where
  "parse_like env (TStr _) raw = Inr (TStr (parse_string_value env raw))"
| "parse_like env (TInt _) raw = ok_or (map_option TInt (parse_i64 raw)) ''requires an integer value''"
| "parse_like env (TFloat _) raw = ok_or (map_option TFloat (ce_parse_f64 env raw)) ''requires a floating-point value''"
| "parse_like env (TBool _) raw = ok_or (map_option TBool (parse_bool raw)) ''requires `true` or `false`''"
| "parse_like env (TDatetime _) raw = ok_or (map_option TDatetime (ce_parse_datetime env raw)) ''requires a TOML datetime value''"
| "parse_like env _ raw = Inl ''is structural; only scalar leaves may be overridden''"

definition apply_source_override :: "ConfigEnv \<Rightarrow> Toml \<Rightarrow> ConfigOverride \<Rightarrow> ConfigurationError + Toml" where
  "apply_source_override env value o' =
     res_bind (lookup_mut value (ov_path o')) (\<lambda>target.
       if toml_as_str target = None
       then Inl (InvalidOverride (''source target `'' @ ov_path o' @ ''` is not an existing string path''))
       else Inr (toml_assign value (ov_path o') (TStr (parse_string_value env (ov_value o')))))"

definition protected_path :: "string \<Rightarrow> bool" where
  "protected_path path \<longleftrightarrow> path = ''schema'' \<or> path = ''schemaVersion'' \<or> starts_with ''import.'' path \<or>
     starts_with ''config.'' path \<or> starts_with ''unlock.'' path \<or> starts_with ''broker-identity.'' path \<or>
     starts_with ''invocation.'' path \<or> path = ''jwks.tls.key-file'' \<or> path = ''jwt-role'' \<or> path = ''jwt-audience''"

definition apply_scalar_override :: "ConfigEnv \<Rightarrow> Toml \<Rightarrow> ConfigOverride \<Rightarrow> ConfigurationError + Toml" where
  "apply_scalar_override env value o' =
     (let path = ov_path o' in
      if protected_path path
      then Inl (InvalidOverride (''target `'' @ path @ ''` is secret-bearing, structural, versioned, or identity-bearing''))
      else
        res_bind (lookup_mut value path) (\<lambda>target.
        res_bind (res_map_err (\<lambda>reason. InvalidOverride (''target `'' @ path @ ''` '' @ reason))
            (parse_like env target (ov_value o'))) (\<lambda>replacement.
        Inr (toml_assign value path replacement))))"

definition validate_bootstrap_header :: "Toml \<Rightarrow> ConfigurationError + unit" where
  "validate_bootstrap_header value =
     res_bind (ok_or (as_table value) (InvalidCorpus ''bootstrap must be a TOML table'')) (\<lambda>table.
     if map_of table ''config'' \<noteq> None
     then Inl (InvalidCorpus ''bootstrap field `[config]` is unsupported; use `[import]`'')
     else if list_ex (\<lambda>field. map_of table field \<noteq> None) [''catalog'', ''policy'', ''bundle'']
     then Inl (InvalidCorpus ''schema-3 bootstrap source paths belong under `[import]`'')
     else
       res_bind (case Option.bind (map_of table ''schema'') toml_as_str of
           Some s \<Rightarrow> if s = ''agent'' then Inr ()
             else Inl (InvalidCorpus (''bootstrap schema `'' @ s @ ''` is invalid; expected `agent`''))
         | None \<Rightarrow> Inl (InvalidCorpus ''bootstrap is missing required string `schema = \"agent\"`'')) (\<lambda>_.
       case Option.bind (map_of table ''schemaVersion'') as_integer of
         Some v \<Rightarrow> if v = CORPUS_SCHEMA_VERSION then Inr ()
           else if v = 1 \<or> v = 2
           then Inl (InvalidCorpus ''schemaVersion 1 and 2 are reserved pre-unification versions; migrate the complete corpus to schemaVersion 3'')
           else Inl (InvalidCorpus (''schemaVersion `'' @ (if v < 0 then ''-'' else '''') @ show_nat (nat \<bar>v\<bar>) @ ''` is unsupported; expected 3''))
       | None \<Rightarrow> Inl (InvalidCorpus ''bootstrap requires exact integer `schemaVersion = 3`'')))"

text \<open>\<open>Path::parent\<close> and \<open>Path::join\<close>: the text without its last component; the text after a separator.\<close>

definition silent_part :: "nat \<times> string \<Rightarrow> bool" where
  "silent_part x \<longleftrightarrow> snd x = [] \<or> (snd x = ''.'' \<and> fst x > 0)"

definition parent_path :: "PathBuf \<Rightarrow> PathBuf option" where
  "parent_path p =
     (let parts = List.enumerate 0 (split_on (CHR ''/'') p) in
      case dropWhile silent_part (rev parts) of
        [] \<Rightarrow> None
      | _ # before \<Rightarrow>
          let kept = rev (dropWhile silent_part before) in
          Some (if kept = [] then (if has_root p then ''/'' else []) else join_with ''/'' (map snd kept)))"

definition path_join :: "PathBuf \<Rightarrow> PathBuf \<Rightarrow> PathBuf" where
  "path_join parent p =
     (if has_root p then p
      else if parent = [] \<or> strip_suffix ''/'' parent \<noteq> None then parent @ p else parent @ ''/'' @ p)"

definition resolve_path :: "PathBuf \<Rightarrow> string \<Rightarrow> PathBuf" where
  "resolve_path parent raw = (if has_root raw then raw else path_join parent raw)"

definition required_source :: "(string \<times> Toml) list \<Rightarrow> PathBuf \<Rightarrow> string \<Rightarrow> ConfigurationError + PathBuf" where
  "required_source imports parent name =
     res_bind (ok_or (Option.bind (map_of imports name) toml_as_str)
       (InvalidCorpus (''`import.'' @ name @ ''` must be a string path''))) (\<lambda>raw. Inr (resolve_path parent raw))"

definition extract_sources :: "Toml \<Rightarrow> PathBuf \<Rightarrow> ConfigurationError + CorpusSources" where
  "extract_sources value parent =
     res_bind (ok_or (Option.bind (Option.bind (as_table value) (\<lambda>t. map_of t ''import'')) as_table)
       (InvalidCorpus ''bootstrap requires an `[import]` table'')) (\<lambda>imports.
     case find (\<lambda>(name, _). name \<notin> {''catalog'', ''policy'', ''bundle''}) imports of
       Some (name, _) \<Rightarrow> Inl (InvalidCorpus (''unsupported configuration import slot `import.'' @ name @ ''`''))
     | None \<Rightarrow>
         res_bind (required_source imports parent ''catalog'') (\<lambda>c.
         res_bind (required_source imports parent ''policy'') (\<lambda>p.
         res_bind (required_source imports parent ''bundle'') (\<lambda>b.
         Inr \<lparr>src_catalog = c, src_policy = p, src_bundle = b\<rparr>))))"

fun apply_overrides ::
    "(Toml \<Rightarrow> ConfigOverride \<Rightarrow> ConfigurationError + Toml) \<Rightarrow> PathBuf \<Rightarrow> ConfigOverride list \<Rightarrow> Toml \<Rightarrow>
     OverrideProvenance list \<Rightarrow> ConfigurationError + (Toml \<times> OverrideProvenance list)" where
  "apply_overrides f path [] value provenance = Inr (value, provenance)"
| "apply_overrides f path (o' # rest) value provenance =
     res_bind (f value o') (\<lambda>value'.
       apply_overrides f path rest value' (provenance @ [\<lparr>pv_path = ov_path o', pv_masked_source = path\<rparr>]))"

definition build_loaded_bootstrap ::
    "ConfigEnv \<Rightarrow> PathBuf \<Rightarrow> Toml \<Rightarrow> ConfigOverride list \<Rightarrow> ConfigurationError + LoadedBootstrap" where
  "build_loaded_bootstrap env path value overrides =
     res_bind (validate_override_set overrides) (\<lambda>_.
     res_bind (validate_bootstrap_header value) (\<lambda>_.
     res_bind (apply_overrides (apply_source_override env) path (filter is_source_path overrides) value []) (\<lambda>(value1, provenance1).
     let parent = (case parent_path path of Some p \<Rightarrow> p | None \<Rightarrow> ''.'') in
     res_bind (extract_sources value1 parent) (\<lambda>sources.
     res_bind (apply_overrides (apply_scalar_override env) path
         (filter (\<lambda>o'. \<not> is_source_path o' \<and> \<not> is_document_path o') overrides) value1 provenance1) (\<lambda>(value2, provenance2).
     Inr \<lparr>lb_path = path, lb_value = value2, lb_sources = sources, lb_overrides = provenance2,
        lb_document_overrides = filter is_document_path overrides\<rparr>)))))"

text \<open>Results beside the traces collected so far.\<close>

type_synonym 'a traced = "(ConfigurationError + 'a) \<times> ConfigurationSourceTrace list"

definition tr_bind :: "'a traced \<Rightarrow> ('a \<Rightarrow> 'b traced) \<Rightarrow> 'b traced" where
  "tr_bind m f = (case m of (Inl e, ts) \<Rightarrow> (Inl e, ts) | (Inr a, ts) \<Rightarrow> (case f a of (r, ts') \<Rightarrow> (r, ts @ ts')))"

definition load_bootstrap_with_trace_collector ::
    "ConfigEnv \<Rightarrow> PathBuf option \<Rightarrow> ConfigOverride list \<Rightarrow> LoadedBootstrap traced" where
  "load_bootstrap_with_trace_collector env selected overrides =
     (let path = (case selected of Some p \<Rightarrow> p | None \<Rightarrow> DEFAULT_CONFIG_PATH) in
      case read_configuration_source env ''agent'' None path of
        Inl err \<Rightarrow> (Inl (ReadBootstrap path err), [])
      | Inr (bytes, trace) \<Rightarrow>
          (if \<not> utf8_ok bytes then Inl (DecodeBootstrap path)
           else res_bind (res_map_err (ParseBootstrap path) (ce_parse_toml env bytes)) (\<lambda>value.
             build_loaded_bootstrap env path value overrides), [trace]))"

section \<open>Documents\<close>

text \<open>\<open>Path::extension\<close>: the part of the file name after its last dot, unless the dot is its first byte.\<close>

definition extension :: "PathBuf \<Rightarrow> string option" where
  "extension p =
     Option.bind (file_name p) (\<lambda>name.
       case rev (split_on (CHR ''.'') name) of
         ext # stem # others \<Rightarrow> if others = [] \<and> stem = [] then None else Some ext
       | _ \<Rightarrow> None)"

definition read_structured ::
    "ConfigEnv \<Rightarrow> string \<Rightarrow> string option \<Rightarrow> PathBuf \<Rightarrow> Json traced" where
  "read_structured env slt name path =
     (let label = source_label slt name in
      case read_configuration_source env slt name path of
        Inl err \<Rightarrow> (Inl (ReadDocument label path err), [])
      | Inr (raw, trace) \<Rightarrow>
          (if \<not> utf8_ok raw then Inl (DecodeDocument label path)
           else
             (case extension path of
                Some e \<Rightarrow>
                  if e = ''json''
                  then res_map_err (ParseDocument label path) (res_bind (ce_parse_json env raw) (\<lambda>v. Inr (json_value v)))
                  else if e = ''toml''
                  then res_map_err (ParseDocument label path) (res_bind (ce_parse_toml env raw) (ce_toml_to_json env))
                  else if e = ''yaml'' \<or> e = ''yml''
                  then res_map_err (ParseDocument label path) (res_bind (ce_parse_yaml env raw) (\<lambda>v. Inr (json_value v)))
                  else Inl (ParseDocument label path ''structured document path must end in .json, .toml, .yaml, or .yml'')
              | None \<Rightarrow> Inl (ParseDocument label path ''structured document path must end in .json, .toml, .yaml, or .yml'')),
           [trace]))"

definition require_schema :: "Json \<Rightarrow> string \<Rightarrow> PathBuf \<Rightarrow> ConfigurationError + unit" where
  "require_schema value expected path =
     (case Option.bind (Option.bind (as_object value) (\<lambda>ms. map_of ms ''schema'')) as_str of
        Some actual \<Rightarrow> if actual = expected then Inr ()
          else Inl (InvalidCorpus (''document '' @ path @ '' has schema `'' @ actual @ ''`, expected `'' @ expected @ ''`''))
      | None \<Rightarrow> Inl (InvalidCorpus (''document '' @ path @ '' is missing required schema `'' @ expected @ ''`'')))"

definition missing_document_target :: "string \<Rightarrow> ConfigurationError" where
  "missing_document_target path = InvalidOverride (''target `'' @ path @ ''` does not already exist'')"

definition forbidden_document_target :: "string \<Rightarrow> ConfigurationError" where
  "forbidden_document_target path = InvalidOverride (''target `'' @ path @
     ''` is secret-bearing, structural, versioned, identity-bearing, policy-bearing, or delivery-bearing'')"

fun parse_json_like :: "ConfigEnv \<Rightarrow> Json \<Rightarrow> string \<Rightarrow> string + Json" where
  "parse_json_like env (JStr _) raw = Inr (JStr (parse_string_value env raw))"
| "parse_json_like env (JBool _) raw = ok_or (map_option JBool (parse_bool raw)) ''requires `true` or `false`''"
| "parse_json_like env (JInt i) raw =
     (if i64_min \<le> i \<and> i \<le> i64_max
      then ok_or (map_option JInt (parse_i64 raw)) ''requires a signed integer value''
      else ok_or (map_option (\<lambda>n. JInt (int n)) (parse_unsigned u64_max raw)) ''requires an unsigned integer value'')"
| "parse_json_like env (JFloat _) raw =
     ok_or (Option.bind (ce_parse_f64 env raw) (\<lambda>x. case x of FiniteF64 _ \<Rightarrow> Some (JFloat x) | NonFiniteF64 \<Rightarrow> None))
       ''requires a finite floating-point value''"
| "parse_json_like env _ raw = Inl ''is structural; only scalar leaves may be overridden''"

fun last_longest :: "(string \<times> string) list \<Rightarrow> (string \<times> string) option" where
  "last_longest [] = None"
| "last_longest (x # xs) =
     (case last_longest xs of
        None \<Rightarrow> Some x
      | Some y \<Rightarrow> Some (if length (fst x) > length (fst y) then x else y))"

definition split_named_leaf :: "(string \<times> Json) list \<Rightarrow> string \<Rightarrow> (string \<times> string) option" where
  "split_named_leaf entries rest =
     last_longest (filter (\<lambda>(_, leaf). leaf \<noteq> [] \<and> CHR ''.'' \<notin> set leaf)
       (List.map_filter (\<lambda>(name, _).
          map_option (\<lambda>leaf. (name, leaf)) (Option.bind (strip_prefix name rest) (strip_prefix ''.''))) entries))"

definition overridable_leaf :: "string \<Rightarrow> bool" where
  "overridable_leaf leaf \<longleftrightarrow> leaf = ''writable'' \<or> leaf = ''missing'' \<or> leaf = ''description''"

definition apply_catalog_override :: "ConfigEnv \<Rightarrow> Json \<Rightarrow> ConfigOverride \<Rightarrow> ConfigurationError + Json" where
  "apply_catalog_override env catalog o' =
     (let path = ov_path o' in
      res_bind (ok_or (strip_prefix ''catalog.keys.'' path) (forbidden_document_target path)) (\<lambda>rest.
      res_bind (ok_or (Option.bind (Option.bind (as_object catalog) (\<lambda>ms. map_of ms ''keys'')) as_object)
          (missing_document_target path)) (\<lambda>ks.
      res_bind (ok_or (split_named_leaf ks rest) (missing_document_target path)) (\<lambda>(name, leaf).
      res_bind (ok_or (Option.bind (Option.bind (map_of ks name) as_object) (\<lambda>entry. map_of entry leaf))
          (missing_document_target path)) (\<lambda>target.
      if \<not> overridable_leaf leaf then Inl (forbidden_document_target path)
      else
        res_bind (res_map_err (\<lambda>reason. InvalidOverride (''target `'' @ path @ ''` '' @ reason))
          (parse_json_like env target (ov_value o'))) (\<lambda>v.
        Inr (JObj (member_set ''keys''
               (JObj (member_set name
                  (JObj (member_set leaf v (the (Option.bind (map_of ks name) as_object)))) ks))
               (the (as_object catalog))))))))))"

definition apply_policy_override :: "Json \<Rightarrow> ConfigOverride \<Rightarrow> ConfigurationError + unit" where
  "apply_policy_override policy o' =
     (let path = ov_path o' in
      res_bind (ok_or (strip_prefix ''policy.'' path) (missing_document_target path)) (\<lambda>relative.
      let top_level = hd (split_on (CHR ''.'') relative);
          known_section = top_level \<in> {''schema'', ''subjects'', ''unauthenticatedSubject'', ''roles'', ''rules'', ''config''}
      in if known_section \<and> (case as_object policy of Some ms \<Rightarrow> map_of ms top_level \<noteq> None | None \<Rightarrow> False)
         then Inl (forbidden_document_target path) else Inl (missing_document_target path)))"

fun apply_document_overrides ::
    "ConfigEnv \<Rightarrow> CorpusSources \<Rightarrow> Json \<Rightarrow> ConfigOverride list \<Rightarrow> Json \<Rightarrow> OverrideProvenance list \<Rightarrow>
     ConfigurationError + (Json \<times> OverrideProvenance list)" where
  "apply_document_overrides env sources policy [] catalog provenance = Inr (catalog, provenance)"
| "apply_document_overrides env sources policy (o' # rest) catalog provenance =
     (if starts_with ''catalog.'' (ov_path o')
      then res_bind (apply_catalog_override env catalog o') (\<lambda>catalog'.
        apply_document_overrides env sources policy rest catalog'
          (provenance @ [\<lparr>pv_path = ov_path o', pv_masked_source = src_catalog sources\<rparr>]))
      else if starts_with ''policy.'' (ov_path o')
      then res_bind (apply_policy_override policy o') (\<lambda>_.
        apply_document_overrides env sources policy rest catalog
          (provenance @ [\<lparr>pv_path = ov_path o', pv_masked_source = src_policy sources\<rparr>]))
      else Inl (InvalidOverride (''target `'' @ ov_path o' @
        ''` is structural or delivery-bearing; only eligible catalog/policy scalar leaves may be overridden'')))"

definition load_documents_with_trace_collector ::
    "ConfigEnv \<Rightarrow> CorpusSources \<Rightarrow> ConfigOverride list \<Rightarrow> OverrideProvenance list \<Rightarrow> CorpusDocuments traced" where
  "load_documents_with_trace_collector env sources overrides provenance =
     tr_bind (read_structured env ''catalog'' None (src_catalog sources)) (\<lambda>catalog_value.
     tr_bind (require_schema catalog_value ''catalog'' (src_catalog sources), []) (\<lambda>_.
     tr_bind (read_structured env ''policy'' None (src_policy sources)) (\<lambda>policy_value.
     tr_bind (require_schema policy_value ''policy'' (src_policy sources), []) (\<lambda>_.
     (res_bind (apply_document_overrides env sources policy_value overrides catalog_value provenance) (\<lambda>(catalog', provenance').
      res_bind (res_map_err (\<lambda>e. InvalidCorpus (''serializing catalog candidate: '' @ e)) (ce_print_json env catalog')) (\<lambda>catalog_json.
      res_bind (res_map_err (\<lambda>e. InvalidCorpus (''serializing policy candidate: '' @ e)) (ce_print_json env policy_value)) (\<lambda>policy_json.
      res_bind (res_map_err CatalogError (load (ce_load env) catalog_json policy_json)) (\<lambda>(catalog, policy, config, warnings).
      Inr \<lparr>doc_catalog = catalog, doc_policy = policy, doc_policy_config = config, doc_warnings = warnings,
        doc_overrides = provenance'\<rparr>)))), [])))))"

section \<open>Where overrides reach\<close>

fun toml_at :: "Toml \<Rightarrow> string list \<Rightarrow> Toml option" where
  "toml_at v [] = Some v"
| "toml_at v (s # ss) = (case v of TTable t \<Rightarrow> Option.bind (map_of t s) (\<lambda>w. toml_at w ss) | _ \<Rightarrow> None)"

datatype Kind = KNull | KBool | KInt | KFloat | KStr | KDatetime | KArr | KTable

fun toml_kind :: "Toml \<Rightarrow> Kind" where
  "toml_kind (TStr _) = KStr" | "toml_kind (TInt _) = KInt" | "toml_kind (TFloat _) = KFloat"
| "toml_kind (TBool _) = KBool" | "toml_kind (TDatetime _) = KDatetime" | "toml_kind (TArr _) = KArr"
| "toml_kind (TTable _) = KTable"

lemma map_of_member_set:
  "map_of (member_set k v ms) k' = (if k' = k then map_option (\<lambda>_. v) (map_of ms k) else map_of ms k')"
  by (induction ms) (auto simp: member_set_def)

lemma lookup_segments_Inr: "lookup_segments path v ss = Inr t \<longleftrightarrow> toml_at v ss = Some t"
proof (induction ss arbitrary: v)
  case (Cons s ss)
  then show ?case by (cases v) (auto split: option.splits)
qed simp

lemma toml_at_leaf: "toml_kind t \<noteq> KTable \<Longrightarrow> toml_at t q = (if q = [] then Some t else None)"
  by (cases q; cases t) simp_all

lemma assign_at:
  "toml_at v p = Some t \<Longrightarrow> toml_kind t \<noteq> KTable \<Longrightarrow> toml_kind x = toml_kind t \<Longrightarrow>
     (toml_at v q = None \<longleftrightarrow> toml_at (assign_segments v p x) q = None) \<and>
     (\<forall>w. toml_at v q = Some w \<longrightarrow> (\<exists>w'. toml_at (assign_segments v p x) q = Some w' \<and> toml_kind w' = toml_kind w \<and>
        (toml_kind w \<noteq> KTable \<longrightarrow> q \<noteq> p \<longrightarrow> w' = w)))"
proof (induction p arbitrary: v q)
  case Nil
  then show ?case by (auto simp: toml_at_leaf)
next
  case (Cons s p)
  then obtain tb w where v: "v = TTable tb" "map_of tb s = Some w" "toml_at w p = Some t"
    by (cases v) (auto simp: bind_eq_Some_conv)
  show ?case
  proof (cases q)
    case Nil
    then show ?thesis using v by simp
  next
    case (Cons s' q')
    then show ?thesis
      using v Cons.IH [OF v(3) Cons.prems(2,3), of q'] by (auto simp: map_of_member_set)
  qed
qed

definition scoped_change :: "string list set \<Rightarrow> Toml \<Rightarrow> Toml \<Rightarrow> bool" where
  "scoped_change ps v v' \<longleftrightarrow>
     (\<forall>q. map_option toml_kind (toml_at v' q) = map_option toml_kind (toml_at v q)) \<and>
     (\<forall>q w. toml_at v q = Some w \<longrightarrow> toml_kind w \<noteq> KTable \<longrightarrow> q \<notin> ps \<longrightarrow> toml_at v' q = Some w)"

lemma scoped_change_refl: "scoped_change {} v v"
  by (simp add: scoped_change_def)

lemma scoped_change_trans:
  assumes "scoped_change ps v v'" and "scoped_change qs v' v''"
  shows "scoped_change (ps \<union> qs) v v''"
  using assms unfolding scoped_change_def by simp

lemma assign_scoped:
  assumes "toml_at v p = Some t" and "toml_kind t \<noteq> KTable" and "toml_kind x = toml_kind t"
  shows "scoped_change {p} v (assign_segments v p x)"
  unfolding scoped_change_def
proof (intro conjI allI impI)
  fix q
  show "map_option toml_kind (toml_at (assign_segments v p x) q) = map_option toml_kind (toml_at v q)"
    using assign_at [OF assms, of q] by (cases "toml_at v q") auto
next
  fix q w assume "toml_at v q = Some w" "toml_kind w \<noteq> KTable" "q \<notin> {p}"
  then show "toml_at (assign_segments v p x) q = Some w" using assign_at [OF assms, of q] by auto
qed

lemma parse_like_kind: "parse_like env t raw = Inr x \<Longrightarrow> toml_kind t \<noteq> KTable \<and> toml_kind x = toml_kind t"
  by (cases t) auto

abbreviation segments :: "ConfigOverride \<Rightarrow> string list" where
  "segments o' \<equiv> split_on (CHR ''.'') (ov_path o')"

lemma source_override_scoped: "apply_source_override env v o' = Inr v' \<Longrightarrow> scoped_change {segments o'} v v'"
  unfolding apply_source_override_def lookup_mut_def toml_assign_def
proof -
  assume a: "res_bind (lookup_segments (ov_path o') v (segments o')) (\<lambda>target.
       if toml_as_str target = None
       then Inl (InvalidOverride (''source target `'' @ ov_path o' @ ''` is not an existing string path''))
       else Inr (assign_segments v (segments o') (TStr (parse_string_value env (ov_value o'))))) = Inr v'"
  then obtain t where t: "toml_at v (segments o') = Some t" "toml_as_str t \<noteq> None"
    and v': "v' = assign_segments v (segments o') (TStr (parse_string_value env (ov_value o')))"
    by (auto simp: res_bind_Inr_iff lookup_segments_Inr split: if_splits)
  from t(2) have "toml_kind t = KStr" by (cases t) auto
  then show ?thesis unfolding v' by (intro assign_scoped [OF t(1)]) simp_all
qed

lemma scalar_override_scoped:
  assumes "apply_scalar_override env v o' = Inr v'"
  shows "scoped_change {segments o'} v v' \<and> \<not> protected_path (ov_path o')"
proof -
  from assms obtain t x where t: "toml_at v (segments o') = Some t" "parse_like env t (ov_value o') = Inr x"
    and v': "v' = assign_segments v (segments o') x" and p: "\<not> protected_path (ov_path o')"
    by (auto simp: apply_scalar_override_def Let_def lookup_mut_def toml_assign_def res_bind_Inr_iff lookup_segments_Inr
        split: if_splits)
  show ?thesis
    unfolding v' using assign_scoped [OF t(1)] parse_like_kind [OF t(2)] p by blast
qed

lemma apply_overrides_scoped:
  assumes "\<And>v o' v'. f v o' = Inr v' \<Longrightarrow> scoped_change {segments o'} v v' \<and> good o'"
  shows "apply_overrides f path os v prov = Inr (v', prov') \<Longrightarrow>
    scoped_change (segments ` set os) v v' \<and> (\<forall>o' \<in> set os. good o') \<and>
    prov' = prov @ map (\<lambda>o'. \<lparr>pv_path = ov_path o', pv_masked_source = path\<rparr>) os"
proof (induction os arbitrary: v prov)
  case Nil
  then show ?case by (simp add: scoped_change_refl)
next
  case (Cons o' os)
  then obtain w where w: "f v o' = Inr w"
    "apply_overrides f path os w (prov @ [\<lparr>pv_path = ov_path o', pv_masked_source = path\<rparr>]) = Inr (v', prov')"
    by (auto simp: res_bind_Inr_iff)
  from Cons.IH [OF w(2)] assms [OF w(1)] scoped_change_trans [of "{segments o'}" v w "segments ` set os" v']
  show ?case by simp
qed

lemma override_paths_loop_Inr: "override_paths_loop os ps = Inr () \<longleftrightarrow> distinct (map ov_path os) \<and> set ps \<inter> ov_path ` set os = {}"
  by (induction os ps rule: override_paths_loop.induct) auto

lemma build_loaded_bootstrap_Inr:
  assumes "build_loaded_bootstrap env path value overrides = Inr lb"
  obtains v1 where "length overrides \<le> MAX_STARTUP_OVERRIDES" "distinct (map ov_path overrides)"
    and "validate_bootstrap_header value = Inr ()"
    and "apply_overrides (apply_source_override env) path (filter is_source_path overrides) value [] =
      Inr (v1, map (\<lambda>o'. \<lparr>pv_path = ov_path o', pv_masked_source = path\<rparr>) (filter is_source_path overrides))"
    and "extract_sources v1 (case parent_path path of Some p \<Rightarrow> p | None \<Rightarrow> ''.'') = Inr (lb_sources lb)"
    and "apply_overrides (apply_scalar_override env) path (filter (\<lambda>o'. \<not> is_source_path o' \<and> \<not> is_document_path o') overrides) v1
      (map (\<lambda>o'. \<lparr>pv_path = ov_path o', pv_masked_source = path\<rparr>) (filter is_source_path overrides)) = Inr (lb_value lb, lb_overrides lb)"
    and "lb_document_overrides lb = filter is_document_path overrides" and "lb_path lb = path"
proof -
  from assms obtain v1 p1 s v2 p2 where
    vs: "validate_override_set overrides = Inr ()" and hd: "validate_bootstrap_header value = Inr ()" and
    a1: "apply_overrides (apply_source_override env) path (filter is_source_path overrides) value [] = Inr (v1, p1)" and
    ex: "extract_sources v1 (case parent_path path of Some p \<Rightarrow> p | None \<Rightarrow> ''.'') = Inr s" and
    a2: "apply_overrides (apply_scalar_override env) path (filter (\<lambda>o'. \<not> is_source_path o' \<and> \<not> is_document_path o') overrides) v1 p1 = Inr (v2, p2)" and
    lb: "lb = \<lparr>lb_path = path, lb_value = v2, lb_sources = s, lb_overrides = p2, lb_document_overrides = filter is_document_path overrides\<rparr>"
    by (auto simp: build_loaded_bootstrap_def Let_def res_bind_Inr_iff)
  have p1: "p1 = map (\<lambda>o'. \<lparr>pv_path = ov_path o', pv_masked_source = path\<rparr>) (filter is_source_path overrides)"
    using apply_overrides_scoped [of "apply_source_override env" "\<lambda>_. True", OF _ a1] source_override_scoped by auto
  from vs have "length overrides \<le> MAX_STARTUP_OVERRIDES" "distinct (map ov_path overrides)"
    by (auto simp: validate_override_set_def override_paths_loop_Inr split: if_splits)
  with that hd a1 ex a2 lb p1 show thesis by simp
qed

subsection \<open>Documents\<close>

fun json_at :: "Json \<Rightarrow> string list \<Rightarrow> Json option" where
  "json_at v [] = Some v"
| "json_at v (s # ss) = (case v of JObj t \<Rightarrow> Option.bind (map_of t s) (\<lambda>w. json_at w ss) | _ \<Rightarrow> None)"

fun json_kind :: "Json \<Rightarrow> Kind" where
  "json_kind JNull = KNull" | "json_kind (JBool _) = KBool" | "json_kind (JInt _) = KInt"
| "json_kind (JFloat _) = KFloat" | "json_kind (JStr _) = KStr" | "json_kind (JArr _) = KArr"
| "json_kind (JObj _) = KTable"

definition json_scoped :: "string list set \<Rightarrow> Json \<Rightarrow> Json \<Rightarrow> bool" where
  "json_scoped ps v v' \<longleftrightarrow>
     (\<forall>q. map_option json_kind (json_at v' q) = map_option json_kind (json_at v q)) \<and>
     (\<forall>q w. json_at v q = Some w \<longrightarrow> json_kind w \<noteq> KTable \<longrightarrow> q \<notin> ps \<longrightarrow> json_at v' q = Some w)"

lemma json_scoped_refl: "json_scoped ps v v"
  by (simp add: json_scoped_def)

lemma json_scoped_trans: "json_scoped ps v v' \<Longrightarrow> json_scoped qs v' v'' \<Longrightarrow> json_scoped (ps \<union> qs) v v''"
  unfolding json_scoped_def by simp

lemma json_scoped_leaf:
  assumes "json_kind t \<noteq> KTable" and "json_kind x = json_kind t"
  shows "json_scoped {[]} t x"
proof -
  have "json_at s q = (if q = [] then Some s else None)" if "json_kind s \<noteq> KTable" for s q
    using that by (cases q; cases s) simp_all
  then show ?thesis using assms by (simp add: json_scoped_def)
qed

lemma json_scoped_member:
  assumes "map_of ms k = Some w" and "json_scoped ps w w'"
  shows "json_scoped ((#) k ` ps) (JObj ms) (JObj (member_set k w' ms))"
  unfolding json_scoped_def
proof (intro conjI allI impI)
  fix q
  show "map_option json_kind (json_at (JObj (member_set k w' ms)) q) = map_option json_kind (json_at (JObj ms) q)"
    using assms by (cases q) (auto simp: map_of_member_set json_scoped_def)
next
  fix q t assume "json_at (JObj ms) q = Some t" "json_kind t \<noteq> KTable" "q \<notin> (#) k ` ps"
  then show "json_at (JObj (member_set k w' ms)) q = Some t"
    using assms by (cases q) (auto simp: map_of_member_set json_scoped_def image_iff)
qed

lemma parse_json_like_kind: "parse_json_like env t raw = Inr x \<Longrightarrow> json_kind t \<noteq> KTable \<and> json_kind x = json_kind t"
proof (cases t)
  case (JFloat y)
  assume "parse_json_like env t raw = Inr x"
  with JFloat obtain z where "ce_parse_f64 env raw = Some z" "(case z of FiniteF64 _ \<Rightarrow> Some (JFloat z) | NonFiniteF64 \<Rightarrow> None) = Some x"
    by (auto simp: bind_eq_Some_conv)
  then show ?thesis using JFloat by (cases z) auto
qed (auto split: if_splits)

lemma last_longest_in: "last_longest xs = Some x \<Longrightarrow> x \<in> set xs"
  by (induction xs arbitrary: x) (auto split: option.splits if_splits)

lemma split_named_leaf_Some:
  "split_named_leaf entries rest = Some (name, leaf) \<Longrightarrow> rest = name @ ''.'' @ leaf"
  unfolding split_named_leaf_def
  by (drule last_longest_in) (auto simp: set_map_filter bind_eq_Some_conv strip_prefix_Some split: prod.splits)

text \<open>The places of a catalog document an override may change.\<close>

definition override_sites :: "ConfigOverride list \<Rightarrow> string list set" where
  "override_sites os = {[''keys'', name, leaf] | name leaf. overridable_leaf leaf \<and>
     ''catalog.keys.'' @ name @ ''.'' @ leaf \<in> ov_path ` set os}"

lemma as_object_Some: "as_object v = Some ms \<longleftrightarrow> v = JObj ms"
  by (cases v) auto

lemma catalog_override_scoped:
  assumes "apply_catalog_override env catalog o' = Inr catalog'"
  shows "json_scoped (override_sites [o']) catalog catalog'"
proof -
  from assms obtain rest ms ks name leaf em t x where
    s: "strip_prefix ''catalog.keys.'' (ov_path o') = Some rest" "catalog = JObj ms" "map_of ms ''keys'' = Some (JObj ks)"
      "split_named_leaf ks rest = Some (name, leaf)" "map_of ks name = Some (JObj em)" "map_of em leaf = Some t"
      "overridable_leaf leaf" "parse_json_like env t (ov_value o') = Inr x"
      "catalog' = JObj (member_set ''keys'' (JObj (member_set name (JObj (member_set leaf x em)) ks)) ms)"
    by (auto simp: apply_catalog_override_def Let_def res_bind_Inr_iff ok_or_Inr bind_eq_Some_conv as_object_Some
        split: if_splits)
  have "json_scoped {[]} t x" using parse_json_like_kind [OF s(8)] json_scoped_leaf by blast
  from json_scoped_member [OF s(3) json_scoped_member [OF s(5) json_scoped_member [OF s(6) this]]]
  have "json_scoped {[''keys'', name, leaf]} catalog catalog'" by (simp add: s)
  moreover have "[''keys'', name, leaf] \<in> override_sites [o']"
    using s(1,7) split_named_leaf_Some [OF s(4)] by (auto simp: override_sites_def strip_prefix_Some)
  ultimately show ?thesis unfolding json_scoped_def by auto
qed

lemma policy_override_refused: "apply_policy_override policy o' \<noteq> Inr u"
  by (auto simp: apply_policy_override_def Let_def res_bind_Inr_iff split: if_splits)

lemma document_overrides_Inr:
  "apply_document_overrides env sources policy os catalog prov = Inr (catalog', prov') \<Longrightarrow>
     json_scoped (override_sites os) catalog catalog' \<and>
     prov' = prov @ map (\<lambda>o'. \<lparr>pv_path = ov_path o', pv_masked_source = src_catalog sources\<rparr>) os"
proof (induction os arbitrary: catalog prov)
  case Nil
  then show ?case by (simp add: json_scoped_refl)
next
  case (Cons o' os)
  then obtain w where w: "apply_catalog_override env catalog o' = Inr w"
    "apply_document_overrides env sources policy os w (prov @ [\<lparr>pv_path = ov_path o', pv_masked_source = src_catalog sources\<rparr>]) = Inr (catalog', prov')"
    by (auto simp: res_bind_Inr_iff policy_override_refused split: if_splits)
  have "override_sites (o' # os) = override_sites [o'] \<union> override_sites os" by (auto simp: override_sites_def)
  with Cons.IH [OF w(2)] json_scoped_trans [OF catalog_override_scoped [OF w(1)]] show ?case by simp
qed

lemma tr_bind_Inr: "tr_bind m f = (Inr b, ts) \<longleftrightarrow> (\<exists>a t1 t2. m = (Inr a, t1) \<and> f a = (Inr b, t2) \<and> ts = t1 @ t2)"
  by (cases m; cases "fst m") (auto simp: tr_bind_def split: prod.splits)

lemma load_documents_Inr:
  assumes "load_documents_with_trace_collector env sources overrides provenance = (Inr docs, ts)"
  obtains cat pol cat' t1 t2 cj pj where
    "read_structured env ''catalog'' None (src_catalog sources) = (Inr cat, t1)"
    "read_structured env ''policy'' None (src_policy sources) = (Inr pol, t2)"
    "require_schema cat ''catalog'' (src_catalog sources) = Inr ()" "require_schema pol ''policy'' (src_policy sources) = Inr ()"
    "apply_document_overrides env sources pol overrides cat provenance = Inr (cat', doc_overrides docs)"
    "ce_print_json env cat' = Inr cj" "ce_print_json env pol = Inr pj"
    "load (ce_load env) cj pj = Inr (doc_catalog docs, doc_policy docs, doc_policy_config docs, doc_warnings docs)"
  using assms
  unfolding load_documents_with_trace_collector_def tr_bind_Inr
  by (clarsimp simp: res_bind_Inr_iff)

subsection \<open>Repeated members\<close>

fun finite_json :: "Json \<Rightarrow> bool" where
  "finite_json (JArr xs) \<longleftrightarrow> (\<forall>x \<in> set xs. finite_json x)"
| "finite_json (JObj ms) \<longleftrightarrow> (\<forall>m \<in> set ms. finite_json (snd m))"
| "finite_json (JFloat x) \<longleftrightarrow> x \<noteq> NonFiniteF64"
| "finite_json _ \<longleftrightarrow> True"

lemma set_bt_insert: "set (bt_insert k v m) \<subseteq> insert (k, v) (set m)"
  by (induction m) (auto split: if_splits)

lemma fold_insert_values:
  "bt_wf m \<Longrightarrow> bt_wf (fold (\<lambda>(k, v). bt_insert k v) ms m) \<and>
     snd ` set (fold (\<lambda>(k, v). bt_insert k v) ms m) \<subseteq> snd ` set m \<union> snd ` set ms"
proof (induction ms arbitrary: m)
  case (Cons x ms)
  obtain k v where x: "x = (k, v)" by (rule prod.exhaust)
  have "bt_wf (bt_insert k v m)" using Cons.prems by simp
  note ih = Cons.IH [OF this]
  have "snd ` set (bt_insert k v m) \<subseteq> insert v (snd ` set m)"
    using image_mono [OF set_bt_insert [of k v m], of snd] by simp
  with ih show ?case unfolding x by simp blast
qed simp

lemma json_value_strict: "finite_json v \<Longrightarrow> strict_json (json_value v)"
proof (induction v rule: json_value.induct)
  case (2 ms)
  let ?ms = "map (\<lambda>(k, v). (k, json_value v)) ms"
  let ?m = "fold (\<lambda>(k, v). bt_insert k v) ?ms []"
  have m: "bt_wf ?m" "snd ` set ?m \<subseteq> snd ` set ?ms" using fold_insert_values [of "[]" ?ms] by auto
  have "strict_json (snd x)" if "x \<in> set ?ms" for x
    using that 2 by (auto simp: case_prod_beta)
  with m(2) have "\<forall>x \<in> set ?m. strict_json (snd x)" by fastforce
  moreover have "distinct (map fst ?m)" using bt_wf_distinct [OF m(1)] .
  ultimately show ?case by simp
qed auto

section \<open>Properties\<close>

definition demo_state :: SourceFileState where
  "demo_state = \<lparr>sf_len = 4, sf_modified = 5, sf_dev = 1, sf_ino = 2, sf_ctime_seconds = 0, sf_ctime_nanoseconds = 5\<rparr>"

definition demo_cat_doc :: Json where
  "demo_cat_doc = JObj [(''keys'', JObj [(''db.main'', JObj [(''path'', JStr ''p''), (''writable'', JBool False)])]), (''schema'', JStr ''catalog'')]"

definition demo_pol_doc :: Json where
  "demo_pol_doc = JObj [(''schema'', JStr ''policy'')]"

definition demo_config_env :: ConfigEnv where
  "demo_config_env = \<lparr>ce_open = (\<lambda>p. Inr \<lparr>rd_before = Inr demo_state, rd_content = Inr (if p = ''/c.json'' then ''catd'' else ''pold''),
       rd_after = Inr demo_state, rd_path_after = Inr demo_state\<rparr>),
     ce_parse_toml = (\<lambda>_. Inl ''no''), ce_parse_json = (\<lambda>s. Inr (if s = ''catd'' then demo_cat_doc else demo_pol_doc)),
     ce_parse_yaml = (\<lambda>_. Inl ''no''), ce_toml_to_json = (\<lambda>_. Inl ''no''),
     ce_print_json = (\<lambda>v. Inr (if v = demo_pol_doc then ''p'' else ''c'')),
     ce_parse_f64 = (\<lambda>_. None), ce_parse_datetime = (\<lambda>_. None), ce_sha256 = (\<lambda>s. s), ce_load = demo_load_env\<rparr>"

definition demo_boot :: Toml where
  "demo_boot = TTable [(''import'', TTable [(''bundle'', TStr ''b''), (''catalog'', TStr ''c.json''), (''policy'', TStr ''p.json'')]),
     (''log'', TStr ''info''), (''schema'', TStr ''agent''), (''schemaVersion'', TInt 3), (''unlock'', TTable [(''kind'', TStr ''tpm'')])]"

definition demo_overrides :: "ConfigOverride list" where
  "demo_overrides = [\<lparr>ov_path = ''log'', ov_value = ''debug''\<rparr>, \<lparr>ov_path = ''import.bundle'', ov_value = ''/b2''\<rparr>]"

text \<open>
  C32: a source file is handed on only when one read saw it whole and still: its bytes are
  within the limit of its slot, and the metadata of the open file before and after the read
  and of the path afterwards agree with each other and with the number of bytes read.
\<close>

theorem source_read_stable:
  assumes "read_configuration_source env slt name path = Inr (bytes, trace)"
  shows "length bytes \<le> source_byte_limit slt \<and>
    (\<exists>rd st. ce_open env path = Inr rd \<and> rd_before rd = Inr st \<and> rd_after rd = Inr st \<and> rd_path_after rd = Inr st \<and>
       rd_content rd = Inr bytes \<and> length bytes = sf_len st \<and> tr_byte_size trace = sf_len st \<and> tr_path trace = path)"
proof -
  from assms obtain rd st content where
    f: "ce_open env path = Inr rd" "rd_before rd = Inr st" "rd_after rd = Inr st" "rd_path_after rd = Inr st"
      "rd_content rd = Inr content" and b: "bytes = take (source_byte_limit slt + 1) content"
    and l: "length bytes \<le> source_byte_limit slt" "length bytes = sf_len st"
    and t: "trace = configuration_source_trace_from_bytes (ce_sha256 env) slt name path bytes (sf_modified st)"
    by (auto simp: read_configuration_source_def Let_def res_bind_Inr_iff ensure_source_within_limit_def split: if_splits)
  from b l(1) have "bytes = content" by (cases "length content \<le> source_byte_limit slt") auto
  with f l t show ?thesis by (auto simp: configuration_source_trace_from_bytes_def)
qed

theorem source_read_stable_witness:
  "length ''catd'' \<le> source_byte_limit ''catalog''"
proof -
  have "read_configuration_source demo_config_env ''catalog'' None ''/c.json'' =
    Inr (''catd'', configuration_source_trace_from_bytes (ce_sha256 demo_config_env) ''catalog'' None ''/c.json'' ''catd'' 5)"
    by (simp add: read_configuration_source_def demo_config_env_def demo_state_def ensure_source_within_limit_def
        source_byte_limit_def MAX_CATALOG_POLICY_SOURCE_BYTES_def Let_def)
  from source_read_stable [OF this] show ?thesis by blast
qed

text \<open>
  C31: startup overrides change a bootstrap only where they say. Whatever overrides are
  accepted, every place of the table keeps its kind, every scalar or array that no override
  names exactly keeps its value, no accepted ordinary override names a protected setting
  (schema, imports, unlock, broker identity, invocation, TLS key, JWT role), and the recorded
  provenance lists each override of the bootstrap once.
\<close>

theorem bootstrap_overrides_scoped:
  assumes "build_loaded_bootstrap env path value overrides = Inr lb"
  shows "(\<forall>q. map_option toml_kind (toml_at (lb_value lb) q) = map_option toml_kind (toml_at value q))
    \<and> (\<forall>q w. toml_at value q = Some w \<longrightarrow> toml_kind w \<noteq> KTable \<longrightarrow> q \<notin> (\<lambda>o'. split_on (CHR ''.'') (ov_path o')) ` set overrides \<longrightarrow>
         toml_at (lb_value lb) q = Some w)
    \<and> (\<forall>o' \<in> set overrides. is_source_path o' \<or> is_document_path o' \<or> \<not> protected_path (ov_path o'))
    \<and> distinct (map pv_path (lb_overrides lb))
    \<and> set (map pv_path (lb_overrides lb)) = {ov_path o' | o'. o' \<in> set overrides \<and> (is_source_path o' \<or> \<not> is_document_path o')}"
proof -
  obtain v1 where d: "distinct (map ov_path overrides)"
    and a1: "apply_overrides (apply_source_override env) path (filter is_source_path overrides) value [] =
      Inr (v1, map (\<lambda>o'. \<lparr>pv_path = ov_path o', pv_masked_source = path\<rparr>) (filter is_source_path overrides))"
    and a2: "apply_overrides (apply_scalar_override env) path (filter (\<lambda>o'. \<not> is_source_path o' \<and> \<not> is_document_path o') overrides) v1
      (map (\<lambda>o'. \<lparr>pv_path = ov_path o', pv_masked_source = path\<rparr>) (filter is_source_path overrides)) = Inr (lb_value lb, lb_overrides lb)"
    using build_loaded_bootstrap_Inr [OF assms] by blast
  let ?src = "filter is_source_path overrides" and ?ord = "filter (\<lambda>o'. \<not> is_source_path o' \<and> \<not> is_document_path o') overrides"
  have s1: "scoped_change (segments ` set ?src) value v1"
    using apply_overrides_scoped [of "apply_source_override env" "\<lambda>_. True", OF _ a1] source_override_scoped by blast
  have s2: "scoped_change (segments ` set ?ord) v1 (lb_value lb)" "\<forall>o' \<in> set ?ord. \<not> protected_path (ov_path o')"
    and pv: "lb_overrides lb = map (\<lambda>o'. \<lparr>pv_path = ov_path o', pv_masked_source = path\<rparr>) (?src @ ?ord)"
    using apply_overrides_scoped [of "apply_scalar_override env" "\<lambda>o'. \<not> protected_path (ov_path o')", OF _ a2] scalar_override_scoped
    by auto
  have sc: "scoped_change (segments ` set ?src \<union> segments ` set ?ord) value (lb_value lb)"
    by (rule scoped_change_trans [OF s1 s2(1)])
  have pp: "map pv_path (lb_overrides lb) = map ov_path ?src @ map ov_path ?ord" by (simp add: pv comp_def)
  have inj: "inj_on ov_path (set overrides)" using d by (simp add: distinct_map)
  have "distinct (map ov_path ?src @ map ov_path ?ord)"
    using d inj by (auto simp: distinct_map_filter dest: inj_onD)
  moreover have "set (map ov_path ?src @ map ov_path ?ord) = {ov_path o' | o'. o' \<in> set overrides \<and> (is_source_path o' \<or> \<not> is_document_path o')}"
    by auto
  moreover have "toml_at (lb_value lb) q = Some w" if "toml_at value q = Some w" "toml_kind w \<noteq> KTable" "q \<notin> segments ` set overrides" for q w
  proof -
    have "q \<notin> segments ` set ?src \<union> segments ` set ?ord" using that(3) by auto
    with sc that(1,2) show ?thesis unfolding scoped_change_def by blast
  qed
  moreover have "map_option toml_kind (toml_at (lb_value lb) q) = map_option toml_kind (toml_at value q)" for q
    using sc unfolding scoped_change_def by blast
  moreover have "\<forall>o' \<in> set overrides. is_source_path o' \<or> is_document_path o' \<or> \<not> protected_path (ov_path o')"
    using s2(2) by auto
  ultimately show ?thesis unfolding pp by blast
qed

lemma demo_build: "case build_loaded_bootstrap demo_config_env ''/etc/boot.toml'' demo_boot demo_overrides of
    Inl _ \<Rightarrow> False | Inr lb \<Rightarrow> toml_at (lb_value lb) [''log''] = Some (TStr ''debug'') \<and> src_bundle (lb_sources lb) = ''/b2''
      \<and> src_catalog (lb_sources lb) = ''/etc/c.json''"
  by code_simp

theorem bootstrap_overrides_scoped_witness:
  "\<exists>lb. build_loaded_bootstrap demo_config_env ''/etc/boot.toml'' demo_boot demo_overrides = Inr lb \<and>
     toml_at (lb_value lb) [''unlock'', ''kind''] = Some (TStr ''tpm'')"
proof -
  obtain lb where lb: "build_loaded_bootstrap demo_config_env ''/etc/boot.toml'' demo_boot demo_overrides = Inr lb"
    using demo_build by (auto split: sum.splits)
  have d: "toml_at demo_boot [''unlock'', ''kind''] = Some (TStr ''tpm'')"
    "[''unlock'', ''kind''] \<notin> (\<lambda>o'. split_on (CHR ''.'') (ov_path o')) ` set demo_overrides"
    by code_simp+
  have "toml_at (lb_value lb) q = Some w" if "toml_at demo_boot q = Some w" "toml_kind w \<noteq> KTable"
    "q \<notin> (\<lambda>o'. split_on (CHR ''.'') (ov_path o')) ` set demo_overrides" for q w
    using bootstrap_overrides_scoped [OF lb] that by blast
  from this [OF d(1) _ d(2)] have "toml_at (lb_value lb) [''unlock'', ''kind''] = Some (TStr ''tpm'')" by simp
  with lb show ?thesis by blast
qed

text \<open>
  C30: overrides of documents reach only the writable flag, the missing-material mode and the
  description of existing catalog keys. Whenever the corpus loads, the policy given to the
  loader is the document as read, and the catalog given to it has, place by place, the kinds
  of the document as read and its values except at those leaves that an override names.
\<close>

theorem document_overrides_scoped:
  assumes "load_documents_with_trace_collector env sources overrides provenance = (Inr docs, ts)"
  shows "\<exists>cat pol cat' cj pj. fst (read_structured env ''catalog'' None (src_catalog sources)) = Inr cat
    \<and> fst (read_structured env ''policy'' None (src_policy sources)) = Inr pol
    \<and> ce_print_json env cat' = Inr cj \<and> ce_print_json env pol = Inr pj
    \<and> load (ce_load env) cj pj = Inr (doc_catalog docs, doc_policy docs, doc_policy_config docs, doc_warnings docs)
    \<and> (\<forall>q. map_option json_kind (json_at cat' q) = map_option json_kind (json_at cat q))
    \<and> (\<forall>q w. json_at cat q = Some w \<longrightarrow> json_kind w \<noteq> KTable \<longrightarrow>
         (\<forall>name leaf. q = [''keys'', name, leaf] \<longrightarrow> overridable_leaf leaf \<longrightarrow>
            ''catalog.keys.'' @ name @ ''.'' @ leaf \<notin> ov_path ` set overrides) \<longrightarrow>
         json_at cat' q = Some w)
    \<and> map pv_path (doc_overrides docs) = map pv_path provenance @ map ov_path overrides"
proof -
  obtain cat pol cat' t1 t2 cj pj where
    r: "read_structured env ''catalog'' None (src_catalog sources) = (Inr cat, t1)"
      "read_structured env ''policy'' None (src_policy sources) = (Inr pol, t2)"
      "apply_document_overrides env sources pol overrides cat provenance = Inr (cat', doc_overrides docs)"
      "ce_print_json env cat' = Inr cj" "ce_print_json env pol = Inr pj"
      "load (ce_load env) cj pj = Inr (doc_catalog docs, doc_policy docs, doc_policy_config docs, doc_warnings docs)"
    using load_documents_Inr [OF assms] by metis
  have sc: "json_scoped (override_sites overrides) cat cat'"
    and pv: "doc_overrides docs = provenance @ map (\<lambda>o'. \<lparr>pv_path = ov_path o', pv_masked_source = src_catalog sources\<rparr>) overrides"
    using document_overrides_Inr [OF r(3)] by blast+
  have "json_at cat' q = Some w" if "json_at cat q = Some w" "json_kind w \<noteq> KTable"
    "\<forall>name leaf. q = [''keys'', name, leaf] \<longrightarrow> overridable_leaf leaf \<longrightarrow> ''catalog.keys.'' @ name @ ''.'' @ leaf \<notin> ov_path ` set overrides" for q w
    using sc that unfolding json_scoped_def override_sites_def by blast
  moreover have "\<forall>q. map_option json_kind (json_at cat' q) = map_option json_kind (json_at cat q)"
    using sc by (simp add: json_scoped_def)
  moreover have "map pv_path (doc_overrides docs) = map pv_path provenance @ map ov_path overrides"
    by (simp add: pv comp_def)
  ultimately show ?thesis
    using r by (intro exI [of _ cat] exI [of _ pol] exI [of _ cat'] exI [of _ cj] exI [of _ pj]) simp
qed

definition demo_sources :: CorpusSources where
  "demo_sources = \<lparr>src_catalog = ''/c.json'', src_policy = ''/p.json'', src_bundle = ''/b''\<rparr>"

definition demo_doc_overrides :: "ConfigOverride list" where
  "demo_doc_overrides = [\<lparr>ov_path = ''catalog.keys.db.main.writable'', ov_value = ''true''\<rparr>]"

lemma demo_read:
  "read_configuration_source demo_config_env ''catalog'' None ''/c.json'' =
     Inr (''catd'', configuration_source_trace_from_bytes (ce_sha256 demo_config_env) ''catalog'' None ''/c.json'' ''catd'' 5)"
  "read_configuration_source demo_config_env ''policy'' None ''/p.json'' =
     Inr (''pold'', configuration_source_trace_from_bytes (ce_sha256 demo_config_env) ''policy'' None ''/p.json'' ''pold'' 5)"
  by (simp_all add: read_configuration_source_def demo_config_env_def demo_state_def ensure_source_within_limit_def
        source_byte_limit_def MAX_CATALOG_POLICY_SOURCE_BYTES_def Let_def)

lemma demo_docs:
  "fst (load_documents_with_trace_collector demo_config_env demo_sources demo_doc_overrides []) =
     Inr \<lparr>doc_catalog = demo_loaded_catalog, doc_policy = demo_policy, doc_policy_config = raw_config demo_raw_policy,
       doc_warnings = [], doc_overrides = [\<lparr>pv_path = ''catalog.keys.db.main.writable'', pv_masked_source = ''/c.json''\<rparr>]\<rparr>"
proof -
  have u: "utf8_ok ''catd''" "utf8_ok ''pold''" "extension ''/c.json'' = Some ''json''" "extension ''/p.json'' = Some ''json''"
    "json_value demo_cat_doc = demo_cat_doc" "json_value demo_pol_doc = demo_pol_doc"
    "require_schema demo_cat_doc ''catalog'' ''/c.json'' = Inr ()" "require_schema demo_pol_doc ''policy'' ''/p.json'' = Inr ()"
    by code_simp+
  have a: "case apply_document_overrides demo_config_env demo_sources demo_pol_doc demo_doc_overrides demo_cat_doc [] of
     Inl _ \<Rightarrow> False | Inr (c, pv) \<Rightarrow> c \<noteq> demo_pol_doc \<and> pv = [\<lparr>pv_path = ''catalog.keys.db.main.writable'', pv_masked_source = ''/c.json''\<rparr>]"
    by code_simp
  have p: "ce_parse_json demo_config_env ''catd'' = Inr demo_cat_doc" "ce_parse_json demo_config_env ''pold'' = Inr demo_pol_doc"
    "v \<noteq> demo_pol_doc \<Longrightarrow> ce_print_json demo_config_env v = Inr ''c''" "ce_print_json demo_config_env demo_pol_doc = Inr ''p''"
    "ce_load demo_config_env = demo_load_env" for v
    by (simp_all add: demo_config_env_def)
  from a obtain c where c: "apply_document_overrides demo_config_env demo_sources demo_pol_doc demo_doc_overrides demo_cat_doc [] =
      Inr (c, [\<lparr>pv_path = ''catalog.keys.db.main.writable'', pv_masked_source = ''/c.json''\<rparr>])" and "c \<noteq> demo_pol_doc"
    by (auto split: sum.splits prod.splits)
  have s: "src_catalog demo_sources = ''/c.json''" "src_policy demo_sources = ''/p.json''" by (simp_all add: demo_sources_def)
  show ?thesis
    by (simp add: load_documents_with_trace_collector_def read_structured_def demo_read u p p(3) [OF \<open>c \<noteq> demo_pol_doc\<close>] c s
        tr_bind_def demo_load res_map_err_def)
qed

theorem document_overrides_scoped_witness:
  "\<exists>docs ts. load_documents_with_trace_collector demo_config_env demo_sources demo_doc_overrides [] = (Inr docs, ts) \<and>
     map pv_path (doc_overrides docs) = [''catalog.keys.db.main.writable'']"
proof -
  obtain docs ts where l: "load_documents_with_trace_collector demo_config_env demo_sources demo_doc_overrides [] = (Inr docs, ts)"
    using demo_docs by (metis prod.collapse)
  from document_overrides_scoped [OF l] have "map pv_path (doc_overrides docs) = map ov_path demo_doc_overrides" by auto
  with l show ?thesis by (auto simp: demo_doc_overrides_def)
qed

text \<open>
  Documents read from files never show the loader a repeated member. The file is first
  collected into a value, in which a later member silently replaces an earlier one of the same
  name, so the loader's strict reader, which refuses repeated members, accepts whatever text
  it is given on this path.
\<close>

theorem repeated_members_never_refused:
  assumes "ce_parse_json env raw = Inr doc" and "finite_json doc" and "extension path = Some ''json''"
    and "read_configuration_source env slt name path = Inr (raw, trace)" and "utf8_ok raw"
  shows "fst (read_structured env slt name path) = Inr (json_value doc) \<and> unique_value (json_value doc) = Inr (json_value doc)"
  using assms json_value_strict [OF assms(2)] by (simp add: read_structured_def unique_value_iff)

theorem repeated_members_never_refused_witness:
  "fst (read_structured demo_config_env ''catalog'' None ''/c.json'') = Inr (json_value demo_cat_doc)
   \<and> json_value (JObj [(''web'', JInt 1), (''web'', JInt 2)]) = JObj [(''web'', JInt 2)]"
proof
  have "ce_parse_json demo_config_env ''catd'' = Inr demo_cat_doc" by (simp add: demo_config_env_def)
  moreover have "finite_json demo_cat_doc" "extension ''/c.json'' = Some ''json''" "utf8_ok ''catd''" by code_simp+
  ultimately show "fst (read_structured demo_config_env ''catalog'' None ''/c.json'') = Inr (json_value demo_cat_doc)"
    using repeated_members_never_refused [OF _ _ _ demo_read(1)] by blast
  show "json_value (JObj [(''web'', JInt 1), (''web'', JInt 2)]) = JObj [(''web'', JInt 2)]" by code_simp
qed

end
