(* ===== verification/Run_Quota.thy ===== *)
theory Run_Quota
  imports Basil_Prelude
begin

text \<open>
  The per-run operation quota of federated invocations (\<open>RunQuotaTable\<close> of
  \<open>core/ci_federation.rs\<close>): a bounded table of counters, one per rule and workflow run
  attempt, with retention deadlines, generation resets and a per-rule allowance.

  The lemmas show that the two maps of the table stay in step, that a run attempt which keeps
  presenting tokens is never admitted more often than its rule allows, and that the outcome of
  a charge depends on the buckets of its own rule only.
\<close>

section \<open>State\<close>

record RunQuotaKey =
  rq_rule_id :: string
  rq_run_id :: nat
  rq_run_attempt :: nat

datatype RunQuotaDenied = Exhausted | QuotaUnavailable | Untracked

record RunQuotaReceipt =
  charged_count :: nat
  remaining :: nat

record RunQuotaBucket =
  bk_count :: nat
  bk_expires_at_unix :: int

record RunQuotaTable =
  max_tracked_buckets_per_rule :: nat
  rq_generation :: "nat option"
  counters :: "(RunQuotaKey, RunQuotaBucket) hashmap"
  rule_buckets :: "(string, nat) hashmap"

definition DEFAULT_MAX_TRACKED_RUN_BUCKETS_PER_RULE :: nat where
  "DEFAULT_MAX_TRACKED_RUN_BUCKETS_PER_RULE = 4096"

definition RunQuotaTable_new :: "nat \<Rightarrow> RunQuotaTable" where
  "RunQuotaTable_new m =
     \<lparr>max_tracked_buckets_per_rule = m, rq_generation = None, counters = [], rule_buckets = []\<rparr>"

section \<open>Operations\<close>

text \<open>One turn of the loop over the expired keys.\<close>

definition reclaim_key :: "RunQuotaKey \<Rightarrow> RunQuotaTable \<Rightarrow> RunQuotaTable" where
  "reclaim_key k t =
     (let t = t\<lparr>counters := hm_remove k (counters t)\<rparr> in
      case hm_get (rule_buckets t) (rq_rule_id k) of
        None \<Rightarrow> t
      | Some n \<Rightarrow>
          let m = n - 1; rb = hm_insert (rq_rule_id k) m (rule_buckets t) in
          t\<lparr>rule_buckets := if m = 0 then hm_remove (rq_rule_id k) rb else rb\<rparr>)"

definition reclaim_expired :: "int \<Rightarrow> RunQuotaTable \<Rightarrow> RunQuotaTable" where
  "reclaim_expired now_unix t =
     fold reclaim_key
       (map fst (filter (\<lambda>(_, b). bk_expires_at_unix b \<le> now_unix) (counters t))) t"

text \<open>The generation scope: a charge under a newer generation clears the counters.\<close>

definition enter_generation :: "nat \<Rightarrow> RunQuotaTable \<Rightarrow> RunQuotaTable" where
  "enter_generation g t =
     (case rq_generation t of
        Some tracked \<Rightarrow>
          if g > tracked then t\<lparr>counters := [], rule_buckets := [], rq_generation := Some g\<rparr> else t
      | None \<Rightarrow> t\<lparr>rq_generation := Some g\<rparr>)"

definition tracked_buckets :: "RunQuotaTable \<Rightarrow> string \<Rightarrow> nat" where
  "tracked_buckets t r = (case hm_get (rule_buckets t) r of None \<Rightarrow> 0 | Some n \<Rightarrow> n)"

text \<open>\<open>now_unix.saturating_add(i64::try_from(retention_secs).unwrap_or(i64::MAX))\<close>.\<close>

definition retention_deadline :: "int \<Rightarrow> nat \<Rightarrow> int" where
  "retention_deadline now_unix retention_secs =
     sat_add_i64 now_unix (if int retention_secs \<le> i64_max then int retention_secs else i64_max)"

text \<open>The end of a charge that opens a bucket.\<close>

definition open_bucket :: "RunQuotaKey \<Rightarrow> int \<Rightarrow> RunQuotaTable \<Rightarrow> RunQuotaTable" where
  "open_bucket k deadline t =
     t\<lparr>counters := hm_insert k \<lparr>bk_count = 1, bk_expires_at_unix = deadline\<rparr> (counters t),
       rule_buckets := hm_insert (rq_rule_id k) (tracked_buckets t (rq_rule_id k) + 1) (rule_buckets t)\<rparr>"

definition charge_with_receipt ::
  "nat \<Rightarrow> RunQuotaKey \<Rightarrow> nat option \<Rightarrow> nat \<Rightarrow> int \<Rightarrow> RunQuotaTable
    \<Rightarrow> (RunQuotaDenied + RunQuotaReceipt) \<times> RunQuotaTable" where
  "charge_with_receipt g k lim retention_secs now_unix t =
     (case lim of
        None \<Rightarrow> (Inl QuotaUnavailable, t)
      | Some limit \<Rightarrow>
          if limit = 0 then (Inl Exhausted, t)
          else
            let t = enter_generation g t;
                deadline = retention_deadline now_unix retention_secs
            in case hm_get (counters t) k of
                 Some b \<Rightarrow>
                   let b = b\<lparr>bk_expires_at_unix := max (bk_expires_at_unix b) deadline\<rparr> in
                   if bk_count b \<ge> limit
                   then (Inl Exhausted, t\<lparr>counters := hm_insert k b (counters t)\<rparr>)
                   else
                     let b = b\<lparr>bk_count := sat_add_u64 (bk_count b) 1\<rparr> in
                     (Inr \<lparr>charged_count = bk_count b, remaining = limit - bk_count b\<rparr>,
                      t\<lparr>counters := hm_insert k b (counters t)\<rparr>)
               | None \<Rightarrow>
                   let full = tracked_buckets t (rq_rule_id k) \<ge> max_tracked_buckets_per_rule t;
                       t = (if full then reclaim_expired now_unix t else t)
                   in if full \<and> tracked_buckets t (rq_rule_id k) \<ge> max_tracked_buckets_per_rule t
                      then (Inl Untracked, t)
                      else (Inr \<lparr>charged_count = 1, remaining = limit - 1\<rparr>,
                            open_bucket k deadline t))"

definition charge ::
  "nat \<Rightarrow> RunQuotaKey \<Rightarrow> nat option \<Rightarrow> nat \<Rightarrow> int \<Rightarrow> RunQuotaTable
    \<Rightarrow> (RunQuotaDenied + unit) \<times> RunQuotaTable" where
  "charge g k lim retention_secs now_unix t =
     (case charge_with_receipt g k lim retention_secs now_unix t of
        (r, t') \<Rightarrow> (res_bind r (\<lambda>_. Inr ()), t'))"

section \<open>Invariant\<close>

text \<open>The buckets of a rule, and what keeps \<open>rule_buckets\<close> in lockstep with \<open>counters\<close>.\<close>

definition buckets_of :: "(RunQuotaKey, RunQuotaBucket) hashmap \<Rightarrow> string \<Rightarrow> nat" where
  "buckets_of m r = length (filter (\<lambda>(k, _). rq_rule_id k = r) m)"

definition lockstep :: "RunQuotaTable \<Rightarrow> bool" where
  "lockstep t \<longleftrightarrow>
     hm_wf (counters t) \<and> hm_wf (rule_buckets t) \<and>
     (\<forall>r. hm_get (rule_buckets t) r =
        (if buckets_of (counters t) r = 0 then None else Some (buckets_of (counters t) r)))"

definition quota_ok :: "RunQuotaTable \<Rightarrow> bool" where
  "quota_ok t \<longleftrightarrow>
     lockstep t \<and> (\<forall>r. buckets_of (counters t) r \<le> max_tracked_buckets_per_rule t)"

lemma buckets_of_Nil [simp]: "buckets_of [] r = 0"
  by (simp add: buckets_of_def)

lemma buckets_of_insert_old:
  "hm_get m k = Some b \<Longrightarrow> buckets_of (hm_insert k b' m) r = buckets_of m r"
  by (induction k b' m rule: hm_insert.induct) (auto simp: buckets_of_def hm_get_def split: if_splits)

lemma buckets_of_insert_new:
  "hm_get m k = None \<Longrightarrow>
     buckets_of (hm_insert k b m) r = buckets_of m r + (if rq_rule_id k = r then 1 else 0)"
  by (induction k b m rule: hm_insert.induct) (auto simp: buckets_of_def hm_get_def split: if_splits)

lemma buckets_of_remove_le: "buckets_of (hm_remove k m) r \<le> buckets_of m r"
  by (induction m) (auto simp: buckets_of_def hm_remove_def)

lemma hm_remove_absent: "hm_get m k = None \<Longrightarrow> hm_remove k m = m"
  by (induction m) (auto simp: hm_remove_def hm_get_def split: if_splits)

lemma buckets_of_remove:
  "hm_wf m \<Longrightarrow> hm_get m k = Some b \<Longrightarrow>
     buckets_of (hm_remove k m) r = buckets_of m r - (if rq_rule_id k = r then 1 else 0)"
proof (induction m)
  case (Cons p m)
  obtain k' b' where p: "p = (k', b')" by force
  show ?case
  proof (cases "k' = k")
    case True
    then have "hm_get m k = None"
      using Cons.prems(1) by (auto simp: p hm_wf_def hm_get_def map_of_eq_None_iff)
    then have "hm_remove k m = m" by (rule hm_remove_absent)
    then show ?thesis using True by (simp add: p buckets_of_def hm_remove_def)
  next
    case False
    have "0 < buckets_of m r" if "rq_rule_id k = r"
    proof -
      have "(k, b) \<in> set m" using Cons.prems(2) False by (auto simp: p hm_get_def dest: map_of_SomeD)
      with that show ?thesis by (auto simp: buckets_of_def filter_empty_conv)
    qed
    with Cons False show ?thesis
      by (auto simp: p hm_wf_def hm_get_def buckets_of_def hm_remove_def)
  qed
qed (simp add: hm_get_def)

lemma buckets_of_pos: "hm_get m k = Some b \<Longrightarrow> 0 < buckets_of m (rq_rule_id k)"
  by (auto simp: buckets_of_def hm_get_def filter_empty_conv dest!: map_of_SomeD)

lemma tracked_buckets_eq: "lockstep t \<Longrightarrow> tracked_buckets t r = buckets_of (counters t) r"
  by (simp add: lockstep_def tracked_buckets_def)

lemma lockstep_reclaim_key:
  assumes "lockstep t" and "hm_get (counters t) k = Some b"
  shows "lockstep (reclaim_key k t)" and "counters (reclaim_key k t) = hm_remove k (counters t)"
    and "max_tracked_buckets_per_rule (reclaim_key k t) = max_tracked_buckets_per_rule t"
    and "rq_generation (reclaim_key k t) = rq_generation t"
proof -
  let ?r = "rq_rule_id k"
  have wf: "hm_wf (counters t)" "hm_wf (rule_buckets t)" using assms by (simp_all add: lockstep_def)
  have pos: "0 < buckets_of (counters t) ?r" using assms(2) by (rule buckets_of_pos)
  have g: "hm_get (rule_buckets t) ?r = Some (buckets_of (counters t) ?r)"
    using assms(1) pos by (simp add: lockstep_def)
  show "counters (reclaim_key k t) = hm_remove k (counters t)"
    and "max_tracked_buckets_per_rule (reclaim_key k t) = max_tracked_buckets_per_rule t"
    and "rq_generation (reclaim_key k t) = rq_generation t"
    using g by (simp_all add: reclaim_key_def Let_def)
  have "hm_get (rule_buckets (reclaim_key k t)) r =
      (if buckets_of (hm_remove k (counters t)) r = 0 then None
       else Some (buckets_of (hm_remove k (counters t)) r))" for r
    using assms(1) g wf
    by (simp add: reclaim_key_def Let_def buckets_of_remove [OF wf(1) assms(2)] hm.get_del
        hm_get_insert lockstep_def)
  moreover have "hm_wf (rule_buckets (reclaim_key k t))"
    using g wf by (simp add: reclaim_key_def Let_def)
  ultimately show "lockstep (reclaim_key k t)"
    using g wf by (simp add: lockstep_def reclaim_key_def Let_def)
qed

lemma reclaim_fold:
  assumes "lockstep t" and "distinct ks" and "\<forall>k \<in> set ks. hm_get (counters t) k \<noteq> None"
  shows "lockstep (fold reclaim_key ks t)
    \<and> (\<forall>k. hm_get (counters (fold reclaim_key ks t)) k = (if k \<in> set ks then None else hm_get (counters t) k))
    \<and> (\<forall>r. buckets_of (counters (fold reclaim_key ks t)) r \<le> buckets_of (counters t) r)
    \<and> max_tracked_buckets_per_rule (fold reclaim_key ks t) = max_tracked_buckets_per_rule t
    \<and> rq_generation (fold reclaim_key ks t) = rq_generation t"
  using assms
proof (induction ks arbitrary: t)
  case (Cons k ks)
  obtain b where b: "hm_get (counters t) k = Some b" using Cons.prems(3) by auto
  note step = lockstep_reclaim_key [OF Cons.prems(1) b]
  have wf: "hm_wf (counters t)" using Cons.prems(1) by (simp add: lockstep_def)
  have "\<forall>j \<in> set ks. hm_get (counters (reclaim_key k t)) j \<noteq> None"
    using Cons.prems(2,3) by (auto simp: step hm.get_del [OF wf])
  from Cons.IH [OF step(1) _ this] Cons.prems(2)
  show ?case
    by (auto simp: step hm.get_del [OF wf] intro: order_trans [OF _ buckets_of_remove_le])
qed simp

lemma reclaim_key_max [simp]:
  "max_tracked_buckets_per_rule (reclaim_key k t) = max_tracked_buckets_per_rule t"
  by (simp add: reclaim_key_def Let_def split: option.splits)

lemma reclaim_expired_max:
  "max_tracked_buckets_per_rule (reclaim_expired now t) = max_tracked_buckets_per_rule t"
proof -
  have "max_tracked_buckets_per_rule (fold reclaim_key ks t) = max_tracked_buckets_per_rule t" for ks
    by (induction ks arbitrary: t) auto
  then show ?thesis by (simp add: reclaim_expired_def)
qed

lemma reclaim_expired_generation: "rq_generation (reclaim_expired now t) = rq_generation t"
proof -
  have "rq_generation (reclaim_key k t) = rq_generation t" for k t
    by (simp add: reclaim_key_def Let_def split: option.splits)
  then have "rq_generation (fold reclaim_key ks t) = rq_generation t" for ks
    by (induction ks arbitrary: t) auto
  then show ?thesis by (simp add: reclaim_expired_def)
qed

lemma reclaim_expired_props:
  assumes "lockstep t"
  shows "lockstep (reclaim_expired now t)"
    and "hm_get (counters (reclaim_expired now t)) k =
      (case hm_get (counters t) k of
         None \<Rightarrow> None | Some b \<Rightarrow> if bk_expires_at_unix b \<le> now then None else Some b)"
    and "buckets_of (counters (reclaim_expired now t)) r \<le> buckets_of (counters t) r"
    and "max_tracked_buckets_per_rule (reclaim_expired now t) = max_tracked_buckets_per_rule t"
    and "rq_generation (reclaim_expired now t) = rq_generation t"
proof -
  let ?ks = "map fst (filter (\<lambda>(_, b). bk_expires_at_unix b \<le> now) (counters t))"
  have wf: "distinct (map fst (counters t))" using assms by (simp add: lockstep_def hm_wf_def)
  have mem: "k \<in> set ?ks \<longleftrightarrow> (\<exists>b. hm_get (counters t) k = Some b \<and> bk_expires_at_unix b \<le> now)" for k
    using wf by (force simp: hm_get_def)
  have d: "distinct ?ks" using wf by (rule distinct_map_filter)
  have "\<forall>k \<in> set ?ks. hm_get (counters t) k \<noteq> None" using mem by blast
  note f = reclaim_fold [OF assms d this]
  show "lockstep (reclaim_expired now t)"
    and "buckets_of (counters (reclaim_expired now t)) r \<le> buckets_of (counters t) r"
    and "max_tracked_buckets_per_rule (reclaim_expired now t) = max_tracked_buckets_per_rule t"
    and "rq_generation (reclaim_expired now t) = rq_generation t"
    using f by (simp_all add: reclaim_expired_def)
  show "hm_get (counters (reclaim_expired now t)) k =
      (case hm_get (counters t) k of
         None \<Rightarrow> None | Some b \<Rightarrow> if bk_expires_at_unix b \<le> now then None else Some b)"
    using f mem [of k] by (auto simp: reclaim_expired_def split: option.splits)
qed


lemma quota_ok_reclaim: "quota_ok t \<Longrightarrow> quota_ok (reclaim_expired now t)"
  by (auto simp: quota_ok_def reclaim_expired_props intro: order_trans [OF reclaim_expired_props(3)])

lemma quota_ok_new [simp]: "quota_ok (RunQuotaTable_new m)"
  by (simp add: quota_ok_def lockstep_def RunQuotaTable_new_def)

lemma quota_ok_enter: "quota_ok t \<Longrightarrow> quota_ok (enter_generation g t)"
  by (auto simp: enter_generation_def quota_ok_def lockstep_def split: option.splits)

lemma enter_generation_same:
  assumes "rq_generation t = Some G" and "g \<le> G"
  shows "enter_generation g t = t"
  using assms by (simp add: enter_generation_def)

lemma enter_generation_max [simp]:
  "max_tracked_buckets_per_rule (enter_generation g t) = max_tracked_buckets_per_rule t"
  by (simp add: enter_generation_def split: option.splits)

lemma quota_ok_update:
  assumes "quota_ok t" and "hm_get (counters t) k = Some b"
  shows "quota_ok (t\<lparr>counters := hm_insert k b' (counters t)\<rparr>)"
  using assms by (simp add: quota_ok_def lockstep_def buckets_of_insert_old)

lemma quota_ok_open:
  assumes "quota_ok t" and "hm_get (counters t) k = None"
    and "tracked_buckets t (rq_rule_id k) < max_tracked_buckets_per_rule t"
  shows "quota_ok (open_bucket k d t)"
proof -
  have ls: "lockstep t" using assms(1) by (simp add: quota_ok_def)
  show ?thesis
    using assms
    by (simp add: quota_ok_def lockstep_def open_bucket_def buckets_of_insert_new hm_get_insert
        tracked_buckets_eq [OF ls])
qed

text \<open>
  What a charge does once the limit is known to be positive and the generation has been
  entered: it refreshes and counts in an existing bucket, opens a bucket within the allowance,
  or reports that the allowance is full after every expired bucket has been reclaimed.
\<close>

lemma charge_cases:
  assumes "charge_with_receipt g k (Some limit) ret now t = (r, t')" and "0 < limit"
  obtains
    (exhausted) b where "hm_get (counters (enter_generation g t)) k = Some b" "limit \<le> bk_count b"
      "r = Inl Exhausted"
      "t' = (enter_generation g t)\<lparr>counters := hm_insert k
         (b\<lparr>bk_expires_at_unix := max (bk_expires_at_unix b) (retention_deadline now ret)\<rparr>)
         (counters (enter_generation g t))\<rparr>"
  | (counted) b where "hm_get (counters (enter_generation g t)) k = Some b" "bk_count b < limit"
      "r = Inr \<lparr>charged_count = sat_add_u64 (bk_count b) 1,
                remaining = limit - sat_add_u64 (bk_count b) 1\<rparr>"
      "t' = (enter_generation g t)\<lparr>counters := hm_insert k
         \<lparr>bk_count = sat_add_u64 (bk_count b) 1,
          bk_expires_at_unix = max (bk_expires_at_unix b) (retention_deadline now ret)\<rparr>
         (counters (enter_generation g t))\<rparr>"
  | (opened) s where "hm_get (counters (enter_generation g t)) k = None"
      "s = enter_generation g t \<or> s = reclaim_expired now (enter_generation g t)"
      "tracked_buckets s (rq_rule_id k) < max_tracked_buckets_per_rule t"
      "r = Inr \<lparr>charged_count = 1, remaining = limit - 1\<rparr>"
      "t' = open_bucket k (retention_deadline now ret) s"
  | (untracked) "hm_get (counters (enter_generation g t)) k = None"
      "r = Inl Untracked" "t' = reclaim_expired now (enter_generation g t)"
      "max_tracked_buckets_per_rule (reclaim_expired now (enter_generation g t))
         \<le> tracked_buckets (reclaim_expired now (enter_generation g t)) (rq_rule_id k)"
proof (cases "hm_get (counters (enter_generation g t)) k")
  case (Some b)
  then show ?thesis
    using assms exhausted [OF Some] counted [OF Some]
    by (cases b) (auto simp: charge_with_receipt_def Let_def split: if_splits)
next
  case None
  let ?s = "enter_generation g t"
  show ?thesis
  proof (cases "max_tracked_buckets_per_rule ?s \<le> tracked_buckets ?s (rq_rule_id k)")
    case False
    then show ?thesis
      using assms None opened [of ?s] by (simp add: charge_with_receipt_def Let_def)
  next
    case full: True
    show ?thesis
    proof (cases "max_tracked_buckets_per_rule (reclaim_expired now ?s)
        \<le> tracked_buckets (reclaim_expired now ?s) (rq_rule_id k)")
      case True
      with full show ?thesis
        using assms None untracked by (simp add: charge_with_receipt_def Let_def)
    next
      case False
      have "max_tracked_buckets_per_rule (reclaim_expired now ?s) = max_tracked_buckets_per_rule t"
        by (simp add: reclaim_expired_max)
      with False full show ?thesis
        using assms None opened [of "reclaim_expired now ?s"]
        by (simp add: charge_with_receipt_def Let_def)
    qed
  qed
qed

lemma charge_no_limit:
  assumes "charge_with_receipt g k lim ret now t = (r, t')" and "lim = None \<or> lim = Some 0"
  shows "t' = t \<and> (r = Inl QuotaUnavailable \<or> r = Inl Exhausted)"
  using assms by (auto simp: charge_with_receipt_def)

lemma quota_ok_charge:
  assumes "quota_ok t" and "charge_with_receipt g k lim ret now t = (r, t')"
  shows "quota_ok t'"
proof (cases "lim = None \<or> lim = Some 0")
  case True
  with assms charge_no_limit show ?thesis by blast
next
  case False
  then obtain limit where lim: "lim = Some limit" "0 < limit" by (cases lim) auto
  have ok: "quota_ok (enter_generation g t)" using assms(1) by (rule quota_ok_enter)
  have ls: "lockstep (enter_generation g t)" using ok by (simp add: quota_ok_def)
  from assms(2) [unfolded lim(1)] lim(2) show ?thesis
  proof (cases rule: charge_cases)
    case (exhausted b)
    then show ?thesis using ok by (simp add: quota_ok_update)
  next
    case (counted b)
    then show ?thesis using ok by (simp add: quota_ok_update)
  next
    case (opened s)
    have "quota_ok s" using opened(2) ok quota_ok_reclaim by auto
    moreover have "hm_get (counters s) k = None"
      using opened(1,2) reclaim_expired_props(2) [OF ls, of now k] by auto
    moreover have "max_tracked_buckets_per_rule s = max_tracked_buckets_per_rule t"
      using opened(2) by (auto simp: reclaim_expired_max)
    ultimately show ?thesis using opened by (simp add: quota_ok_open)
  next
    case untracked
    then show ?thesis using ok quota_ok_reclaim by simp
  qed
qed


section \<open>The outcome of a charge\<close>

text \<open>The buckets of a rule whose retention has not lapsed.\<close>

definition live_buckets :: "(RunQuotaKey, RunQuotaBucket) hashmap \<Rightarrow> int \<Rightarrow> string \<Rightarrow> nat" where
  "live_buckets m now r =
     length (filter (\<lambda>(k, b). rq_rule_id k = r \<and> now < bk_expires_at_unix b) m)"

lemma buckets_of_card:
  assumes "hm_wf m"
  shows "buckets_of m r = card {k. rq_rule_id k = r \<and> hm_get m k \<noteq> None}"
proof -
  let ?f = "filter (\<lambda>(k, _). rq_rule_id k = r) m"
  have "distinct (map fst ?f)" using assms by (simp add: hm_wf_def distinct_map_filter)
  then have "buckets_of m r = card (set (map fst ?f))"
    by (metis buckets_of_def distinct_card length_map)
  moreover have "set (map fst ?f) = {k. rq_rule_id k = r \<and> hm_get m k \<noteq> None}"
    using assms by (force simp: hm_get_def map_of_eq_None_iff)
  ultimately show ?thesis by simp
qed

lemma live_buckets_card:
  assumes "hm_wf m"
  shows "live_buckets m now r =
    card {k. rq_rule_id k = r \<and> (\<exists>b. hm_get m k = Some b \<and> now < bk_expires_at_unix b)}"
proof -
  let ?f = "filter (\<lambda>(k, b). rq_rule_id k = r \<and> now < bk_expires_at_unix b) m"
  have "distinct (map fst ?f)" using assms by (simp add: hm_wf_def distinct_map_filter)
  then have "live_buckets m now r = card (set (map fst ?f))"
    by (metis live_buckets_def distinct_card length_map)
  moreover have "set (map fst ?f) =
      {k. rq_rule_id k = r \<and> (\<exists>b. hm_get m k = Some b \<and> now < bk_expires_at_unix b)}"
    using assms by (force simp: hm_get_def hm_wf_def)
  ultimately show ?thesis by simp
qed

lemma buckets_of_reclaimed:
  assumes "lockstep t"
  shows "buckets_of (counters (reclaim_expired now t)) r = live_buckets (counters t) now r"
proof -
  have wf: "hm_wf (counters t)" "hm_wf (counters (reclaim_expired now t))"
    using assms reclaim_expired_props(1) [OF assms, of now] by (simp_all add: lockstep_def)
  have "hm_get (counters (reclaim_expired now t)) k \<noteq> None \<longleftrightarrow>
      (\<exists>b. hm_get (counters t) k = Some b \<and> now < bk_expires_at_unix b)" for k
    by (auto simp: reclaim_expired_props(2) [OF assms] split: option.splits)
  then show ?thesis by (simp add: buckets_of_card [OF wf(2)] live_buckets_card [OF wf(1)])
qed

lemma live_le_buckets: "live_buckets m now r \<le> buckets_of m r"
  unfolding live_buckets_def buckets_of_def by (induction m) auto

text \<open>
  The outcome of a charge is decided by the limit of the rule, the bucket of the run
  attempt and the buckets of the same rule alone, so no other rule can make it fail. A missing
  limit is refused. An existing bucket admits while its count is below the limit. A new run
  attempt is admitted exactly when fewer buckets of its own rule than the allowance are within
  their retention.
\<close>

theorem charge_outcome_exact:
  assumes "quota_ok t"
  shows "fst (charge_with_receipt g k lim ret now t) =
    (let m = counters (enter_generation g t) in
     case lim of
       None \<Rightarrow> Inl QuotaUnavailable
     | Some limit \<Rightarrow>
         if limit = 0 then Inl Exhausted
         else case hm_get m k of
           Some b \<Rightarrow>
             if bk_count b < limit
             then Inr \<lparr>charged_count = sat_add_u64 (bk_count b) 1,
                       remaining = limit - sat_add_u64 (bk_count b) 1\<rparr>
             else Inl Exhausted
         | None \<Rightarrow>
             if live_buckets m now (rq_rule_id k) < max_tracked_buckets_per_rule t
             then Inr \<lparr>charged_count = 1, remaining = limit - 1\<rparr> else Inl Untracked)"
proof -
  let ?s = "enter_generation g t"
  have ls: "lockstep ?s" using quota_ok_enter [OF assms] by (simp add: quota_ok_def)
  have full: "tracked_buckets ?s (rq_rule_id k) = buckets_of (counters ?s) (rq_rule_id k)"
    using ls by (rule tracked_buckets_eq)
  have after_reclaim: "tracked_buckets (reclaim_expired now ?s) (rq_rule_id k)
      = live_buckets (counters ?s) now (rq_rule_id k)"
    by (simp add: tracked_buckets_eq reclaim_expired_props(1) [OF ls] buckets_of_reclaimed [OF ls])
  have "live_buckets (counters ?s) now (rq_rule_id k) \<le> buckets_of (counters ?s) (rq_rule_id k)"
    by (rule live_le_buckets)
  then show ?thesis
    by (auto simp: charge_with_receipt_def Let_def full after_reclaim reclaim_expired_max
        split: option.splits)
qed

section \<open>Runs of charges\<close>

record ChargeEvent =
  ce_generation :: nat
  ce_key :: RunQuotaKey
  ce_limit :: "nat option"
  ce_retention :: nat
  ce_now :: int
  ce_result :: "RunQuotaDenied + RunQuotaReceipt"

inductive quota_step :: "RunQuotaTable \<Rightarrow> ChargeEvent \<Rightarrow> RunQuotaTable \<Rightarrow> bool" where
  "charge_with_receipt (ce_generation e) (ce_key e) (ce_limit e) (ce_retention e) (ce_now e) t
     = (ce_result e, t') \<Longrightarrow> quota_step t e t'"

inductive_simps quota_step_iff: "quota_step t e t'"

lemma steps_in: "steps step s es t \<Longrightarrow> e \<in> set es \<Longrightarrow> \<exists>u v. step u e v"
  by (induction rule: steps.induct) auto

definition admitted :: "ChargeEvent \<Rightarrow> bool" where
  "admitted e \<longleftrightarrow> (\<exists>r. ce_result e = Inr r)"

text \<open>
  The activity window of a run attempt: from its first admitted operation on, no stretch of
  \<open>R\<close> seconds passes without a charge attempt of the key, and no newer generation charges.
\<close>

fun active :: "RunQuotaKey \<Rightarrow> int \<Rightarrow> (int \<times> nat) option \<Rightarrow> ChargeEvent list \<Rightarrow> bool" where
  "active k R w [] \<longleftrightarrow> True"
| "active k R None (e # es) \<longleftrightarrow>
     active k R (if ce_key e = k \<and> admitted e then Some (ce_now e, ce_generation e) else None) es"
| "active k R (Some (s, g)) (e # es) \<longleftrightarrow>
     ce_now e < s + R \<and> ce_generation e \<le> g \<and>
     active k R (Some (if ce_key e = k then max s (ce_now e) else s, g)) es"

text \<open>What the table holds for the key after \<open>n\<close> admissions in the window.\<close>

definition window_state :: "RunQuotaKey \<Rightarrow> int \<Rightarrow> nat \<Rightarrow> (int \<times> nat) option \<Rightarrow> nat \<Rightarrow> RunQuotaTable \<Rightarrow> bool" where
  "window_state k R L w n t \<longleftrightarrow>
     (case w of
        None \<Rightarrow> n = 0
      | Some (s, g) \<Rightarrow>
          (\<exists>b. hm_get (counters t) k = Some b \<and> n \<le> bk_count b \<and> s + R \<le> bk_expires_at_unix b) \<and>
          (\<exists>g'. rq_generation t = Some g' \<and> g \<le> g')) \<and> n \<le> L"

definition event_ok :: "RunQuotaKey \<Rightarrow> int \<Rightarrow> nat \<Rightarrow> ChargeEvent \<Rightarrow> bool" where
  "event_ok k R L e \<longleftrightarrow>
     (ce_key e = k \<longrightarrow> ce_limit e = Some L \<and> R \<le> int (ce_retention e) \<and> ce_now e + R \<le> i64_max)"

lemma retention_deadline_ge:
  assumes "R \<le> int ret" and "R \<le> i64_max" and "now + R \<le> i64_max"
  shows "now + R \<le> retention_deadline now ret"
  using assms by (auto simp: retention_deadline_def sat_add_i64_def clamp_i64_def)


lemma enter_in_window:
  assumes "window_state k R L (Some (s, g)) n t" and "g2 \<le> g"
  shows "enter_generation g2 t = t"
  using assms by (auto simp: window_state_def enter_generation_def)

lemma window_other_key:
  assumes "quota_ok t" and "window_state k R L (Some (s, g)) n t" and "quota_step t e t'"
    and "ce_key e \<noteq> k" and "ce_now e < s + R" and "ce_generation e \<le> g"
  shows "window_state k R L (Some (s, g)) n t'"
proof -
  have ls: "lockstep t" using assms(1) by (simp add: quota_ok_def)
  obtain b where b: "hm_get (counters t) k = Some b" "n \<le> bk_count b" "s + R \<le> bk_expires_at_unix b"
    using assms(2) by (auto simp: window_state_def)
  note st = assms(3) [unfolded quota_step_iff]
  have e: "enter_generation (ce_generation e) t = t" using assms(2,6) by (rule enter_in_window)
  have keep: "hm_get (counters (reclaim_expired (ce_now e) t)) k = Some b"
    using b assms(5) by (simp add: reclaim_expired_props(2) [OF ls])
  have "hm_get (counters t') k = Some b \<and> rq_generation t' = rq_generation t"
  proof (cases "ce_limit e = None \<or> ce_limit e = Some 0")
    case True
    then show ?thesis using charge_no_limit [OF st] b by simp
  next
    case False
    then obtain limit where lim: "ce_limit e = Some limit" "0 < limit" by (cases "ce_limit e") auto
    from st [unfolded lim(1)] lim(2) show ?thesis
    proof (cases rule: charge_cases)
      case (opened q)
      then show ?thesis
        using b keep assms(4) by (auto simp: e open_bucket_def hm_get_insert reclaim_expired_props(5) [OF ls])
    next
      case untracked
      then show ?thesis using keep by (simp add: e reclaim_expired_props(5) [OF ls])
    qed (use b assms(4) in \<open>simp_all add: e hm_get_insert\<close>)
  qed
  then show ?thesis using assms(2) b by (auto simp: window_state_def)
qed

lemma event_deadline:
  assumes "event_ok (ce_key e) R L e" and "R \<le> i64_max"
  shows "ce_now e + R \<le> retention_deadline (ce_now e) (ce_retention e)"
  using assms by (simp add: event_ok_def retention_deadline_ge)

lemma window_own_key:
  assumes "window_state k R L (Some (s, g)) n t" and "quota_step t e t'" and "ce_key e = k"
    and "event_ok k R L e" and "ce_generation e \<le> g" and "R \<le> i64_max" and "0 < L" and "L \<le> u64_max"
  shows "window_state k R L (Some (max s (ce_now e), g)) (n + (if admitted e then 1 else 0)) t'"
proof -
  obtain b where b: "hm_get (counters t) k = Some b" "n \<le> bk_count b" "s + R \<le> bk_expires_at_unix b"
    using assms(1) by (auto simp: window_state_def)
  have e: "enter_generation (ce_generation e) t = t" using assms(1,5) by (rule enter_in_window)
  have lim: "ce_limit e = Some L" using assms(3,4) by (simp add: event_ok_def)
  have d: "ce_now e + R \<le> retention_deadline (ce_now e) (ce_retention e)"
    using assms(3,4,6) event_deadline by simp
  from assms(2) [unfolded quota_step_iff lim assms(3)] assms(7) show ?thesis
  proof (cases rule: charge_cases)
    case (exhausted c)
    then show ?thesis
      using assms(1) b d by (auto simp: e window_state_def admitted_def hm_get_insert)
  next
    case (counted c)
    have c: "c = b" using counted(1) b(1) by (simp add: e)
    have "sat_add_u64 (bk_count b) 1 = bk_count b + 1"
      using counted(2) assms(8) by (simp add: sat_add_u64_def c)
    with counted show ?thesis
      using assms(1) b d by (auto simp: e window_state_def admitted_def hm_get_insert c)
  qed (use b in \<open>simp_all add: e\<close>)
qed

lemma window_opens:
  assumes "quota_step t e t'" and "ce_key e = k" and "admitted e"
    and "event_ok k R L e" and "R \<le> i64_max" and "L \<le> u64_max"
  shows "window_state k R L (Some (ce_now e, ce_generation e)) 1 t'"
proof -
  have lim: "ce_limit e = Some L" using assms(2,4) by (simp add: event_ok_def)
  have pos: "0 < L"
    using assms(1,3) lim
    by (cases "L = 0") (auto simp: quota_step_iff charge_with_receipt_def admitted_def)
  have d: "ce_now e + R \<le> retention_deadline (ce_now e) (ce_retention e)"
    using assms(2,4,5) event_deadline by simp
  have gen: "\<exists>g. rq_generation (enter_generation (ce_generation e) t) = Some g \<and> ce_generation e \<le> g"
    by (auto simp: enter_generation_def split: option.splits)
  from assms(1) [unfolded quota_step_iff lim assms(2)] pos show ?thesis
  proof (cases rule: charge_cases)
    case (counted b)
    then show ?thesis
      using d gen pos assms(6) by (auto simp: window_state_def hm_get_insert sat_add_u64_def)
  next
    case (opened q)
    have "rq_generation q = rq_generation (enter_generation (ce_generation e) t)"
      using opened(2) by (auto simp: reclaim_expired_generation)
    with opened show ?thesis
      using d gen pos by (auto simp: window_state_def open_bucket_def hm_get_insert)
  qed (use assms(3) in \<open>simp_all add: admitted_def\<close>)
qed

lemma window_run:
  assumes "steps quota_step t es t'" and "quota_ok t" and "window_state k R L w n t"
    and "active k R w es" and "\<forall>e \<in> set es. event_ok k R L e"
    and "R \<le> i64_max" and "0 < L" and "L \<le> u64_max"
  shows "n + length (filter (\<lambda>e. ce_key e = k \<and> admitted e) es) \<le> L"
  using assms(1-5)
proof (induction arbitrary: w n rule: steps.induct)
  case (steps_nil t)
  then show ?case by (simp add: window_state_def)
next
  case (steps_cons t e t2 es u)
  have ok: "quota_ok t2"
    using steps_cons.hyps(1) steps_cons.prems(1) quota_ok_charge by (auto simp: quota_step_iff)
  have ev: "event_ok k R L e" "\<forall>e \<in> set es. event_ok k R L e" using steps_cons.prems(4) by auto
  show ?case
  proof (cases w)
    case None
    then have n: "n = 0" using steps_cons.prems(2) by (simp add: window_state_def)
    show ?thesis
    proof (cases "ce_key e = k \<and> admitted e")
      case True
      then have "window_state k R L (Some (ce_now e, ce_generation e)) 1 t2"
        using window_opens steps_cons.hyps(1) ev(1) assms(6,8) by blast
      with steps_cons.IH [OF ok this] True None n steps_cons.prems(3) ev(2) show ?thesis by simp
    next
      case False
      have "window_state k R L None 0 t2" by (simp add: window_state_def)
      with steps_cons.IH [OF ok this] False None n steps_cons.prems(3) ev(2) show ?thesis by auto
    qed
  next
    case (Some p)
    obtain s g where p: "w = Some (s, g)" using Some by (cases p) auto
    have a: "ce_now e < s + R" "ce_generation e \<le> g"
      and rest: "active k R (Some (if ce_key e = k then max s (ce_now e) else s, g)) es"
      using steps_cons.prems(3) by (auto simp: p)
    have ws: "window_state k R L (Some (s, g)) n t" using steps_cons.prems(2) by (simp add: p)
    show ?thesis
    proof (cases "ce_key e = k")
      case True
      note this2 = window_own_key [OF ws steps_cons.hyps(1) True ev(1) a(2) assms(6-8)]
      show ?thesis using steps_cons.IH [OF ok this2] True rest ev(2) by (simp split: if_splits)
    next
      case False
      note this2 = window_other_key [OF steps_cons.prems(1) ws steps_cons.hyps(1) False a]
      show ?thesis using steps_cons.IH [OF ok this2] False rest ev(2) by simp
    qed
  qed
qed

text \<open>
  C16: No interleaving of charges admits more operations of a workflow run attempt than its
  rule allows while the attempt keeps presenting tokens: from the first admitted operation on,
  as long as no stretch of the retention length passes without a charge attempt of that run
  and no newer generation charges, at most the configured number of operations is admitted,
  whatever the other runs and rules do and however often the table is under pressure.
\<close>

theorem run_quota_never_exceeded:
  assumes "quota_ok t" and "steps quota_step t es t'"
    and "active k R None es"
    and "\<forall>e \<in> set es. ce_key e = k \<longrightarrow>
           ce_limit e = Some L \<and> R \<le> int (ce_retention e) \<and> ce_now e + R \<le> i64_max"
    and "R \<le> i64_max" and "L \<le> u64_max"
  shows "length (filter (\<lambda>e. ce_key e = k \<and> admitted e) es) \<le> L"
proof (cases "L = 0")
  case True
  have "\<not> admitted e" if "e \<in> set es" "ce_key e = k" for e
    using steps_in [OF assms(2) that(1)] assms(4) that True
    by (auto simp: quota_step_iff charge_with_receipt_def admitted_def)
  then show ?thesis by (auto simp: filter_empty_conv)
next
  case False
  have "window_state k R L None 0 t" by (simp add: window_state_def)
  moreover have "\<forall>e \<in> set es. event_ok k R L e" using assms(4) by (simp add: event_ok_def)
  ultimately show ?thesis using window_run [OF assms(2,1)] assms(3,5,6) False by fastforce
qed


text \<open>A run of the table that charges a list of requests and collects what happened.\<close>

fun charge_all ::
  "(nat \<times> RunQuotaKey \<times> nat option \<times> nat \<times> int) list \<Rightarrow> RunQuotaTable
    \<Rightarrow> ChargeEvent list \<times> RunQuotaTable" where
  "charge_all [] t = ([], t)"
| "charge_all ((g, k, lim, ret, now) # rest) t =
     (case charge_with_receipt g k lim ret now t of
        (r, t') \<Rightarrow>
          (case charge_all rest t' of
             (es, u) \<Rightarrow>
               (\<lparr>ce_generation = g, ce_key = k, ce_limit = lim, ce_retention = ret, ce_now = now,
                 ce_result = r\<rparr> # es, u)))"

lemma charge_all_steps: "charge_all qs t = (es, t') \<Longrightarrow> steps quota_step t es t'"
proof (induction qs t arbitrary: es t' rule: charge_all.induct)
  case (2 g k lim ret now rest t)
  then show ?case
    by (auto simp: quota_step_iff intro!: steps_cons split: prod.splits)
qed (auto intro: steps_nil)

definition demo_key :: "nat \<Rightarrow> RunQuotaKey" where
  "demo_key n = \<lparr>rq_rule_id = ''rule'', rq_run_id = n, rq_run_attempt = 1\<rparr>"

definition demo_charges :: "(nat \<times> RunQuotaKey \<times> nat option \<times> nat \<times> int) list" where
  "demo_charges =
     [(1, demo_key 7, Some 2, 60, 100), (1, demo_key 8, Some 2, 60, 101),
      (1, demo_key 9, Some 2, 60, 150), (1, demo_key 7, Some 2, 60, 155),
      (0, demo_key 7, Some 2, 60, 156), (1, demo_key 9, Some 2, 60, 165)]"

definition demo_event :: "nat \<Rightarrow> nat \<Rightarrow> int \<Rightarrow> RunQuotaDenied + RunQuotaReceipt \<Rightarrow> ChargeEvent" where
  "demo_event g n now r =
     \<lparr>ce_generation = g, ce_key = demo_key n, ce_limit = Some 2, ce_retention = 60, ce_now = now,
      ce_result = r\<rparr>"

lemma demo_key_eq [simp]: "demo_key a = demo_key b \<longleftrightarrow> a = b" "rq_rule_id (demo_key a) = ''rule''"
  by (simp_all add: demo_key_def)

lemma demo_deadline: "retention_deadline 100 60 = 160" "retention_deadline 101 60 = 161"
  "retention_deadline 150 60 = 210" "retention_deadline 155 60 = 215" "retention_deadline 156 60 = 216"
  "retention_deadline 165 60 = 225" "sat_add_u64 (Suc 0) (Suc 0) = 2"
  by (simp_all add: retention_deadline_def sat_add_i64_def clamp_i64_def i64_max_def i64_min_def
      sat_add_u64_def u64_max_def)

lemma demo_quota_run:
  "fst (charge_all demo_charges (RunQuotaTable_new 2)) =
     [demo_event 1 7 100 (Inr \<lparr>charged_count = 1, remaining = 1\<rparr>),
      demo_event 1 8 101 (Inr \<lparr>charged_count = 1, remaining = 1\<rparr>),
      demo_event 1 9 150 (Inl Untracked),
      demo_event 1 7 155 (Inr \<lparr>charged_count = 2, remaining = 0\<rparr>),
      demo_event 0 7 156 (Inl Exhausted),
      demo_event 1 9 165 (Inr \<lparr>charged_count = 1, remaining = 1\<rparr>)]"
  by (simp add: demo_charges_def demo_event_def charge_with_receipt_def RunQuotaTable_new_def Let_def
      enter_generation_def hm_get_def tracked_buckets_def demo_deadline open_bucket_def
      reclaim_expired_def reclaim_key_def hm_remove_def)

lemma run_quota_never_exceeded_witness:
  "length (filter (\<lambda>e. ce_key e = demo_key 7 \<and> admitted e)
     (fst (charge_all demo_charges (RunQuotaTable_new 2)))) \<le> 2"
proof -
  let ?es = "fst (charge_all demo_charges (RunQuotaTable_new 2))"
  have "steps quota_step (RunQuotaTable_new 2) ?es (snd (charge_all demo_charges (RunQuotaTable_new 2)))"
    by (rule charge_all_steps) simp
  moreover have "active (demo_key 7) 60 None ?es"
    by (simp add: demo_quota_run demo_event_def admitted_def)
  moreover have "\<forall>e \<in> set ?es. ce_key e = demo_key 7 \<longrightarrow>
      ce_limit e = Some 2 \<and> 60 \<le> int (ce_retention e) \<and> ce_now e + 60 \<le> i64_max"
    by (simp add: demo_quota_run demo_event_def i64_max_def)
  ultimately show ?thesis
    by (rule run_quota_never_exceeded [OF quota_ok_new]) (simp_all add: i64_max_def u64_max_def)
qed

lemma charge_outcome_exact_witness:
  "fst (charge_with_receipt 1 (demo_key 7) (Some 2) 60 100 (RunQuotaTable_new 2))
     = Inr \<lparr>charged_count = 1, remaining = 1\<rparr>"
  using charge_outcome_exact [OF quota_ok_new, of 1 "demo_key 7" "Some 2" 60 100 2]
  by (simp add: Let_def enter_generation_def RunQuotaTable_new_def live_buckets_def demo_key_def)

end
