(* ===== verification/Serde.thy ===== *)
theory Serde
  imports Json_Value
begin

text \<open>
  What the derived \<open>serde\<close> implementations of the repository's structs do with a document
  tree: members of an object by name, elements of an array by position, a missing member of
  an \<open>Option\<close> field is \<open>None\<close>, a repeated member is an error, and an unknown member is an
  error for a struct marked \<open>deny_unknown_fields\<close> and skipped otherwise.
\<close>

definition struct_members :: "bool \<Rightarrow> string list \<Rightarrow> Json \<Rightarrow> (string \<times> Json) list option" where
  "struct_members deny_unknown names v =
     (case v of
        JObj ms \<Rightarrow>
          if deny_unknown \<and> \<not> set (map fst ms) \<subseteq> set names then None
          else let known = filter (\<lambda>(k, _). k \<in> set names) ms in
               if distinct (map fst known) then Some known else None
      | JArr vs \<Rightarrow> if length vs = length names then Some (zip names vs) else None
      | _ \<Rightarrow> None)"

definition member :: "(string \<times> Json) list \<Rightarrow> string \<Rightarrow> Json option" where
  "member ms name = map_of ms name"

definition str_member :: "(string \<times> Json) list \<Rightarrow> string \<Rightarrow> string option" where
  "str_member ms name = Option.bind (member ms name) as_str"

definition u64_member :: "(string \<times> Json) list \<Rightarrow> string \<Rightarrow> nat option" where
  "u64_member ms name = Option.bind (member ms name) as_u64"

definition u32_member :: "(string \<times> Json) list \<Rightarrow> string \<Rightarrow> nat option" where
  "u32_member ms name = Option.bind (u64_member ms name) (\<lambda>n. if n \<le> u32_max then Some n else None)"

text \<open>A member of type \<open>Option<T>\<close>: absent and \<open>null\<close> are \<open>None\<close>; the outer option is the error.\<close>

definition opt_member :: "(Json \<Rightarrow> 'a option) \<Rightarrow> (string \<times> Json) list \<Rightarrow> string \<Rightarrow> 'a option option" where
  "opt_member read ms name =
     (case member ms name of
        None \<Rightarrow> Some None
      | Some JNull \<Rightarrow> Some None
      | Some v \<Rightarrow> map_option Some (read v))"

lemma struct_members_object:
  "set (map fst ms) \<subseteq> set names \<Longrightarrow> distinct (map fst ms) \<Longrightarrow>
     struct_members deny names (JObj ms) = Some ms"
proof -
  assume a: "set (map fst ms) \<subseteq> set names" and d: "distinct (map fst ms)"
  have "filter (\<lambda>(k, _). k \<in> set names) ms = ms"
    using a by (auto intro!: filter_True)
  with a d show ?thesis by (simp add: struct_members_def Let_def)
qed

end
