(* ===== verification/Crypto_Provider.thy ===== *)
theory Crypto_Provider
  imports Serde Catalog_Schema
begin

text \<open>
  Provider dispatch and software custody (\<open>core/crypto_provider.rs\<close>): the provider metadata
  read from catalog labels, the selection of a provider, and the encrypted custody records of
  the local-software provider with their generation and use paths.

  Arguments of the model: the base64 codec, the JSON text codec, the AEAD of the backend, its
  key-value reads, and the ML-DSA primitives of the signing library.

  Results: the provider that is selected, for every combination of metadata, probe and grant;
  injectivity of the associated data that binds a wrapped seed; the record written by key
  generation is the one the use path accepts, exactly when the store filed it as version 1.
\<close>

section \<open>Algorithms and metadata\<close>

datatype SignatureAlgorithm = SaEd25519 | SaEd25519Nkey | SaRs256 | SaEs256 | SaMlDsa44 | SaMlDsa65 | SaMlDsa87

datatype NativeAlgorithm = NaMlDsa44 | NaMlDsa65 | NaMlDsa87

definition is_ml_dsa :: "SignatureAlgorithm \<Rightarrow> bool" where
  "is_ml_dsa a \<longleftrightarrow> a \<in> {SaMlDsa44, SaMlDsa65, SaMlDsa87}"

fun signature_algorithm_name :: "SignatureAlgorithm \<Rightarrow> string" where
  "signature_algorithm_name SaEd25519 = ''ed25519''"
| "signature_algorithm_name SaEd25519Nkey = ''ed25519-nkey''"
| "signature_algorithm_name SaRs256 = ''rs256''"
| "signature_algorithm_name SaEs256 = ''es256''"
| "signature_algorithm_name SaMlDsa44 = ''ml-dsa-44''"
| "signature_algorithm_name SaMlDsa65 = ''ml-dsa-65''"
| "signature_algorithm_name SaMlDsa87 = ''ml-dsa-87''"

fun native_algorithm :: "SignatureAlgorithm \<Rightarrow> NativeAlgorithm option" where
  "native_algorithm SaMlDsa44 = Some NaMlDsa44"
| "native_algorithm SaMlDsa65 = Some NaMlDsa65"
| "native_algorithm SaMlDsa87 = Some NaMlDsa87"
| "native_algorithm _ = None"

fun ml_dsa_signature_algorithm :: "KeyAlgorithm \<Rightarrow> SignatureAlgorithm option" where
  "ml_dsa_signature_algorithm MlDsa44 = Some SaMlDsa44"
| "ml_dsa_signature_algorithm MlDsa65 = Some SaMlDsa65"
| "ml_dsa_signature_algorithm MlDsa87 = Some SaMlDsa87"
| "ml_dsa_signature_algorithm _ = None"

datatype CryptoProviderId = VaultTransit | LocalSoftware

datatype ProviderPolicy = BackendRequired | BackendPreferred | PolicyLocalSoftware

datatype CustodyMode = BackendNative | SoftwareEncrypted

fun custody_token :: "CustodyMode \<Rightarrow> string" where
  "custody_token BackendNative = ''backend-native''"
| "custody_token SoftwareEncrypted = ''software-encrypted''"

fun provider_token :: "CryptoProviderId \<Rightarrow> string" where
  "provider_token VaultTransit = ''vault-transit''"
| "provider_token LocalSoftware = ''local-software''"

fun custody_mode :: "CryptoProviderId \<Rightarrow> CustodyMode" where
  "custody_mode VaultTransit = BackendNative"
| "custody_mode LocalSoftware = SoftwareEncrypted"

record ProviderMetadata =
  pm_provider :: "CryptoProviderId option"
  pm_policy :: ProviderPolicy
  pm_custody :: "CustodyMode option"

definition metadata_from_key :: "KeyEntry \<Rightarrow> ProviderMetadata" where
  "metadata_from_key e = \<lparr>
     pm_provider = (case labels_get (ke_labels e) ''crypto_provider'' of
        Some v \<Rightarrow> if v = ''vault-transit'' then Some VaultTransit
                  else if v = ''local-software'' then Some LocalSoftware else None
      | None \<Rightarrow> None),
     pm_policy = (case labels_get (ke_labels e) ''crypto_provider_policy'' of
        Some v \<Rightarrow> if v = ''backend-preferred'' then BackendPreferred
                  else if v = ''local-software'' then PolicyLocalSoftware else BackendRequired
      | None \<Rightarrow> BackendRequired),
     pm_custody = (case labels_get (ke_labels e) ''pqc_custody'' of
        Some v \<Rightarrow> if v = ''backend-native'' then Some BackendNative
                  else if v = ''software-encrypted'' then Some SoftwareEncrypted else None
      | None \<Rightarrow> None)\<rparr>"

datatype ProviderError =
    Unsupported CryptoProviderId string string
  | PolicyDenied string string
  | CryptoFailed CryptoProviderId string string string
  | BackendFailed string

section \<open>Selection\<close>

definition require_local_software_allowed :: "bool \<Rightarrow> string \<Rightarrow> ProviderError + unit" where
  "require_local_software_allowed allowed op =
     (if allowed then Inr () else Inl (PolicyDenied op ''local software custody requires caller policy grant''))"

definition require_software_custody :: "CustodyMode option \<Rightarrow> string \<Rightarrow> string \<Rightarrow> ProviderError + unit" where
  "require_software_custody custody op reason =
     (if custody = Some SoftwareEncrypted then Inr () else Inl (PolicyDenied op reason))"

definition select_backend_required :: "bool \<Rightarrow> string \<Rightarrow> ProviderError + CryptoProviderId" where
  "select_backend_required native op =
     (if native then Inr VaultTransit else Inl (Unsupported VaultTransit op ''backend-native''))"

definition select_backend_preferred ::
  "CustodyMode option \<Rightarrow> bool \<Rightarrow> bool \<Rightarrow> string \<Rightarrow> ProviderError + CryptoProviderId" where
  "select_backend_preferred custody native allowed op =
     (if custody = Some SoftwareEncrypted
      then res_bind (require_local_software_allowed allowed op) (\<lambda>_. Inr LocalSoftware)
      else if native then Inr VaultTransit
      else res_bind (require_local_software_allowed allowed op) (\<lambda>_.
           res_bind (require_software_custody custody op
             ''local software fallback requires software-encrypted custody'') (\<lambda>_. Inr LocalSoftware)))"

definition select_local_software :: "CustodyMode option \<Rightarrow> bool \<Rightarrow> string \<Rightarrow> ProviderError + CryptoProviderId" where
  "select_local_software custody allowed op =
     res_bind (require_local_software_allowed allowed op) (\<lambda>_.
     res_bind (require_software_custody custody op
       ''local software provider requires software-encrypted custody'') (\<lambda>_. Inr LocalSoftware))"

definition select_provider ::
  "ProviderMetadata \<Rightarrow> bool \<Rightarrow> bool \<Rightarrow> string \<Rightarrow> ProviderError + CryptoProviderId" where
  "select_provider metadata native allowed op =
     (case pm_policy metadata of
        BackendRequired \<Rightarrow> select_backend_required native op
      | BackendPreferred \<Rightarrow> select_backend_preferred (pm_custody metadata) native allowed op
      | PolicyLocalSoftware \<Rightarrow> select_local_software (pm_custody metadata) allowed op)"

text \<open>
  The local-software provider is selected exactly when the policy of the key is not
  backend-required, its labels declare software-encrypted custody, and the caller holds the
  software-custody grant; the backend is selected exactly when it supports the algorithm
  natively and the policy permits it. So a capability probe never moves a software-custodied
  key to the backend, and no probe and no label make software custody available without the
  grant.
\<close>

theorem select_provider_exact:
  "(select_provider m native allowed op = Inr LocalSoftware \<longleftrightarrow>
      pm_policy m \<noteq> BackendRequired \<and> pm_custody m = Some SoftwareEncrypted \<and> allowed) \<and>
   (select_provider m native allowed op = Inr VaultTransit \<longleftrightarrow>
      native \<and> (pm_policy m = BackendRequired \<or>
                (pm_policy m = BackendPreferred \<and> pm_custody m \<noteq> Some SoftwareEncrypted)))"
  by (cases "pm_policy m")
    (auto simp: select_provider_def select_backend_required_def select_backend_preferred_def
      select_local_software_def require_local_software_allowed_def require_software_custody_def)

section \<open>Custody records\<close>

datatype AeadAlgorithm = Chacha20Poly1305 | Aes256Gcm

fun aead_token :: "AeadAlgorithm \<Rightarrow> string" where
  "aead_token Aes256Gcm = ''aes-256-gcm''"
| "aead_token Chacha20Poly1305 = ''chacha20-poly1305''"

datatype SoftwareCustodyRecordError = RecMalformed | MetadataMismatch string | UnsupportedStorageAead

definition parse_storage_aead :: "string \<Rightarrow> SoftwareCustodyRecordError + AeadAlgorithm" where
  "parse_storage_aead s =
     (if s = ''aes-256-gcm'' then Inr Aes256Gcm
      else if s = ''chacha20-poly1305'' then Inr Chacha20Poly1305
      else Inl UnsupportedStorageAead)"

record CiphertextEnvelope =
  env_alg :: AeadAlgorithm
  env_key_version :: nat
  env_nonce :: "u8 list"
  env_ciphertext :: "u8 list"

record SoftwareCustodyCatalog =
  sc_key_id :: string
  sc_algorithm :: string
  sc_provider :: string
  sc_provider_version :: string
  sc_custody :: string
  sc_storage_key :: string

definition custody_aad :: "SoftwareCustodyCatalog \<Rightarrow> nat \<Rightarrow> string" where
  "custody_aad c key_version =
     ''basil:pqc-software-custody:v1'' @ [CHR 0x0A] @
     ''key_id='' @ sc_key_id c @ [CHR 0x0A] @
     ''key_version='' @ show_nat key_version @ [CHR 0x0A] @
     ''algorithm='' @ sc_algorithm c @ [CHR 0x0A] @
     ''provider='' @ sc_provider c @ [CHR 0x0A] @
     ''provider_version='' @ sc_provider_version c @ [CHR 0x0A] @
     ''custody='' @ sc_custody c @ [CHR 0x0A] @
     ''storage_key='' @ sc_storage_key c @ [CHR 0x0A]"

record EncryptedPrivateKey =
  ep_wrapping_key :: string
  ep_algorithm :: string
  ep_key_version :: nat
  ep_nonce :: string
  ep_ciphertext :: string

record SoftwareCustodyKeyRecord =
  cr_schema_version :: nat
  cr_key_id :: string
  cr_key_version :: nat
  cr_public_key :: string
  cr_algorithm :: string
  cr_provider :: string
  cr_provider_version :: string
  cr_custody :: string
  cr_encrypted_private_key :: EncryptedPrivateKey

definition CUSTODY_SCHEMA_VERSION :: nat where "CUSTODY_SCHEMA_VERSION = 1"
definition PROVIDER_VERSION :: string where "PROVIDER_VERSION = ''1''"
definition RECORD_VERSION :: nat where "RECORD_VERSION = 1"

text \<open>The derived JSON form of the two structs (\<open>camelCase\<close>, unknown members refused).\<close>

definition private_key_json :: "EncryptedPrivateKey \<Rightarrow> Json" where
  "private_key_json k = JObj
     [(''wrappingKey'', JStr (ep_wrapping_key k)), (''algorithm'', JStr (ep_algorithm k)),
      (''keyVersion'', JInt (int (ep_key_version k))), (''nonce'', JStr (ep_nonce k)),
      (''ciphertext'', JStr (ep_ciphertext k))]"

definition record_json :: "SoftwareCustodyKeyRecord \<Rightarrow> Json" where
  "record_json r = JObj
     [(''schemaVersion'', JInt (int (cr_schema_version r))), (''keyId'', JStr (cr_key_id r)),
      (''keyVersion'', JInt (int (cr_key_version r))), (''publicKey'', JStr (cr_public_key r)),
      (''algorithm'', JStr (cr_algorithm r)), (''provider'', JStr (cr_provider r)),
      (''providerVersion'', JStr (cr_provider_version r)), (''custody'', JStr (cr_custody r)),
      (''encryptedPrivateKey'', private_key_json (cr_encrypted_private_key r))]"

definition private_key_from_json :: "Json \<Rightarrow> EncryptedPrivateKey option" where
  "private_key_from_json v =
     Option.bind (struct_members True
       [''wrappingKey'', ''algorithm'', ''keyVersion'', ''nonce'', ''ciphertext''] v) (\<lambda>ms.
     Option.bind (str_member ms ''wrappingKey'') (\<lambda>w.
     Option.bind (str_member ms ''algorithm'') (\<lambda>a.
     Option.bind (u32_member ms ''keyVersion'') (\<lambda>kv.
     Option.bind (str_member ms ''nonce'') (\<lambda>n.
     Option.bind (str_member ms ''ciphertext'') (\<lambda>c.
     Some \<lparr>ep_wrapping_key = w, ep_algorithm = a, ep_key_version = kv, ep_nonce = n,
           ep_ciphertext = c\<rparr>))))))"

definition record_from_json :: "Json \<Rightarrow> SoftwareCustodyKeyRecord option" where
  "record_from_json v =
     Option.bind (struct_members True
       [''schemaVersion'', ''keyId'', ''keyVersion'', ''publicKey'', ''algorithm'', ''provider'',
        ''providerVersion'', ''custody'', ''encryptedPrivateKey''] v) (\<lambda>ms.
     Option.bind (u32_member ms ''schemaVersion'') (\<lambda>sv.
     Option.bind (str_member ms ''keyId'') (\<lambda>k.
     Option.bind (u32_member ms ''keyVersion'') (\<lambda>kv.
     Option.bind (str_member ms ''publicKey'') (\<lambda>pk.
     Option.bind (str_member ms ''algorithm'') (\<lambda>a.
     Option.bind (str_member ms ''provider'') (\<lambda>p.
     Option.bind (str_member ms ''providerVersion'') (\<lambda>pv.
     Option.bind (str_member ms ''custody'') (\<lambda>c.
     Option.bind (Option.bind (member ms ''encryptedPrivateKey'') private_key_from_json) (\<lambda>e.
     Some \<lparr>cr_schema_version = sv, cr_key_id = k, cr_key_version = kv, cr_public_key = pk,
           cr_algorithm = a, cr_provider = p, cr_provider_version = pv, cr_custody = c,
           cr_encrypted_private_key = e\<rparr>))))))))))"

text \<open>
  What the provider gets from outside: the standard base64 codec, the JSON text codec, the
  AEAD and the key-value reads of the backend, and the ML-DSA primitives.
\<close>

record ProviderEnv =
  b64_encode :: "u8 list \<Rightarrow> string"
  b64_decode :: "string \<Rightarrow> u8 list option"
  json_text :: "Json \<Rightarrow> string option"
  json_parse :: "string \<Rightarrow> Json option"
  be_encrypt :: "string \<Rightarrow> AeadAlgorithm \<Rightarrow> u8 list \<Rightarrow> string \<Rightarrow> string + CiphertextEnvelope"
  be_decrypt :: "string \<Rightarrow> CiphertextEnvelope \<Rightarrow> string \<Rightarrow> string + u8 list"
  be_kv_get :: "string \<Rightarrow> string + string \<times> nat"
  mldsa_public :: "SignatureAlgorithm \<Rightarrow> u8 list \<Rightarrow> (u8 list) option"
  mldsa_sign :: "SignatureAlgorithm \<Rightarrow> u8 list \<Rightarrow> u8 list \<Rightarrow> (u8 list) option"
  mldsa_verify :: "SignatureAlgorithm \<Rightarrow> u8 list \<Rightarrow> u8 list \<Rightarrow> u8 list \<Rightarrow> bool option"

definition decode_b64 :: "ProviderEnv \<Rightarrow> string \<Rightarrow> SoftwareCustodyRecordError + u8 list" where
  "decode_b64 env s = ok_or (b64_decode env s) RecMalformed"

definition encrypted_private_key :: "ProviderEnv \<Rightarrow> SoftwareCustodyKeyRecord \<Rightarrow> SoftwareCustodyRecordError + CiphertextEnvelope" where
  "encrypted_private_key env r =
     (let k = cr_encrypted_private_key r in
      res_bind (parse_storage_aead (ep_algorithm k)) (\<lambda>a.
      res_bind (decode_b64 env (ep_nonce k)) (\<lambda>n.
      res_bind (decode_b64 env (ep_ciphertext k)) (\<lambda>c.
      Inr \<lparr>env_alg = a, env_key_version = ep_key_version k, env_nonce = n, env_ciphertext = c\<rparr>))))"

definition validate_metadata ::
  "ProviderEnv \<Rightarrow> SoftwareCustodyKeyRecord \<Rightarrow> SoftwareCustodyCatalog \<Rightarrow> nat \<Rightarrow> SoftwareCustodyRecordError + unit" where
  "validate_metadata env r c kv_version =
     (if cr_schema_version r \<noteq> CUSTODY_SCHEMA_VERSION then Inl (MetadataMismatch ''schema_version'')
      else if cr_key_id r \<noteq> sc_key_id c then Inl (MetadataMismatch ''key_id'')
      else if cr_key_version r \<noteq> kv_version then Inl (MetadataMismatch ''key_version'')
      else if cr_algorithm r \<noteq> sc_algorithm c then Inl (MetadataMismatch ''algorithm'')
      else if cr_provider r \<noteq> sc_provider c then Inl (MetadataMismatch ''provider'')
      else if cr_provider_version r \<noteq> sc_provider_version c then Inl (MetadataMismatch ''provider_version'')
      else if cr_custody r \<noteq> sc_custody c then Inl (MetadataMismatch ''custody'')
      else if cr_public_key r = [] \<or> b64_decode env (cr_public_key r) = None then Inl RecMalformed
      else if ep_wrapping_key (cr_encrypted_private_key r) \<noteq> sc_storage_key c
      then Inl (MetadataMismatch ''wrapping_key'')
      else if ep_key_version (cr_encrypted_private_key r) = 0
      then Inl (MetadataMismatch ''encrypted_private_key.key_version'')
      else Inr ())"

record LocalSoftwareMaterial =
  lm_ciphertext :: CiphertextEnvelope
  lm_aad :: string
  lm_storage_key :: string
  lm_public_key :: "u8 list"
  lm_key_version :: nat

definition local_catalog :: "string \<Rightarrow> string \<Rightarrow> string \<Rightarrow> string \<Rightarrow> SoftwareCustodyCatalog" where
  "local_catalog key_id algorithm provider_version storage_key =
     \<lparr>sc_key_id = key_id, sc_algorithm = algorithm, sc_provider = provider_token LocalSoftware,
      sc_provider_version = provider_version, sc_custody = custody_token SoftwareEncrypted,
      sc_storage_key = storage_key\<rparr>"

definition parse_for_local_software ::
  "ProviderEnv \<Rightarrow> string \<Rightarrow> string \<Rightarrow> string \<Rightarrow> string \<Rightarrow> nat \<Rightarrow> string
    \<Rightarrow> SoftwareCustodyRecordError + LocalSoftwareMaterial" where
  "parse_for_local_software env bytes key_id algorithm provider_version kv_version storage_key =
     res_bind (ok_or (Option.bind (json_parse env bytes) record_from_json) RecMalformed) (\<lambda>r.
     let c = local_catalog key_id algorithm provider_version storage_key in
     res_bind (validate_metadata env r c kv_version) (\<lambda>_.
     res_bind (encrypted_private_key env r) (\<lambda>ciphertext.
     res_bind (decode_b64 env (cr_public_key r)) (\<lambda>pub.
     Inr \<lparr>lm_ciphertext = ciphertext, lm_aad = custody_aad c (cr_key_version r),
          lm_storage_key = storage_key, lm_public_key = pub, lm_key_version = kv_version\<rparr>))))"

definition material ::
  "ProviderEnv \<Rightarrow> string \<Rightarrow> string \<Rightarrow> string option \<Rightarrow> string \<Rightarrow> string \<Rightarrow> ProviderError + LocalSoftwareMaterial" where
  "material env key_id backend_path storage_key op algorithm =
     res_bind (ok_or storage_key
       (CryptoFailed LocalSoftware op algorithm ''software-custody key is missing its storage AEAD key'')) (\<lambda>sk.
     res_bind (res_map_err BackendFailed (be_kv_get env backend_path)) (\<lambda>(bytes, version).
     res_map_err (\<lambda>_. CryptoFailed LocalSoftware op algorithm ''malformed software-custody record'')
       (parse_for_local_software env bytes key_id algorithm PROVIDER_VERSION version sk)))"

definition materialize_seed :: "ProviderEnv \<Rightarrow> LocalSoftwareMaterial \<Rightarrow> ProviderError + u8 list" where
  "materialize_seed env m =
     res_map_err BackendFailed (be_decrypt env (lm_storage_key m) (lm_ciphertext m) (lm_aad m))"

definition local_public_key ::
  "ProviderEnv \<Rightarrow> string \<Rightarrow> string \<Rightarrow> string option \<Rightarrow> string \<Rightarrow> ProviderError + u8 list" where
  "local_public_key env key_id backend_path storage_key algorithm =
     res_bind (material env key_id backend_path storage_key ''get_public_key'' algorithm)
       (\<lambda>m. Inr (lm_public_key m))"

record SealParams =
  sp_op :: string
  sp_key_id :: string
  sp_backend_path :: string
  sp_algorithm_token :: string
  sp_storage_key :: string

text \<open>
  \<open>seal_and_store\<close> up to the write: the path and the bytes handed to \<open>kv_put\<close>, and the
  public half that is returned once the write succeeds.
\<close>

definition seal_and_store ::
  "ProviderEnv \<Rightarrow> SealParams \<Rightarrow> u8 list \<Rightarrow> u8 list \<Rightarrow> ProviderError + string \<times> string \<times> u8 list" where
  "seal_and_store env p seed pub =
     (let c = local_catalog (sp_key_id p) (sp_algorithm_token p) PROVIDER_VERSION (sp_storage_key p) in
      res_bind (res_map_err BackendFailed
        (be_encrypt env (sp_storage_key p) Aes256Gcm seed (custody_aad c RECORD_VERSION))) (\<lambda>e.
      let r = \<lparr>cr_schema_version = CUSTODY_SCHEMA_VERSION, cr_key_id = sp_key_id p,
               cr_key_version = RECORD_VERSION, cr_public_key = b64_encode env pub,
               cr_algorithm = sp_algorithm_token p, cr_provider = provider_token LocalSoftware,
               cr_provider_version = PROVIDER_VERSION, cr_custody = custody_token SoftwareEncrypted,
               cr_encrypted_private_key =
                 \<lparr>ep_wrapping_key = sp_storage_key p, ep_algorithm = aead_token (env_alg e),
                  ep_key_version = env_key_version e, ep_nonce = b64_encode env (env_nonce e),
                  ep_ciphertext = b64_encode env (env_ciphertext e)\<rparr>\<rparr>
      in res_bind (ok_or (json_text env (record_json r))
           (CryptoFailed LocalSoftware (sp_op p) (sp_algorithm_token p)
             ''software-custody record serialization failed'')) (\<lambda>bytes.
         Inr (sp_backend_path p, bytes, pub))))"

text \<open>\<open>generate_key\<close> of the local-software provider; the seed is what the system draws.\<close>

definition local_generate_key ::
  "ProviderEnv \<Rightarrow> u8 list \<Rightarrow> string \<Rightarrow> string \<Rightarrow> SignatureAlgorithm \<Rightarrow> string option
    \<Rightarrow> ProviderError + string \<times> string \<times> u8 list" where
  "local_generate_key env seed key_id backend_path algorithm storage_key =
     (if \<not> is_ml_dsa algorithm
      then Inl (Unsupported LocalSoftware ''generate_key'' (signature_algorithm_name algorithm))
      else
        let tok = signature_algorithm_name algorithm in
        res_bind (ok_or storage_key (CryptoFailed LocalSoftware ''generate_key'' tok
          ''software-custody key is missing its storage AEAD key'')) (\<lambda>sk.
        res_bind (ok_or (mldsa_public env algorithm seed)
          (CryptoFailed LocalSoftware ''generate_key'' tok ''ml-dsa key generation failed'')) (\<lambda>pk.
        seal_and_store env
          \<lparr>sp_op = ''generate_key'', sp_key_id = key_id, sp_backend_path = backend_path,
           sp_algorithm_token = tok, sp_storage_key = sk\<rparr> seed pk)))"

definition local_sign ::
  "ProviderEnv \<Rightarrow> string \<Rightarrow> string \<Rightarrow> SignatureAlgorithm \<Rightarrow> u8 list \<Rightarrow> string option \<Rightarrow> ProviderError + u8 list" where
  "local_sign env key_id backend_path algorithm message storage_key =
     (if \<not> is_ml_dsa algorithm
      then Inl (Unsupported LocalSoftware ''sign'' (signature_algorithm_name algorithm))
      else
        let tok = signature_algorithm_name algorithm in
        res_bind (material env key_id backend_path storage_key ''sign'' tok) (\<lambda>m.
        res_bind (materialize_seed env m) (\<lambda>seed.
        ok_or (mldsa_sign env algorithm seed message)
          (CryptoFailed LocalSoftware ''sign'' tok ''ml-dsa signing failed''))))"

definition local_verify ::
  "ProviderEnv \<Rightarrow> string \<Rightarrow> string \<Rightarrow> SignatureAlgorithm \<Rightarrow> u8 list \<Rightarrow> u8 list \<Rightarrow> string option \<Rightarrow> ProviderError + bool" where
  "local_verify env key_id backend_path algorithm message signature storage_key =
     (if \<not> is_ml_dsa algorithm
      then Inl (Unsupported LocalSoftware ''verify'' (signature_algorithm_name algorithm))
      else
        let tok = signature_algorithm_name algorithm in
        res_bind (material env key_id backend_path storage_key ''verify'' tok) (\<lambda>m.
        ok_or (mldsa_verify env algorithm (lm_public_key m) message signature)
          (CryptoFailed LocalSoftware ''verify'' tok ''malformed verification input'')))"


section \<open>The associated data binds every field\<close>

abbreviation newline :: char where "newline \<equiv> CHR 0x0A"

lemma line_split:
  assumes "newline \<notin> set a" and "newline \<notin> set b"
  shows "a @ newline # s = b @ newline # t \<longleftrightarrow> a = b \<and> s = t"
proof -
  have "split_once newline (a @ newline # s) = Some (a, s)"
    using assms by (subst split_once_Some) simp
  moreover have "split_once newline (b @ newline # t) = Some (b, t)"
    using assms by (subst split_once_Some) simp
  ultimately show ?thesis by (metis option.inject prod.inject)
qed

lemma digit_char_code: "d < 10 \<Longrightarrow> byte_of (digit_char d) = 48 + d"
  by (simp only: digit_char_def byte_of_def if_True of_char_of) (rule mod_less, simp)

lemma digit_char_inj: "a < 10 \<Longrightarrow> b < 10 \<Longrightarrow> digit_char a = digit_char b \<longleftrightarrow> a = b"
  by (metis add_left_cancel digit_char_code)

lemma digit_char_no_newline:
  assumes "d < 10"
  shows "digit_char d \<noteq> newline"
proof -
  have n: "byte_of newline = 10" by (simp add: byte_of_def)
  show ?thesis
  proof
    assume "digit_char d = newline"
    with digit_char_code [OF assms] n show False by simp
  qed
qed

lemma show_decimal: "show_base 10 n = (if n < 10 then [digit_char n] else show_base 10 (n div 10) @ [digit_char (n mod 10)])"
  by (simp add: show_base.simps [of 10 n])

lemma show_nat_no_newline: "newline \<notin> set (show_nat n)"
  unfolding show_nat_def
proof (induction n rule: less_induct)
  case (less n)
  show ?case
  proof (cases "n < 10")
    case False
    then have "newline \<notin> set (show_base 10 (n div 10))" using less by simp
    moreover have "digit_char (n mod 10) \<noteq> newline" by (rule digit_char_no_newline) simp
    ultimately show ?thesis using False by (subst show_decimal) auto
  qed (use digit_char_no_newline [of n] in \<open>subst show_decimal, auto\<close>)
qed

lemma show_base_not_Nil: "show_base b n \<noteq> []"
  by (subst show_base.simps) simp

lemma show_nat_inj: "show_nat m = show_nat n \<longleftrightarrow> m = n"
  unfolding show_nat_def
proof (induction m arbitrary: n rule: less_induct)
  case (less m)
  show ?case
  proof (cases "m < 10 \<or> n < 10")
    case True
    then show ?thesis
      using show_base_not_Nil [of 10 "m div 10"] show_base_not_Nil [of 10 "n div 10"]
      by (auto simp: show_decimal [of m] show_decimal [of n] digit_char_inj Cons_eq_append_conv
          append_eq_Cons_conv)
  next
    case False
    have "show_base 10 m = show_base 10 n \<longleftrightarrow>
        show_base 10 (m div 10) = show_base 10 (n div 10) \<and> digit_char (m mod 10) = digit_char (n mod 10)"
      using False by (simp add: show_decimal [of m] show_decimal [of n])
    also have "\<dots> \<longleftrightarrow> m div 10 = n div 10 \<and> m mod 10 = n mod 10"
      using less.IH [of "m div 10"] False by (simp add: digit_char_inj)
    also have "\<dots> \<longleftrightarrow> m = n" by (metis div_mult_mod_eq)
    finally show ?thesis .
  qed
qed

text \<open>
  C21: The associated data under which a private seed is wrapped determines every field it
  was built from: with newline-free fields, equal associated data mean the same key id, key
  version, algorithm, provider, provider version, custody mode and storage key. A wrapped seed
  moved to another key, version or storage key therefore fails to unwrap.
\<close>

theorem custody_aad_injective:
  assumes "newline \<notin> set (sc_key_id c @ sc_algorithm c @ sc_provider c @ sc_provider_version c
      @ sc_custody c @ sc_storage_key c)"
    and "newline \<notin> set (sc_key_id d @ sc_algorithm d @ sc_provider d @ sc_provider_version d
      @ sc_custody d @ sc_storage_key d)"
  shows "custody_aad c v = custody_aad d w \<longleftrightarrow> c = d \<and> v = w"
proof
  assume eq: "custody_aad c v = custody_aad d w"
  have n: "newline \<notin> set (sc_key_id c)" "newline \<notin> set (sc_algorithm c)" "newline \<notin> set (sc_provider c)"
    "newline \<notin> set (sc_provider_version c)" "newline \<notin> set (sc_custody c)" "newline \<notin> set (sc_storage_key c)"
    "newline \<notin> set (sc_key_id d)" "newline \<notin> set (sc_algorithm d)" "newline \<notin> set (sc_provider d)"
    "newline \<notin> set (sc_provider_version d)" "newline \<notin> set (sc_custody d)" "newline \<notin> set (sc_storage_key d)"
    using assms by auto
  have "c = d" and "v = w"
    using eq n by (simp_all add: custody_aad_def line_split show_nat_no_newline show_nat_inj)
  then show "c = d \<and> v = w" by simp
qed simp


section \<open>Generated records are usable\<close>

lemma as_u64_int: "n \<le> u32_max \<Longrightarrow> as_u64 (JInt (int n)) = Some n"
  by (simp add: u32_max_def)

lemma private_key_roundtrip:
  "ep_key_version k \<le> u32_max \<Longrightarrow> private_key_from_json (private_key_json k) = Some k"
  by (cases k) (simp add: private_key_from_json_def private_key_json_def struct_members_object
      str_member_def u32_member_def u64_member_def member_def as_u64_int del: as_u64.simps)

lemma record_roundtrip:
  assumes "cr_schema_version r \<le> u32_max" and "cr_key_version r \<le> u32_max"
    and "ep_key_version (cr_encrypted_private_key r) \<le> u32_max"
  shows "record_from_json (record_json r) = Some r"
  using assms
  by (cases r) (simp add: record_from_json_def record_json_def struct_members_object
      str_member_def u32_member_def u64_member_def member_def as_u64_int private_key_roundtrip
      del: as_u64.simps)

text \<open>What the provider relies on of its codecs and of the AEAD of the backend.\<close>

definition codecs_ok :: "ProviderEnv \<Rightarrow> bool" where
  "codecs_ok env \<longleftrightarrow>
     (\<forall>x. b64_decode env (b64_encode env x) = Some x) \<and>
     (\<forall>x. x \<noteq> [] \<longrightarrow> b64_encode env x \<noteq> []) \<and>
     (\<forall>v t. json_text env v = Some t \<longrightarrow> json_parse env t = Some v)"

definition aead_ok :: "ProviderEnv \<Rightarrow> bool" where
  "aead_ok env \<longleftrightarrow>
     (\<forall>k a p aad e. be_encrypt env k a p aad = Inr e \<longrightarrow>
        be_decrypt env k e aad = Inr p \<and> 1 \<le> env_key_version e \<and> env_key_version e \<le> u32_max)"

lemma parse_storage_token: "parse_storage_aead (aead_token a) = Inr a"
  by (cases a) (simp_all add: parse_storage_aead_def)

lemma sealed_record_material:
  assumes "codecs_ok env" and "aead_ok env" and "seal_and_store env p seed pub = Inr (path, bytes, pk)"
    and "pub \<noteq> []"
  shows "path = sp_backend_path p \<and> pk = pub \<and>
    (\<exists>e. parse_for_local_software env bytes (sp_key_id p) (sp_algorithm_token p) PROVIDER_VERSION v (sp_storage_key p) =
      (if v = RECORD_VERSION
       then Inr \<lparr>lm_ciphertext = e,
              lm_aad = custody_aad (local_catalog (sp_key_id p) (sp_algorithm_token p) PROVIDER_VERSION (sp_storage_key p)) RECORD_VERSION,
              lm_storage_key = sp_storage_key p, lm_public_key = pub, lm_key_version = v\<rparr>
       else Inl (MetadataMismatch ''key_version'')) \<and>
     be_decrypt env (sp_storage_key p) e
       (custody_aad (local_catalog (sp_key_id p) (sp_algorithm_token p) PROVIDER_VERSION (sp_storage_key p)) RECORD_VERSION)
       = Inr seed)"
proof -
  let ?c = "local_catalog (sp_key_id p) (sp_algorithm_token p) PROVIDER_VERSION (sp_storage_key p)"
  obtain e where e: "be_encrypt env (sp_storage_key p) Aes256Gcm seed (custody_aad ?c RECORD_VERSION) = Inr e"
    using assms(3) by (auto simp: seal_and_store_def Let_def)
  define r where "r = \<lparr>cr_schema_version = CUSTODY_SCHEMA_VERSION, cr_key_id = sp_key_id p,
               cr_key_version = RECORD_VERSION, cr_public_key = b64_encode env pub,
               cr_algorithm = sp_algorithm_token p, cr_provider = provider_token LocalSoftware,
               cr_provider_version = PROVIDER_VERSION, cr_custody = custody_token SoftwareEncrypted,
               cr_encrypted_private_key =
                 \<lparr>ep_wrapping_key = sp_storage_key p, ep_algorithm = aead_token (env_alg e),
                  ep_key_version = env_key_version e, ep_nonce = b64_encode env (env_nonce e),
                  ep_ciphertext = b64_encode env (env_ciphertext e)\<rparr>\<rparr>"
  have b: "json_text env (record_json r) = Some bytes" "path = sp_backend_path p" "pk = pub"
    using assms(3) e by (auto simp: seal_and_store_def Let_def r_def)
  have d: "be_decrypt env (sp_storage_key p) e (custody_aad ?c RECORD_VERSION) = Inr seed"
    and ver: "1 \<le> env_key_version e" "env_key_version e \<le> u32_max"
    using assms(2) e unfolding aead_ok_def by blast+
  have "record_from_json (record_json r) = Some r"
    by (rule record_roundtrip)
      (use ver in \<open>simp_all add: r_def CUSTODY_SCHEMA_VERSION_def RECORD_VERSION_def u32_max_def\<close>)
  moreover have "json_parse env bytes = Some (record_json r)"
    using assms(1) b(1) unfolding codecs_ok_def by blast
  ultimately have "ok_or (Option.bind (json_parse env bytes) record_from_json) RecMalformed = Inr r"
    by simp
  moreover have "validate_metadata env r ?c v =
      (if v = RECORD_VERSION then Inr () else Inl (MetadataMismatch ''key_version''))"
    using assms(1,4) ver(1) by (auto simp: validate_metadata_def r_def local_catalog_def codecs_ok_def)
  moreover have "encrypted_private_key env r = Inr e"
    using assms(1) by (simp add: encrypted_private_key_def r_def Let_def parse_storage_token
        decode_b64_def codecs_ok_def ok_or_def)
  moreover have "decode_b64 env (cr_public_key r) = Inr pub"
    using assms(1) by (simp add: decode_b64_def r_def codecs_ok_def)
  moreover have "cr_key_version r = RECORD_VERSION" by (simp add: r_def)
  ultimately have "parse_for_local_software env bytes (sp_key_id p) (sp_algorithm_token p) PROVIDER_VERSION v (sp_storage_key p) =
      (if v = RECORD_VERSION
       then Inr \<lparr>lm_ciphertext = e, lm_aad = custody_aad ?c RECORD_VERSION,
              lm_storage_key = sp_storage_key p, lm_public_key = pub, lm_key_version = v\<rparr>
       else Inl (MetadataMismatch ''key_version''))"
    by (cases "v = RECORD_VERSION") (simp_all add: parse_for_local_software_def Let_def ok_or_def)
  then show ?thesis using b d by blast
qed

text \<open>
  C20: A key generated by the local-software provider signs with exactly the seed that was
  drawn, for every message, when the store files the record it was given as version 1. When
  the store files it under any other version, every later signature of the key is refused as a
  malformed record, although the generation was reported as successful: a path that ever held
  a version before cannot be provisioned again.
\<close>

theorem generated_key_signs_iff_first_version:
  assumes "codecs_ok env" and "aead_ok env"
    and "\<forall>a s. mldsa_public env a s \<noteq> Some []"
    and "local_generate_key env seed key_id path algorithm (Some sk) = Inr (path', bytes, pk)"
    and "be_kv_get env path = Inr (bytes, v)"
  shows "path' = path \<and> mldsa_public env algorithm seed = Some pk \<and>
    local_sign env key_id path algorithm message (Some sk) =
      (if v = 1
       then ok_or (mldsa_sign env algorithm seed message)
         (CryptoFailed LocalSoftware ''sign'' (signature_algorithm_name algorithm) ''ml-dsa signing failed'')
       else Inl (CryptoFailed LocalSoftware ''sign'' (signature_algorithm_name algorithm)
         ''malformed software-custody record''))"
proof -
  let ?tok = "signature_algorithm_name algorithm"
  let ?p = "\<lparr>sp_op = ''generate_key'', sp_key_id = key_id, sp_backend_path = path,
     sp_algorithm_token = ?tok, sp_storage_key = sk\<rparr>"
  have alg: "is_ml_dsa algorithm"
    using assms(4) by (auto simp: local_generate_key_def split: if_splits)
  obtain pub where pub: "mldsa_public env algorithm seed = Some pub"
    and st: "seal_and_store env ?p seed pub = Inr (path', bytes, pk)"
    using assms(4) alg by (auto simp: local_generate_key_def Let_def)
  have "pub \<noteq> []" using assms(3) pub by auto
  then obtain e where m: "path' = path" "pk = pub"
    "parse_for_local_software env bytes key_id ?tok PROVIDER_VERSION v sk =
      (if v = RECORD_VERSION
       then Inr \<lparr>lm_ciphertext = e, lm_aad = custody_aad (local_catalog key_id ?tok PROVIDER_VERSION sk) RECORD_VERSION,
              lm_storage_key = sk, lm_public_key = pub, lm_key_version = v\<rparr>
       else Inl (MetadataMismatch ''key_version''))"
    "be_decrypt env sk e (custody_aad (local_catalog key_id ?tok PROVIDER_VERSION sk) RECORD_VERSION) = Inr seed"
    using sealed_record_material [OF assms(1,2) st, of v] unfolding SealParams.select_convs by blast
  show ?thesis
    using m pub alg assms(5)
    by (auto simp: local_sign_def Let_def material_def ok_or_def res_map_err_def materialize_seed_def
        RECORD_VERSION_def)
qed


section \<open>A concrete provider\<close>

definition demo_wrapped :: CiphertextEnvelope where
  "demo_wrapped = \<lparr>env_alg = Aes256Gcm, env_key_version = 1, env_nonce = [7], env_ciphertext = [9]\<rparr>"

definition demo_record :: Json where
  "demo_record = record_json
     \<lparr>cr_schema_version = 1, cr_key_id = ''pq'', cr_key_version = 1, cr_public_key = [char_of (65 :: nat)],
      cr_algorithm = ''ml-dsa-65'', cr_provider = ''local-software'', cr_provider_version = ''1'',
      cr_custody = ''software-encrypted'',
      cr_encrypted_private_key =
        \<lparr>ep_wrapping_key = ''wrap'', ep_algorithm = ''aes-256-gcm'', ep_key_version = 1,
         ep_nonce = [char_of (7 :: nat)], ep_ciphertext = [char_of (9 :: nat)]\<rparr>\<rparr>"

definition demo_provider :: "nat \<Rightarrow> ProviderEnv" where
  "demo_provider v = \<lparr>
     b64_encode = map (\<lambda>b. char_of (unat b)), b64_decode = (\<lambda>s. Some (bytes_of s)),
     json_text = (\<lambda>j. if j = demo_record then Some ''doc'' else None),
     json_parse = (\<lambda>t. if t = ''doc'' then Some demo_record else None),
     be_encrypt = (\<lambda>k a p aad. if p = [1, 2] then Inr demo_wrapped else Inl ''refused''),
     be_decrypt = (\<lambda>k e aad. if e = demo_wrapped then Inr [1, 2] else Inl ''refused''),
     be_kv_get = (\<lambda>path. if path = ''kv/pq'' then Inr (''doc'', v) else Inl ''missing''),
     mldsa_public = (\<lambda>a s. Some [65]), mldsa_sign = (\<lambda>a s m. Some (s @ m)),
     mldsa_verify = (\<lambda>a p m s. Some True)\<rparr>"

lemma demo_codecs: "codecs_ok (demo_provider v)"
proof -
  have "unat b mod 256 = unat b" for b :: u8
    using unsigned_less [of b, where 'a = nat] by simp
  then have "bytes_of (map (\<lambda>b. char_of (unat b)) x) = x" for x :: "u8 list"
    by (induction x) (simp_all add: bytes_of_def byte_of_def)
  then show ?thesis by (simp add: codecs_ok_def demo_provider_def)
qed

lemma demo_aead: "aead_ok (demo_provider v)"
  by (simp add: aead_ok_def demo_provider_def demo_wrapped_def u32_max_def)

lemma demo_generate:
  "local_generate_key (demo_provider v) [1, 2] ''pq'' ''kv/pq'' SaMlDsa65 (Some ''wrap'') =
     Inr (''kv/pq'', ''doc'', [65])"
  by (simp add: local_generate_key_def is_ml_dsa_def Let_def seal_and_store_def demo_provider_def
      demo_record_def demo_wrapped_def ok_or_def res_map_err_def CUSTODY_SCHEMA_VERSION_def
      RECORD_VERSION_def PROVIDER_VERSION_def)

lemma generated_key_signs_iff_first_version_witness:
  "local_sign (demo_provider 1) ''pq'' ''kv/pq'' SaMlDsa65 [5] (Some ''wrap'') = Inr [1, 2, 5] \<and>
   local_sign (demo_provider 2) ''pq'' ''kv/pq'' SaMlDsa65 [5] (Some ''wrap'') =
     Inl (CryptoFailed LocalSoftware ''sign'' ''ml-dsa-65'' ''malformed software-custody record'')"
proof -
  have p: "\<forall>a s. mldsa_public (demo_provider v) a s \<noteq> Some []" for v
    by (simp add: demo_provider_def)
  have k: "be_kv_get (demo_provider v) ''kv/pq'' = Inr (''doc'', v)" for v
    by (simp add: demo_provider_def)
  show ?thesis
    using generated_key_signs_iff_first_version [OF demo_codecs demo_aead p demo_generate k, of 1 "[5]"]
      generated_key_signs_iff_first_version [OF demo_codecs demo_aead p demo_generate k, of 2 "[5]"]
    by (simp add: demo_provider_def ok_or_def)
qed

lemma custody_aad_injective_witness:
  "custody_aad (local_catalog ''a'' ''ml-dsa-44'' ''1'' ''w'') 1 \<noteq>
   custody_aad (local_catalog ''b'' ''ml-dsa-44'' ''1'' ''w'') 1"
  using custody_aad_injective [of "local_catalog ''a'' ''ml-dsa-44'' ''1'' ''w''"
      "local_catalog ''b'' ''ml-dsa-44'' ''1'' ''w''" 1 1]
  by (simp add: local_catalog_def)

end
