(* ===== verification/Federation.thy ===== *)
theory Federation
  imports Crypto_Provider Run_Quota Listener
begin

text \<open>
  Provider rules and token verification of CI federation (\<open>core/ci_federation.rs\<close>): the rule
  catalog with its validation, overlap test and pinned trust roots, the selection of a rule,
  and the verification of GitHub and Forgejo tokens.

  What is not the repository's own code is a field of \<open>FedEnv\<close>: the URL parser, the JWT
  library, SHA-256, HMAC, base64, the JSON and PEM parsers, and the outcomes of opening and
  reading the files of a trust-root bundle. Times are seconds of the Unix epoch.

  Results: a constructed catalog never selects ambiguously; at most one of its rules verifies
  a given token, so the outcome of the scan does not depend on the order of the rules; the
  window in which one token is accepted, against the retention of its quota bucket; no
  artifact target of an accepted catalog is ever served from software custody; what an
  accepted trust-root bundle guarantees.
\<close>

section \<open>Constants\<close>

definition MAX_TOKEN_BYTES :: nat where "MAX_TOKEN_BYTES = 32 * 1024"
definition MAX_AUDIT_SHORT_BYTES :: nat where "MAX_AUDIT_SHORT_BYTES = 128"
definition MAX_AUDIT_TEXT_BYTES :: nat where "MAX_AUDIT_TEXT_BYTES = 256"
definition MAX_AUDIT_WORKFLOW_BYTES :: nat where "MAX_AUDIT_WORKFLOW_BYTES = 512"
definition MAX_PROVIDER_URL_BYTES :: nat where "MAX_PROVIDER_URL_BYTES = 512"
definition GITHUB_ISSUER :: string where "GITHUB_ISSUER = ''https://token.actions.githubusercontent.com''"
definition FORGEJO_ISSUER_PATH :: string where "FORGEJO_ISSUER_PATH = ''/api/actions''"
definition FORGEJO_EVENT :: string where "FORGEJO_EVENT = ''push''"
definition MAX_FORGEJO_GRANT_SECS :: nat where "MAX_FORGEJO_GRANT_SECS = 15 * 60"
definition MAX_RULE_ID_BYTES :: nat where "MAX_RULE_ID_BYTES = 128"
definition MAX_SUBJECT_BYTES :: nat where "MAX_SUBJECT_BYTES = 256"
definition MAX_AUDIENCE_BYTES :: nat where "MAX_AUDIENCE_BYTES = 256"
definition MAX_OPERATION_PROFILES :: nat where "MAX_OPERATION_PROFILES = 32"
definition MAX_ARTIFACT_SIGN_KEY_IDS :: nat where "MAX_ARTIFACT_SIGN_KEY_IDS = 64"
definition MAX_PROVIDER_RULES :: nat where "MAX_PROVIDER_RULES = 64"
definition MAX_CA_BUNDLE_BYTES :: nat where "MAX_CA_BUNDLE_BYTES = 256 * 1024"
definition MAX_CA_CERTIFICATES :: nat where "MAX_CA_CERTIFICATES = 64"
definition AUDIENCE_PREFIX :: string where "AUDIENCE_PREFIX = ''urn:basil:ci:jkt:''"

section \<open>Rules\<close>

datatype FederationError =
    Oversized string
  | Malformed
  | ProviderRejected
  | UnsupportedArtifactSignTarget
  | DuplicateKid
  | InvalidKey
  | TokenRejected
  | InvalidUrl
  | InvalidCaBundle
  | InvalidCachePolicy
  | RedirectRejected
  | FetchRejected
  | ExperimentalProviderDisabled string
  | DuplicateRuleId
  | OverlappingRules
  | NoMatchingRule
  | AmbiguousRule
  | CorrelationUnavailable
  | MissingRunQuota string
  | InvalidRunQuota string

record GithubActionsRule =
  ga_issuer :: string
  ga_discovery_url :: string
  ga_jwks_url :: string
  ga_ca_bundle_path :: "PathBuf option"
  ga_audience_prefix :: string
  ga_repository_id :: nat
  ga_repository_owner_id :: nat
  ga_job_workflow_ref :: string
  ga_job_workflow_sha :: string
  ga_protected_refs :: "string list"
  ga_events :: "string list"
  ga_runner_environments :: "string list"
  ga_environment :: "string option"
  ga_max_token_age_secs :: nat
  ga_clock_skew_secs :: nat

record ForgejoActionsRule =
  fa_issuer :: string
  fa_discovery_url :: string
  fa_jwks_url :: string
  fa_ca_bundle_path :: "PathBuf option"
  fa_audience_prefix :: string
  fa_repository_id :: nat
  fa_repository_owner_id :: nat
  fa_workflow_ref :: string
  fa_ref_name :: string
  fa_ref_type :: string
  fa_sha :: string
  fa_run_id :: nat
  fa_run_attempt :: nat
  fa_not_before_unix :: nat
  fa_expires_at_unix :: nat
  fa_max_token_age_secs :: nat
  fa_clock_skew_secs :: nat

datatype ProviderKind = GithubActions | ForgejoActions

datatype ProviderOperationProfile = ArtifactSign

fun config_name :: "ProviderKind \<Rightarrow> string" where
  "config_name GithubActions = ''githubActions''"
| "config_name ForgejoActions = ''forgejoActions''"

fun is_experimental :: "ProviderKind \<Rightarrow> bool" where
  "is_experimental GithubActions = False"
| "is_experimental ForgejoActions = True"

datatype ProviderConfig = PcGithub GithubActionsRule | PcForgejo ForgejoActionsRule

record ProviderRule =
  pr_id :: string
  pr_subject :: string
  pr_audience :: string
  pr_operation_profiles :: "ProviderOperationProfile list"
  pr_artifact_sign_key_ids :: "string list"
  pr_max_token_age_secs :: nat
  pr_clock_skew_secs :: nat
  pr_max_operations_per_run :: "nat option"
  pr_provider :: ProviderConfig

fun provider_kind :: "ProviderConfig \<Rightarrow> ProviderKind" where
  "provider_kind (PcGithub _) = GithubActions"
| "provider_kind (PcForgejo _) = ForgejoActions"

fun provider_issuer :: "ProviderConfig \<Rightarrow> string" where
  "provider_issuer (PcGithub r) = ga_issuer r"
| "provider_issuer (PcForgejo r) = fa_issuer r"

fun provider_discovery_url :: "ProviderConfig \<Rightarrow> string" where
  "provider_discovery_url (PcGithub r) = ga_discovery_url r"
| "provider_discovery_url (PcForgejo r) = fa_discovery_url r"

fun provider_jwks_url :: "ProviderConfig \<Rightarrow> string" where
  "provider_jwks_url (PcGithub r) = ga_jwks_url r"
| "provider_jwks_url (PcForgejo r) = fa_jwks_url r"

fun provider_ca_bundle_path :: "ProviderConfig \<Rightarrow> PathBuf option" where
  "provider_ca_bundle_path (PcGithub r) = ga_ca_bundle_path r"
| "provider_ca_bundle_path (PcForgejo r) = fa_ca_bundle_path r"

fun rule_time_bounds :: "ProviderConfig \<Rightarrow> nat \<times> nat" where
  "rule_time_bounds (PcGithub r) = (ga_max_token_age_secs r, ga_clock_skew_secs r)"
| "rule_time_bounds (PcForgejo r) = (fa_max_token_age_secs r, fa_clock_skew_secs r)"

section \<open>The outside world\<close>

record Url =
  u_scheme :: string
  u_username :: string
  u_password :: "string option"
  u_query :: "string option"
  u_fragment :: "string option"
  u_origin :: string
  u_path :: string
  u_text :: string

record CaFileIdentity =
  ca_device :: nat
  ca_inode :: nat
  ca_length :: nat
  ca_modified :: "int \<times> int"
  ca_changed :: "int \<times> int"

record FileMeta =
  fm_is_dir :: bool
  fm_is_file :: bool
  fm_uid :: nat
  fm_mode :: nat
  fm_nlink :: nat
  fm_identity :: CaFileIdentity

record RsaJwk =
  jwk_kid :: string
  jwk_n :: string
  jwk_e :: string

datatype JwtAlgorithm = RS256 | OtherJwtAlgorithm

record FedEnv =
  fe_url :: "string \<Rightarrow> Url option"
  fe_jwt_header :: "string \<Rightarrow> (JwtAlgorithm \<times> string option) option"
  fe_jwt_decode :: "string \<Rightarrow> RsaJwk \<Rightarrow> string \<Rightarrow> string \<Rightarrow> Json option"
  fe_sha256 :: "u8 list \<Rightarrow> u8 list"
  fe_hmac :: "u8 list \<Rightarrow> u8 list \<Rightarrow> (u8 list) option"
  fe_b64url :: "u8 list \<Rightarrow> string"
  fe_b64url_decode :: "string \<Rightarrow> (u8 list) option"
  fe_json :: "string \<Rightarrow> Json option"
  fe_euid :: nat
  fe_open_dir :: "string list \<Rightarrow> FileMeta option"
  fe_open_leaf :: "string list \<Rightarrow> FileMeta option"
  fe_read :: "string list \<Rightarrow> (u8 list) option"
  fe_meta_after :: "string list \<Rightarrow> FileMeta option"
  fe_pem :: "u8 list \<Rightarrow> (u8 list \<times> string \<times> u8 list) option"
  fe_x509 :: "u8 list \<Rightarrow> (u8 list) option"
  fe_certificate :: "u8 list \<Rightarrow> bool"

section \<open>Validation of a rule\<close>

definition validate_github_rule :: "GithubActionsRule \<Rightarrow> FederationError + unit" where
  "validate_github_rule r =
     (if ga_issuer r \<noteq> GITHUB_ISSUER \<or> ga_audience_prefix r \<noteq> AUDIENCE_PREFIX
         \<or> ga_repository_id r = 0 \<or> ga_repository_owner_id r = 0
         \<or> ga_job_workflow_ref r = [] \<or> ga_job_workflow_sha r = []
         \<or> ga_protected_refs r = [] \<or> ga_events r = [] \<or> ga_runner_environments r = []
         \<or> ga_max_token_age_secs r = 0 \<or> ga_max_token_age_secs r > 15 * 60
         \<or> ga_clock_skew_secs r > 5 * 60
      then Inl ProviderRejected else Inr ())"

definition ends_with :: "string \<Rightarrow> string \<Rightarrow> bool" where
  "ends_with p s \<longleftrightarrow> strip_suffix p s \<noteq> None"

definition ref_consistent :: "ForgejoActionsRule \<Rightarrow> bool" where
  "ref_consistent r \<longleftrightarrow>
     (if fa_ref_type r = ''branch'' then starts_with ''refs/heads/'' (fa_ref_name r)
      else if fa_ref_type r = ''tag'' then starts_with ''refs/tags/'' (fa_ref_name r)
      else False)"

definition sha_ok :: "string \<Rightarrow> bool" where
  "sha_ok s \<longleftrightarrow> (length s = 40 \<or> length s = 64) \<and>
     list_all (\<lambda>b. is_ascii_digit b \<or> (97 \<le> byte_of b \<and> byte_of b \<le> 102)) s"

definition validate_forgejo_rule :: "FedEnv \<Rightarrow> ForgejoActionsRule \<Rightarrow> FederationError + unit" where
  "validate_forgejo_rule env r =
     (if \<not> (case fe_url env (fa_issuer r) of
              Some u \<Rightarrow> ends_with FORGEJO_ISSUER_PATH (u_path u) | None \<Rightarrow> False)
         \<or> fa_audience_prefix r \<noteq> AUDIENCE_PREFIX
         \<or> fa_repository_id r = 0 \<or> fa_repository_owner_id r = 0 \<or> fa_workflow_ref r = []
         \<or> \<not> ref_consistent r \<or> \<not> sha_ok (fa_sha r)
         \<or> fa_run_id r = 0 \<or> fa_run_attempt r = 0
         \<or> fa_not_before_unix r \<ge> fa_expires_at_unix r
         \<or> fa_expires_at_unix r - fa_not_before_unix r > MAX_FORGEJO_GRANT_SECS
         \<or> fa_max_token_age_secs r = 0 \<or> fa_max_token_age_secs r > 15 * 60
         \<or> fa_clock_skew_secs r > 5 * 60
      then Inl ProviderRejected else Inr ())"

definition trim_end_slashes :: "string \<Rightarrow> string" where
  "trim_end_slashes s = rev (dropWhile (\<lambda>c. c = CHR ''/'') (rev s))"

definition url_refused :: "Url \<Rightarrow> bool" where
  "url_refused u \<longleftrightarrow> u_scheme u \<noteq> ''https'' \<or> u_username u \<noteq> [] \<or> u_password u \<noteq> None
     \<or> u_query u \<noteq> None \<or> u_fragment u \<noteq> None"

definition validate_urls :: "FedEnv \<Rightarrow> string \<Rightarrow> string \<Rightarrow> string \<Rightarrow> FederationError + unit" where
  "validate_urls env issuer discovery jwks =
     (if list_ex (\<lambda>v. length v > MAX_PROVIDER_URL_BYTES) [issuer, discovery, jwks] then Inl InvalidUrl
      else
        res_bind (ok_or (fe_url env issuer) InvalidUrl) (\<lambda>iu.
        res_bind (ok_or (fe_url env discovery) InvalidUrl) (\<lambda>du.
        res_bind (ok_or (fe_url env jwks) InvalidUrl) (\<lambda>ju.
        if list_ex url_refused [iu, du, ju] \<or> u_origin iu \<noteq> u_origin du \<or> u_origin du \<noteq> u_origin ju
           \<or> trim_end_slashes issuer \<noteq> trim_end_slashes (u_text iu)
        then Inl InvalidUrl else Inr ()))))"

definition provider_validate :: "FedEnv \<Rightarrow> ProviderConfig \<Rightarrow> FederationError + unit" where
  "provider_validate env p =
     res_bind (case p of PcGithub r \<Rightarrow> validate_github_rule r | PcForgejo r \<Rightarrow> validate_forgejo_rule env r) (\<lambda>_.
     validate_urls env (provider_issuer p) (provider_discovery_url p) (provider_jwks_url p))"

text \<open>\<open>KeyId::from_text\<close> of \<open>basil-cose\<close> fails exactly outside 1..=128 bytes.\<close>

fun target_ids_loop :: "string list \<Rightarrow> string list \<Rightarrow> FederationError + unit" where
  "target_ids_loop [] seen = Inr ()"
| "target_ids_loop (k # ks) seen =
     (if k = [] \<or> length k > 128 \<or> has_control k \<or> k \<in> set seen then Inl ProviderRejected
      else target_ids_loop ks (k # seen))"

definition validate_common_rule :: "ProviderRule \<Rightarrow> FederationError + unit" where
  "validate_common_rule r =
     (if pr_id r = [] \<or> length (pr_id r) > MAX_RULE_ID_BYTES
         \<or> pr_subject r = [] \<or> length (pr_subject r) > MAX_SUBJECT_BYTES
         \<or> pr_audience r = [] \<or> length (pr_audience r) > MAX_AUDIENCE_BYTES
         \<or> pr_operation_profiles r = [] \<or> length (pr_operation_profiles r) > MAX_OPERATION_PROFILES
         \<or> pr_artifact_sign_key_ids r = [] \<or> length (pr_artifact_sign_key_ids r) > MAX_ARTIFACT_SIGN_KEY_IDS
         \<or> pr_max_token_age_secs r = 0 \<or> pr_max_token_age_secs r > 15 * 60 \<or> pr_clock_skew_secs r > 5 * 60
      then Inl ProviderRejected
      else if list_ex has_control [pr_id r, pr_subject r, pr_audience r] then Inl ProviderRejected
      else if \<not> distinct (pr_operation_profiles r) then Inl ProviderRejected
      else if ArtifactSign \<notin> set (pr_operation_profiles r) then Inl ProviderRejected
      else res_bind (target_ids_loop (pr_artifact_sign_key_ids r) []) (\<lambda>_.
        case pr_max_operations_per_run r of
          None \<Rightarrow> Inl (MissingRunQuota (pr_id r))
        | Some n \<Rightarrow> if n = 0 then Inl (InvalidRunQuota (pr_id r)) else Inr ()))"

section \<open>Trust roots\<close>

definition mode_group_other_write :: "nat \<Rightarrow> bool" where
  "mode_group_other_write mode \<longleftrightarrow> mode AND 18 \<noteq> 0"


definition validate_ca_directory :: "FedEnv \<Rightarrow> FileMeta \<Rightarrow> FederationError + unit" where
  "validate_ca_directory env m =
     (if \<not> fm_is_dir m \<or> \<not> (fm_uid m = 0 \<or> fm_uid m = fe_euid env) \<or> mode_group_other_write (fm_mode m)
      then Inl InvalidCaBundle else Inr ())"

definition validate_ca_leaf :: "FedEnv \<Rightarrow> FileMeta \<Rightarrow> FederationError + unit" where
  "validate_ca_leaf env m =
     (if \<not> fm_is_file m \<or> fm_nlink m \<noteq> 1 \<or> (fm_uid m \<noteq> 0 \<and> fm_uid m \<noteq> fe_euid env)
         \<or> mode_group_other_write (fm_mode m)
      then Inl InvalidCaBundle else Inr ())"

text \<open>
  The component walk: every directory below the root is opened without following links and
  validated, and so is the leaf. The result names the opened file by its components.
\<close>

fun ca_walk :: "FedEnv \<Rightarrow> string list \<Rightarrow> Component list \<Rightarrow> FederationError + string list \<times> CaFileIdentity" where
  "ca_walk env done [] = Inl InvalidCaBundle"
| "ca_walk env done (c # cs) =
     (case c of
        Normal name \<Rightarrow>
          if cs = [] then
            res_bind (ok_or (fe_open_leaf env (done @ [name])) InvalidCaBundle) (\<lambda>m.
            res_bind (validate_ca_leaf env m) (\<lambda>_. Inr (done @ [name], fm_identity m)))
          else
            res_bind (ok_or (fe_open_dir env (done @ [name])) InvalidCaBundle) (\<lambda>m.
            res_bind (validate_ca_directory env m) (\<lambda>_. ca_walk env (done @ [name]) cs))
      | _ \<Rightarrow> Inl InvalidCaBundle)"

definition open_validated_ca_file :: "FedEnv \<Rightarrow> PathBuf \<Rightarrow> FederationError + string list \<times> CaFileIdentity" where
  "open_validated_ca_file env path =
     (case components path of
        RootDir # rest \<Rightarrow> if rest = [] then Inl InvalidCaBundle else ca_walk env [] rest
      | _ \<Rightarrow> Inl InvalidCaBundle)"

definition ascii_white :: "u8 \<Rightarrow> bool" where
  "ascii_white b \<longleftrightarrow> b \<in> {9, 10, 12, 13, 32}"

definition trim_ascii :: "u8 list \<Rightarrow> u8 list" where
  "trim_ascii bs = rev (dropWhile ascii_white (rev (dropWhile ascii_white bs)))"

definition BEGIN_CERTIFICATE :: "u8 list" where
  "BEGIN_CERTIFICATE = bytes_of ''-----BEGIN CERTIFICATE-----''"

text \<open>The loop of \<open>parse_certificate_only_pem\<close>: a turn that does not fail adds a certificate,
  and the 65th is refused, so it ends whatever the PEM parser leaves over.\<close>

function certificate_loop ::
  "FedEnv \<Rightarrow> u8 list \<Rightarrow> u8 list list \<Rightarrow> FederationError + u8 list list" where
  "certificate_loop env bytes certs =
     (let rem = trim_ascii bytes in
      if rem = [] then Inr certs
      else if take (length BEGIN_CERTIFICATE) rem \<noteq> BEGIN_CERTIFICATE then Inl InvalidCaBundle
      else case fe_pem env rem of
        None \<Rightarrow> Inl InvalidCaBundle
      | Some (rest, label, contents) \<Rightarrow>
          if label \<noteq> ''CERTIFICATE'' then Inl InvalidCaBundle
          else case fe_x509 env contents of
            None \<Rightarrow> Inl InvalidCaBundle
          | Some der_rest \<Rightarrow>
              if der_rest \<noteq> [] \<or> length certs \<ge> MAX_CA_CERTIFICATES then Inl InvalidCaBundle
              else if \<not> fe_certificate env contents then Inl InvalidCaBundle
              else certificate_loop env rest (certs @ [contents]))"
  by pat_completeness auto
termination
  by (relation "measure (\<lambda>(_, _, certs). MAX_CA_CERTIFICATES - length certs)") auto

declare certificate_loop.simps [simp del]

definition parse_certificate_only_pem :: "FedEnv \<Rightarrow> u8 list \<Rightarrow> FederationError + u8 list list" where
  "parse_certificate_only_pem env bytes =
     res_bind (certificate_loop env bytes []) (\<lambda>certs. if certs = [] then Inl InvalidCaBundle else Inr certs)"

record ResolvedProviderTrust =
  custom_roots :: "u8 list list option"
  pinned_file :: "(PathBuf \<times> CaFileIdentity) option"

definition resolve_provider_trust :: "FedEnv \<Rightarrow> ProviderConfig \<Rightarrow> FederationError + ResolvedProviderTrust" where
  "resolve_provider_trust env p =
     (case provider_ca_bundle_path p of
        None \<Rightarrow> Inr \<lparr>custom_roots = None, pinned_file = None\<rparr>
      | Some path \<Rightarrow>
          res_bind (open_validated_ca_file env path) (\<lambda>(leaf, before).
          if ca_length before = 0 \<or> ca_length before > MAX_CA_BUNDLE_BYTES then Inl InvalidCaBundle
          else
            res_bind (ok_or (fe_read env leaf) InvalidCaBundle) (\<lambda>content.
            let bytes = take (MAX_CA_BUNDLE_BYTES + 1) content in
            if bytes = [] \<or> length bytes > MAX_CA_BUNDLE_BYTES then Inl InvalidCaBundle
            else
              res_bind (ok_or (fe_meta_after env leaf) InvalidCaBundle) (\<lambda>m.
              if before \<noteq> fm_identity m \<or> ca_length before \<noteq> length bytes then Inl InvalidCaBundle
              else res_bind (parse_certificate_only_pem env bytes) (\<lambda>certs.
                Inr \<lparr>custom_roots = Some certs, pinned_file = Some (path, before)\<rparr>)))))"

definition trust_revalidate :: "FedEnv \<Rightarrow> ResolvedProviderTrust \<Rightarrow> FederationError + unit" where
  "trust_revalidate env t =
     (case pinned_file t of
        None \<Rightarrow> Inr ()
      | Some (path, pinned) \<Rightarrow>
          res_bind (open_validated_ca_file env path) (\<lambda>(_, current).
          if current \<noteq> pinned then Inl InvalidCaBundle else Inr ()))"

section \<open>The catalog\<close>

definition shares :: "string list \<Rightarrow> string list \<Rightarrow> bool" where
  "shares xs ys \<longleftrightarrow> list_ex (\<lambda>x. list_ex (\<lambda>y. y = x) ys) xs"

definition forgejo_rules_overlap :: "ForgejoActionsRule \<Rightarrow> ForgejoActionsRule \<Rightarrow> bool" where
  "forgejo_rules_overlap l r \<longleftrightarrow>
     fa_repository_id l = fa_repository_id r \<and> fa_repository_owner_id l = fa_repository_owner_id r \<and>
     fa_workflow_ref l = fa_workflow_ref r \<and> fa_ref_name l = fa_ref_name r \<and>
     fa_ref_type l = fa_ref_type r \<and> fa_sha l = fa_sha r \<and>
     fa_run_id l = fa_run_id r \<and> fa_run_attempt l = fa_run_attempt r"

definition github_rules_overlap :: "GithubActionsRule \<Rightarrow> GithubActionsRule \<Rightarrow> bool" where
  "github_rules_overlap l r \<longleftrightarrow>
     ga_repository_id l = ga_repository_id r \<and> ga_repository_owner_id l = ga_repository_owner_id r \<and>
     ga_job_workflow_ref l = ga_job_workflow_ref r \<and> ga_job_workflow_sha l = ga_job_workflow_sha r \<and>
     shares (ga_protected_refs l) (ga_protected_refs r) \<and> shares (ga_events l) (ga_events r) \<and>
     shares (ga_runner_environments l) (ga_runner_environments r)"

fun rules_overlap :: "ProviderConfig \<Rightarrow> ProviderConfig \<Rightarrow> bool" where
  "rules_overlap (PcGithub l) (PcGithub r) = github_rules_overlap l r"
| "rules_overlap (PcForgejo l) (PcForgejo r) = forgejo_rules_overlap l r"
| "rules_overlap _ _ = False"

record ProviderCatalog =
  pc_rules :: "ProviderRule list"
  pc_resolved_trust :: "(string, ResolvedProviderTrust) btree"

fun catalog_rules_loop ::
  "FedEnv \<Rightarrow> ProviderKind list \<Rightarrow> ProviderRule list \<Rightarrow> string list \<Rightarrow> FederationError + unit" where
  "catalog_rules_loop env experimental [] ids = Inr ()"
| "catalog_rules_loop env experimental (r # rs) ids =
     res_bind (validate_common_rule r) (\<lambda>_.
     if pr_id r \<in> set ids then Inl DuplicateRuleId
     else
       let kind = provider_kind (pr_provider r) in
       if is_experimental kind \<and> kind \<notin> set experimental
       then Inl (ExperimentalProviderDisabled (config_name kind))
       else
         res_bind (provider_validate env (pr_provider r)) (\<lambda>_.
         if (pr_max_token_age_secs r, pr_clock_skew_secs r) \<noteq> rule_time_bounds (pr_provider r)
         then Inl ProviderRejected
         else catalog_rules_loop env experimental rs (pr_id r # ids)))"

fun overlap_loop :: "ProviderRule list \<Rightarrow> FederationError + unit" where
  "overlap_loop [] = Inr ()"
| "overlap_loop (l # rs) =
     (if list_ex (\<lambda>r. rules_overlap (pr_provider l) (pr_provider r)) rs then Inl OverlappingRules
      else overlap_loop rs)"

definition with_experimental_providers ::
  "FedEnv \<Rightarrow> ProviderRule list \<Rightarrow> ProviderKind list \<Rightarrow> FederationError + ProviderCatalog" where
  "with_experimental_providers env rs experimental =
     (if length rs > MAX_PROVIDER_RULES then Inl (Oversized ''provider catalog'')
      else
        res_bind (catalog_rules_loop env experimental rs []) (\<lambda>_.
        res_bind (overlap_loop rs) (\<lambda>_.
        res_bind (res_collect (\<lambda>r. res_bind (resolve_provider_trust env (pr_provider r))
                    (\<lambda>t. Inr (pr_id r, t))) rs) (\<lambda>trust.
        Inr \<lparr>pc_rules = rs, pc_resolved_trust = bt_of_list trust\<rparr>))))"

definition ProviderCatalog_new :: "FedEnv \<Rightarrow> ProviderRule list \<Rightarrow> FederationError + ProviderCatalog" where
  "ProviderCatalog_new env rs = with_experimental_providers env rs []"

definition revalidate_trust :: "FedEnv \<Rightarrow> ProviderCatalog \<Rightarrow> FederationError + unit" where
  "revalidate_trust env c = res_each (trust_revalidate env) (map snd (pc_resolved_trust c))"

definition unsupported_target :: "KeyEntry \<Rightarrow> bool" where
  "unsupported_target key \<longleftrightarrow>
     (let m = metadata_from_key key in
      ke_key_type key \<in> {Some MlDsa44, Some MlDsa65, Some MlDsa87} \<or>
      pm_provider m = Some LocalSoftware \<or> pm_custody m = Some SoftwareEncrypted \<or>
      pm_policy m = PolicyLocalSoftware)"

definition validate_artifact_targets :: "ProviderCatalog \<Rightarrow> Catalog \<Rightarrow> FederationError + unit" where
  "validate_artifact_targets c catalog =
     res_each (\<lambda>target.
       case bt_get (keys catalog) target of
         None \<Rightarrow> Inr ()
       | Some key \<Rightarrow> if unsupported_target key then Inl UnsupportedArtifactSignTarget else Inr ())
       (concat (map pr_artifact_sign_key_ids (pc_rules c)))"

section \<open>Selection\<close>

record GithubSelection =
  gs_repository_id :: nat
  gs_repository_owner_id :: nat
  gs_workflow_ref :: string
  gs_workflow_sha :: string
  gs_ref_name :: string
  gs_event_name :: string
  gs_runner_environment :: string
  gs_environment :: "string option"

record ForgejoSelection =
  fs_repository_id :: nat
  fs_repository_owner_id :: nat
  fs_workflow_ref :: string
  fs_ref_name :: string
  fs_ref_type :: string
  fs_sha :: string
  fs_run_id :: nat
  fs_run_attempt :: nat

definition exactly_one :: "ProviderRule list \<Rightarrow> FederationError + ProviderRule" where
  "exactly_one matches =
     (case matches of [] \<Rightarrow> Inl NoMatchingRule | [r] \<Rightarrow> Inr r | _ # _ # _ \<Rightarrow> Inl AmbiguousRule)"

definition github_selected :: "GithubSelection \<Rightarrow> ProviderRule \<Rightarrow> bool" where
  "github_selected s r \<longleftrightarrow>
     (case pr_provider r of
        PcForgejo _ \<Rightarrow> False
      | PcGithub g \<Rightarrow>
          ga_repository_id g = gs_repository_id s \<and> ga_repository_owner_id g = gs_repository_owner_id s \<and>
          ga_job_workflow_ref g = gs_workflow_ref s \<and> ga_job_workflow_sha g = gs_workflow_sha s \<and>
          list_ex (\<lambda>v. v = gs_ref_name s) (ga_protected_refs g) \<and>
          list_ex (\<lambda>v. v = gs_event_name s) (ga_events g) \<and>
          list_ex (\<lambda>v. v = gs_runner_environment s) (ga_runner_environments g) \<and>
          ga_environment g = gs_environment s)"

definition forgejo_selected :: "ForgejoSelection \<Rightarrow> ProviderRule \<Rightarrow> bool" where
  "forgejo_selected s r \<longleftrightarrow>
     (case pr_provider r of
        PcGithub _ \<Rightarrow> False
      | PcForgejo f \<Rightarrow>
          fa_repository_id f = fs_repository_id s \<and> fa_repository_owner_id f = fs_repository_owner_id s \<and>
          fa_workflow_ref f = fs_workflow_ref s \<and> fa_ref_name f = fs_ref_name s \<and>
          fa_ref_type f = fs_ref_type s \<and> fa_sha f = fs_sha s \<and>
          fa_run_id f = fs_run_id s \<and> fa_run_attempt f = fs_run_attempt s)"

definition select_github :: "ProviderCatalog \<Rightarrow> GithubSelection \<Rightarrow> FederationError + ProviderRule" where
  "select_github c s = exactly_one (filter (github_selected s) (pc_rules c))"

definition select_forgejo :: "ProviderCatalog \<Rightarrow> ForgejoSelection \<Rightarrow> FederationError + ProviderRule" where
  "select_forgejo c s = exactly_one (filter (forgejo_selected s) (pc_rules c))"


section \<open>Verification of a token\<close>

record GithubClaims =
  gc_iss :: string
  gc_aud :: string
  gc_sub :: string
  gc_repository :: string
  gc_repository_id :: string
  gc_repository_owner_id :: string
  gc_actor_id :: "string option"
  gc_event_name :: string
  gc_ref :: string
  gc_job_workflow_ref :: string
  gc_job_workflow_sha :: string
  gc_runner_environment :: string
  gc_environment :: "string option"
  gc_run_id :: string
  gc_run_attempt :: string
  gc_jti :: string
  gc_iat :: nat
  gc_nbf :: "nat option"
  gc_exp :: nat

record ForgejoClaims =
  fc_iss :: string
  fc_aud :: string
  fc_sub :: string
  fc_repository :: string
  fc_repository_id :: string
  fc_repository_owner_id :: string
  fc_actor_id :: "string option"
  fc_event_name :: string
  fc_ref :: string
  fc_ref_type :: string
  fc_sha :: string
  fc_workflow_ref :: string
  fc_run_id :: string
  fc_run_attempt :: string
  fc_environment :: "Json option"
  fc_job_workflow_ref :: "Json option"
  fc_job_workflow_sha :: "Json option"
  fc_jti :: string
  fc_iat :: nat
  fc_nbf :: "nat option"
  fc_exp :: nat

definition github_claims_from_value :: "Json \<Rightarrow> GithubClaims option" where
  "github_claims_from_value v =
     Option.bind (struct_members False
       [''iss'', ''aud'', ''sub'', ''repository'', ''repository_id'', ''repository_owner_id'', ''actor_id'',
        ''event_name'', ''ref'', ''job_workflow_ref'', ''job_workflow_sha'', ''runner_environment'',
        ''environment'', ''run_id'', ''run_attempt'', ''jti'', ''iat'', ''nbf'', ''exp''] v) (\<lambda>ms.
     Option.bind (str_member ms ''iss'') (\<lambda>iss. Option.bind (str_member ms ''aud'') (\<lambda>aud.
     Option.bind (str_member ms ''sub'') (\<lambda>sub. Option.bind (str_member ms ''repository'') (\<lambda>repo.
     Option.bind (str_member ms ''repository_id'') (\<lambda>rid.
     Option.bind (str_member ms ''repository_owner_id'') (\<lambda>oid.
     Option.bind (opt_member as_str ms ''actor_id'') (\<lambda>actor.
     Option.bind (str_member ms ''event_name'') (\<lambda>ev. Option.bind (str_member ms ''ref'') (\<lambda>rf.
     Option.bind (str_member ms ''job_workflow_ref'') (\<lambda>wr.
     Option.bind (str_member ms ''job_workflow_sha'') (\<lambda>ws.
     Option.bind (str_member ms ''runner_environment'') (\<lambda>re.
     Option.bind (opt_member as_str ms ''environment'') (\<lambda>en.
     Option.bind (str_member ms ''run_id'') (\<lambda>run. Option.bind (str_member ms ''run_attempt'') (\<lambda>att.
     Option.bind (str_member ms ''jti'') (\<lambda>jti. Option.bind (u64_member ms ''iat'') (\<lambda>iat.
     Option.bind (opt_member as_u64 ms ''nbf'') (\<lambda>nbf. Option.bind (u64_member ms ''exp'') (\<lambda>ex.
     Some \<lparr>gc_iss = iss, gc_aud = aud, gc_sub = sub, gc_repository = repo, gc_repository_id = rid,
       gc_repository_owner_id = oid, gc_actor_id = actor, gc_event_name = ev, gc_ref = rf,
       gc_job_workflow_ref = wr, gc_job_workflow_sha = ws, gc_runner_environment = re,
       gc_environment = en, gc_run_id = run, gc_run_attempt = att, gc_jti = jti, gc_iat = iat,
       gc_nbf = nbf, gc_exp = ex\<rparr>))))))))))))))))))))"

definition forgejo_claims_from_value :: "Json \<Rightarrow> ForgejoClaims option" where
  "forgejo_claims_from_value v =
     Option.bind (struct_members False
       [''iss'', ''aud'', ''sub'', ''repository'', ''repository_id'', ''repository_owner_id'', ''actor_id'',
        ''event_name'', ''ref'', ''ref_type'', ''sha'', ''workflow_ref'', ''run_id'', ''run_attempt'',
        ''environment'', ''job_workflow_ref'', ''job_workflow_sha'', ''jti'', ''iat'', ''nbf'', ''exp''] v) (\<lambda>ms.
     Option.bind (str_member ms ''iss'') (\<lambda>iss. Option.bind (str_member ms ''aud'') (\<lambda>aud.
     Option.bind (str_member ms ''sub'') (\<lambda>sub. Option.bind (str_member ms ''repository'') (\<lambda>repo.
     Option.bind (str_member ms ''repository_id'') (\<lambda>rid.
     Option.bind (str_member ms ''repository_owner_id'') (\<lambda>oid.
     Option.bind (opt_member as_str ms ''actor_id'') (\<lambda>actor.
     Option.bind (str_member ms ''event_name'') (\<lambda>ev. Option.bind (str_member ms ''ref'') (\<lambda>rf.
     Option.bind (str_member ms ''ref_type'') (\<lambda>rt. Option.bind (str_member ms ''sha'') (\<lambda>sha.
     Option.bind (str_member ms ''workflow_ref'') (\<lambda>wr.
     Option.bind (str_member ms ''run_id'') (\<lambda>run. Option.bind (str_member ms ''run_attempt'') (\<lambda>att.
     Option.bind (opt_member Some ms ''environment'') (\<lambda>en.
     Option.bind (opt_member Some ms ''job_workflow_ref'') (\<lambda>jr.
     Option.bind (opt_member Some ms ''job_workflow_sha'') (\<lambda>js.
     Option.bind (str_member ms ''jti'') (\<lambda>jti. Option.bind (u64_member ms ''iat'') (\<lambda>iat.
     Option.bind (opt_member as_u64 ms ''nbf'') (\<lambda>nbf. Option.bind (u64_member ms ''exp'') (\<lambda>ex.
     Some \<lparr>fc_iss = iss, fc_aud = aud, fc_sub = sub, fc_repository = repo, fc_repository_id = rid,
       fc_repository_owner_id = oid, fc_actor_id = actor, fc_event_name = ev, fc_ref = rf,
       fc_ref_type = rt, fc_sha = sha, fc_workflow_ref = wr, fc_run_id = run, fc_run_attempt = att,
       fc_environment = en, fc_job_workflow_ref = jr, fc_job_workflow_sha = js, fc_jti = jti,
       fc_iat = iat, fc_nbf = nbf, fc_exp = ex\<rparr>))))))))))))))))))))))"

definition decimal :: "string \<Rightarrow> FederationError + nat" where
  "decimal s = ok_or (if s \<noteq> [] \<and> list_all is_ascii_digit s then parse_unsigned u64_max s else None) Malformed"

definition exactly_one_bounded_token :: "string list \<Rightarrow> FederationError + string" where
  "exactly_one_bounded_token tokens =
     (case tokens of
        [token] \<Rightarrow>
          if token = [] then Inl TokenRejected
          else if length token > MAX_TOKEN_BYTES then Inl (Oversized ''token'')
          else Inr token
      | _ \<Rightarrow> Inl Malformed)"

definition validate_audit_claim :: "string \<times> nat \<Rightarrow> FederationError + unit" where
  "validate_audit_claim vb =
     (if fst vb = [] \<or> length (fst vb) > snd vb \<or> has_control (fst vb) then Inl ProviderRejected else Inr ())"

definition validate_github_audit_claims :: "GithubClaims \<Rightarrow> FederationError + unit" where
  "validate_github_audit_claims c =
     res_bind (res_each validate_audit_claim
       [(gc_iss c, MAX_PROVIDER_URL_BYTES), (gc_aud c, MAX_AUDIT_WORKFLOW_BYTES),
        (gc_sub c, MAX_AUDIT_WORKFLOW_BYTES), (gc_repository c, MAX_AUDIT_TEXT_BYTES),
        (gc_event_name c, MAX_AUDIT_SHORT_BYTES), (gc_ref c, MAX_AUDIT_TEXT_BYTES),
        (gc_job_workflow_ref c, MAX_AUDIT_WORKFLOW_BYTES), (gc_job_workflow_sha c, MAX_AUDIT_SHORT_BYTES),
        (gc_runner_environment c, MAX_AUDIT_SHORT_BYTES), (gc_jti c, MAX_AUDIT_WORKFLOW_BYTES)]) (\<lambda>_.
     case gc_environment c of
       Some en \<Rightarrow> validate_audit_claim (en, MAX_AUDIT_TEXT_BYTES) | None \<Rightarrow> Inr ())"

definition validate_forgejo_audit_claims :: "ForgejoClaims \<Rightarrow> FederationError + unit" where
  "validate_forgejo_audit_claims c =
     res_each validate_audit_claim
       [(fc_iss c, MAX_PROVIDER_URL_BYTES), (fc_aud c, MAX_AUDIT_WORKFLOW_BYTES),
        (fc_sub c, MAX_AUDIT_WORKFLOW_BYTES), (fc_repository c, MAX_AUDIT_TEXT_BYTES),
        (fc_event_name c, MAX_AUDIT_SHORT_BYTES), (fc_ref c, MAX_AUDIT_TEXT_BYTES),
        (fc_ref_type c, MAX_AUDIT_SHORT_BYTES), (fc_sha c, MAX_AUDIT_SHORT_BYTES),
        (fc_workflow_ref c, MAX_AUDIT_WORKFLOW_BYTES), (fc_jti c, MAX_AUDIT_WORKFLOW_BYTES)]"

definition proof_key_thumbprint :: "FedEnv \<Rightarrow> u8 list \<Rightarrow> u8 list" where
  "proof_key_thumbprint env pub =
     fe_sha256 env (bytes_of (''{\"crv\":\"Ed25519\",\"kty\":\"OKP\",\"x\":\"'' @ fe_b64url env pub @ ''\"}''))"

definition thumbprint :: "FedEnv \<Rightarrow> u8 list \<Rightarrow> string" where
  "thumbprint env pub = fe_b64url env (proof_key_thumbprint env pub)"

definition proof_audience :: "FedEnv \<Rightarrow> u8 list \<Rightarrow> string" where
  "proof_audience env pub = AUDIENCE_PREFIX @ thumbprint env pub"

definition correlation_digest :: "FedEnv \<Rightarrow> u8 list \<Rightarrow> string \<Rightarrow> string \<Rightarrow> FederationError + u8 list" where
  "correlation_digest env key dmn data =
     ok_or (fe_hmac env key ([word_of_nat (min (length dmn) 255)] @ bytes_of dmn @ bytes_of data))
       CorrelationUnavailable"

definition token_digest :: "FedEnv \<Rightarrow> u8 list \<Rightarrow> string \<Rightarrow> FederationError + u8 list" where
  "token_digest env key token = correlation_digest env key ''basil-ci-token'' token"

text \<open>A generation's key set: the keys by identifier.\<close>

record GenerationJwks =
  gj_generation :: nat
  gj_keys :: "(string, RsaJwk) btree"

definition jwks_key :: "GenerationJwks \<Rightarrow> string \<Rightarrow> RsaJwk option" where
  "jwks_key jwks kid = bt_get (gj_keys jwks) kid"

text \<open>The JWT steps both verifiers share: header, algorithm, key, signature and payload.\<close>

definition decode_token ::
  "FedEnv \<Rightarrow> GenerationJwks \<Rightarrow> string \<Rightarrow> u8 list \<Rightarrow> string \<Rightarrow> FederationError + Json" where
  "decode_token env jwks token pub issuer =
     res_bind (ok_or (fe_jwt_header env token) TokenRejected) (\<lambda>(alg, kid).
     if alg \<noteq> RS256 then Inl TokenRejected
     else
       res_bind (ok_or kid TokenRejected) (\<lambda>kid.
       res_bind (ok_or (jwks_key jwks kid) TokenRejected) (\<lambda>key.
       ok_or (fe_jwt_decode env token key (proof_audience env pub) issuer) TokenRejected)))"

text \<open>
  The time conditions of both verifiers, as the code writes them: the inner \<open>?\<close> of the
  disjunction are the \<open>decimal\<close> tests, which are kept in place in the callers.
\<close>

definition time_rejected :: "nat \<Rightarrow> nat option \<Rightarrow> nat \<Rightarrow> nat \<Rightarrow> nat \<Rightarrow> nat \<Rightarrow> bool" where
  "time_rejected iat nbf ex now skew max_age \<longleftrightarrow>
     ex < iat \<or> iat > sat_add_u64 now skew \<or>
     (case nbf of Some n \<Rightarrow> n > sat_add_u64 now skew | None \<Rightarrow> False) \<or>
     sat_add_u64 ex skew < now \<or> now - iat > max_age"

definition check_github_claims ::
  "FedEnv \<Rightarrow> GithubActionsRule \<Rightarrow> GithubClaims \<Rightarrow> u8 list \<Rightarrow> nat \<Rightarrow> FederationError + unit" where
  "check_github_claims env r c pub now =
     (if gc_iss c \<noteq> ga_issuer r \<or> gc_aud c \<noteq> proof_audience env pub \<or> gc_sub c = [] \<or> gc_repository c = []
      then Inl ProviderRejected
      else
        res_bind (decimal (gc_repository_id c)) (\<lambda>rid.
        if rid \<noteq> ga_repository_id r then Inl ProviderRejected
        else
          res_bind (decimal (gc_repository_owner_id c)) (\<lambda>oid.
          if oid \<noteq> ga_repository_owner_id r
             \<or> time_rejected (gc_iat c) (gc_nbf c) (gc_exp c) now (ga_clock_skew_secs r) (ga_max_token_age_secs r)
             \<or> \<not> list_ex (\<lambda>v. v = gc_ref c) (ga_protected_refs r)
             \<or> \<not> list_ex (\<lambda>v. v = gc_event_name c) (ga_events r)
             \<or> \<not> list_ex (\<lambda>v. v = gc_runner_environment c) (ga_runner_environments r)
             \<or> ga_environment r \<noteq> gc_environment c
             \<or> gc_job_workflow_ref c \<noteq> ga_job_workflow_ref r
             \<or> gc_job_workflow_sha c \<noteq> ga_job_workflow_sha r
             \<or> gc_jti c = []
          then Inl ProviderRejected else Inr ())))"

record GithubEvidence =
  ge_repository_id :: nat
  ge_repository_owner_id :: nat
  ge_repository :: string
  ge_actor_id :: "nat option"
  ge_workflow_ref :: string
  ge_workflow_sha :: string
  ge_ref_name :: string
  ge_event_name :: string
  ge_runner_environment :: string
  ge_environment :: "string option"
  ge_run_id :: nat
  ge_run_attempt :: nat
  ge_jti_digest :: "u8 list"
  ge_token_digest :: "u8 list"

record ForgejoEvidence =
  fv_repository_id :: nat
  fv_repository_owner_id :: nat
  fv_repository :: string
  fv_actor_id :: "nat option"
  fv_workflow_ref :: string
  fv_ref_name :: string
  fv_ref_type :: string
  fv_sha :: string
  fv_run_id :: nat
  fv_run_attempt :: nat
  fv_event_name :: string
  fv_jti_digest :: "u8 list"
  fv_token_digest :: "u8 list"

definition opt_decimal :: "string option \<Rightarrow> FederationError + nat option" where
  "opt_decimal s = (case s of None \<Rightarrow> Inr None | Some v \<Rightarrow> res_bind (decimal v) (\<lambda>n. Inr (Some n)))"

text \<open>\<open>now\<close> is the number of whole seconds since the epoch, \<open>None\<close> before it.\<close>

definition verify_github ::
  "FedEnv \<Rightarrow> GithubActionsRule \<Rightarrow> GenerationJwks \<Rightarrow> string \<Rightarrow> u8 list \<Rightarrow> u8 list \<Rightarrow> nat option
    \<Rightarrow> FederationError + GithubEvidence" where
  "verify_github env r jwks token pub correlation now =
     (if length token > MAX_TOKEN_BYTES then Inl (Oversized ''token'')
      else
        res_bind (validate_github_rule r) (\<lambda>_.
        res_bind (validate_urls env (ga_issuer r) (ga_discovery_url r) (ga_jwks_url r)) (\<lambda>_.
        res_bind (decode_token env jwks token pub (ga_issuer r)) (\<lambda>payload.
        res_bind (ok_or (github_claims_from_value payload) TokenRejected) (\<lambda>c.
        res_bind (validate_github_audit_claims c) (\<lambda>_.
        res_bind (ok_or now TokenRejected) (\<lambda>now_secs.
        res_bind (check_github_claims env r c pub now_secs) (\<lambda>_.
        res_bind (correlation_digest env correlation ''basil-ci-jti'' (gc_jti c)) (\<lambda>jti.
        res_bind (token_digest env correlation token) (\<lambda>td.
        res_bind (decimal (gc_repository_id c)) (\<lambda>rid.
        res_bind (decimal (gc_repository_owner_id c)) (\<lambda>oid.
        res_bind (opt_decimal (gc_actor_id c)) (\<lambda>actor.
        res_bind (decimal (gc_run_id c)) (\<lambda>run.
        res_bind (decimal (gc_run_attempt c)) (\<lambda>att.
        Inr \<lparr>ge_repository_id = rid, ge_repository_owner_id = oid, ge_repository = gc_repository c,
          ge_actor_id = actor, ge_workflow_ref = gc_job_workflow_ref c,
          ge_workflow_sha = gc_job_workflow_sha c, ge_ref_name = gc_ref c,
          ge_event_name = gc_event_name c, ge_runner_environment = gc_runner_environment c,
          ge_environment = gc_environment c, ge_run_id = run, ge_run_attempt = att,
          ge_jti_digest = jti, ge_token_digest = td\<rparr>)))))))))))))))"

definition same_repository_workflow :: "ForgejoClaims \<Rightarrow> bool" where
  "same_repository_workflow c \<longleftrightarrow>
     (case strip_prefix (fc_repository c) (fc_workflow_ref c) of
        Some rest \<Rightarrow> starts_with ''/'' rest | None \<Rightarrow> False)"

definition check_forgejo_claims ::
  "FedEnv \<Rightarrow> ForgejoActionsRule \<Rightarrow> ForgejoClaims \<Rightarrow> u8 list \<Rightarrow> nat \<Rightarrow> FederationError + unit" where
  "check_forgejo_claims env r c pub now =
     (if fc_iss c \<noteq> fa_issuer r \<or> fc_aud c \<noteq> proof_audience env pub \<or> fc_sub c = [] \<or> fc_repository c = []
      then Inl ProviderRejected
      else
        res_bind (decimal (fc_repository_id c)) (\<lambda>rid.
        if rid \<noteq> fa_repository_id r then Inl ProviderRejected
        else
          res_bind (decimal (fc_repository_owner_id c)) (\<lambda>oid.
          if oid \<noteq> fa_repository_owner_id r \<or> fc_event_name c \<noteq> FORGEJO_EVENT
             \<or> fc_ref c \<noteq> fa_ref_name r \<or> fc_ref_type c \<noteq> fa_ref_type r \<or> fc_sha c \<noteq> fa_sha r
             \<or> fc_workflow_ref c \<noteq> fa_workflow_ref r \<or> \<not> same_repository_workflow c
          then Inl ProviderRejected
          else
            res_bind (decimal (fc_run_id c)) (\<lambda>run.
            if run \<noteq> fa_run_id r then Inl ProviderRejected
            else
              res_bind (decimal (fc_run_attempt c)) (\<lambda>att.
              if att \<noteq> fa_run_attempt r
                 \<or> fc_environment c \<noteq> None \<or> fc_job_workflow_ref c \<noteq> None \<or> fc_job_workflow_sha c \<noteq> None
                 \<or> time_rejected (fc_iat c) (fc_nbf c) (fc_exp c) now (fa_clock_skew_secs r) (fa_max_token_age_secs r)
                 \<or> now < fa_not_before_unix r \<or> now > fa_expires_at_unix r \<or> fc_jti c = []
              then Inl ProviderRejected else Inr ())))))"

definition verify_forgejo ::
  "FedEnv \<Rightarrow> ForgejoActionsRule \<Rightarrow> GenerationJwks \<Rightarrow> string \<Rightarrow> u8 list \<Rightarrow> u8 list \<Rightarrow> nat option
    \<Rightarrow> FederationError + ForgejoEvidence" where
  "verify_forgejo env r jwks token pub correlation now =
     (if length token > MAX_TOKEN_BYTES then Inl (Oversized ''token'')
      else
        res_bind (validate_forgejo_rule env r) (\<lambda>_.
        res_bind (validate_urls env (fa_issuer r) (fa_discovery_url r) (fa_jwks_url r)) (\<lambda>_.
        res_bind (decode_token env jwks token pub (fa_issuer r)) (\<lambda>payload.
        res_bind (ok_or (forgejo_claims_from_value payload) TokenRejected) (\<lambda>c.
        res_bind (validate_forgejo_audit_claims c) (\<lambda>_.
        res_bind (ok_or now TokenRejected) (\<lambda>now_secs.
        res_bind (check_forgejo_claims env r c pub now_secs) (\<lambda>_.
        res_bind (correlation_digest env correlation ''basil-ci-jti'' (fc_jti c)) (\<lambda>jti.
        res_bind (token_digest env correlation token) (\<lambda>td.
        res_bind (decimal (fc_repository_id c)) (\<lambda>rid.
        res_bind (decimal (fc_repository_owner_id c)) (\<lambda>oid.
        res_bind (opt_decimal (fc_actor_id c)) (\<lambda>actor.
        res_bind (decimal (fc_run_id c)) (\<lambda>run.
        res_bind (decimal (fc_run_attempt c)) (\<lambda>att.
        Inr \<lparr>fv_repository_id = rid, fv_repository_owner_id = oid, fv_repository = fc_repository c,
          fv_actor_id = actor, fv_workflow_ref = fc_workflow_ref c, fv_ref_name = fc_ref c,
          fv_ref_type = fc_ref_type c, fv_sha = fc_sha c, fv_run_id = run, fv_run_attempt = att,
          fv_event_name = fc_event_name c, fv_jti_digest = jti, fv_token_digest = td\<rparr>)))))))))))))))"

datatype ProviderClaimEvidence = EvGithub GithubEvidence | EvForgejo ForgejoEvidence

fun evidence_run :: "ProviderClaimEvidence \<Rightarrow> nat \<times> nat" where
  "evidence_run (EvGithub e) = (ge_run_id e, ge_run_attempt e)"
| "evidence_run (EvForgejo e) = (fv_run_id e, fv_run_attempt e)"

fun evidence_token_digest :: "ProviderClaimEvidence \<Rightarrow> u8 list" where
  "evidence_token_digest (EvGithub e) = ge_token_digest e"
| "evidence_token_digest (EvForgejo e) = fv_token_digest e"

record VerifiedProviderEvidence =
  ve_provider :: ProviderKind
  ve_issuer :: string
  ve_rule_id :: string
  ve_subject :: string
  ve_broker_audience :: string
  ve_operation_profiles :: "ProviderOperationProfile list"
  ve_artifact_sign_key_ids :: "string list"
  ve_max_operations_per_run :: "nat option"
  ve_run_bucket_retention_secs :: nat
  ve_claims :: ProviderClaimEvidence


section \<open>No two rules match the same evidence\<close>

lemma overlap_loop_Inr:
  "overlap_loop rs = Inr () \<longleftrightarrow> sorted_wrt (\<lambda>l r. \<not> rules_overlap (pr_provider l) (pr_provider r)) rs"
  by (induction rs) (auto simp: list_ex_iff)

lemma at_most_one_filter:
  assumes "sorted_wrt (\<lambda>l r. \<not> (p l \<and> p r)) xs"
  shows "length (filter p xs) \<le> 1"
  using assms by (induction xs) (auto simp: filter_empty_conv le_Suc_eq)

lemma exactly_one_unambiguous:
  assumes "length (filter p xs) \<le> 1"
  shows "exactly_one (filter p xs) = (case find p xs of None \<Rightarrow> Inl NoMatchingRule | Some r \<Rightarrow> Inr r)"
proof (cases "filter p xs")
  case Nil
  then have "find p xs = None" by (simp add: find_None_iff filter_empty_conv)
  then show ?thesis using Nil by (simp add: exactly_one_def)
next
  case (Cons a as)
  then have "find p xs = Some a" by (induction xs) (auto split: if_splits)
  then show ?thesis using Cons assms by (simp add: exactly_one_def)
qed

lemma github_selected_overlap:
  "github_selected s l \<Longrightarrow> github_selected s r \<Longrightarrow> rules_overlap (pr_provider l) (pr_provider r)"
  by (auto simp: github_selected_def github_rules_overlap_def shares_def list_ex_iff
      split: ProviderConfig.splits)

lemma forgejo_selected_overlap:
  "forgejo_selected s l \<Longrightarrow> forgejo_selected s r \<Longrightarrow> rules_overlap (pr_provider l) (pr_provider r)"
  by (auto simp: forgejo_selected_def forgejo_rules_overlap_def split: ProviderConfig.splits)

lemma catalog_parts:
  assumes "with_experimental_providers env rs exps = Inr c"
  shows "pc_rules c = rs" "length rs \<le> MAX_PROVIDER_RULES" "catalog_rules_loop env exps rs [] = Inr ()"
    "sorted_wrt (\<lambda>l r. \<not> rules_overlap (pr_provider l) (pr_provider r)) rs"
  using assms by (auto simp: with_experimental_providers_def overlap_loop_Inr split: if_splits)

lemma sorted_wrt_weaken: "sorted_wrt P xs \<Longrightarrow> (\<And>x y. P x y \<Longrightarrow> Q x y) \<Longrightarrow> sorted_wrt Q xs"
  by (rule sorted_wrt_mono_rel) auto

text \<open>
  C23: Selection in a constructed catalog is never ambiguous: evidence of a GitHub or of a
  Forgejo run selects the only rule it matches, and is refused as unmatched when there is none,
  because construction rejects every pair of rules that one piece of evidence could match.
\<close>

theorem catalog_selection_unambiguous:
  assumes "with_experimental_providers env rs exps = Inr c"
  shows "select_github c g =
      (case find (github_selected g) rs of None \<Rightarrow> Inl NoMatchingRule | Some r \<Rightarrow> Inr r) \<and>
    select_forgejo c f =
      (case find (forgejo_selected f) rs of None \<Rightarrow> Inl NoMatchingRule | Some r \<Rightarrow> Inr r)"
proof -
  note p = catalog_parts [OF assms]
  have "length (filter (github_selected g) rs) \<le> 1"
    by (rule at_most_one_filter, rule sorted_wrt_weaken [OF p(4)]) (use github_selected_overlap in blast)
  moreover have "length (filter (forgejo_selected f) rs) \<le> 1"
    by (rule at_most_one_filter, rule sorted_wrt_weaken [OF p(4)]) (use forgejo_selected_overlap in blast)
  ultimately show ?thesis
    by (simp add: select_github_def select_forgejo_def p(1) exactly_one_unambiguous)
qed

section \<open>At most one rule verifies a token\<close>

definition verify_rule ::
  "FedEnv \<Rightarrow> ProviderRule \<Rightarrow> GenerationJwks \<Rightarrow> string \<Rightarrow> u8 list \<Rightarrow> u8 list \<Rightarrow> nat option
    \<Rightarrow> FederationError + ProviderClaimEvidence" where
  "verify_rule env r jwks token pub correlation now =
     (case pr_provider r of
        PcGithub g \<Rightarrow> res_bind (verify_github env g jwks token pub correlation now) (\<lambda>e. Inr (EvGithub e))
      | PcForgejo f \<Rightarrow> res_bind (verify_forgejo env f jwks token pub correlation now) (\<lambda>e. Inr (EvForgejo e)))"

text \<open>
  What is relied on of the JWT library and the URL parser: the payload of a token does not
  depend on the key it is checked with, and the GitHub issuer has no path.
\<close>

definition jwt_ok :: "FedEnv \<Rightarrow> bool" where
  "jwt_ok env \<longleftrightarrow>
     (\<forall>t k a i k' a' i' v w. fe_jwt_decode env t k a i = Some v \<longrightarrow> fe_jwt_decode env t k' a' i' = Some w \<longrightarrow> v = w) \<and>
     (\<forall>u. fe_url env GITHUB_ISSUER = Some u \<longrightarrow> u_path u = ''/'')"

lemma verify_github_claims:
  assumes "verify_github env r jwks token pub corr now = Inr e"
  obtains payload c key n where
    "fe_jwt_decode env token key (proof_audience env pub) (ga_issuer r) = Some payload"
    "github_claims_from_value payload = Some c" "now = Some n" "check_github_claims env r c pub n = Inr ()"
    "validate_github_rule r = Inr ()"
  using assms that
  by (auto simp: verify_github_def decode_token_def split: if_splits prod.splits)

lemma verify_forgejo_claims:
  assumes "verify_forgejo env r jwks token pub corr now = Inr e"
  obtains payload c key n where
    "fe_jwt_decode env token key (proof_audience env pub) (fa_issuer r) = Some payload"
    "forgejo_claims_from_value payload = Some c" "now = Some n" "check_forgejo_claims env r c pub n = Inr ()"
    "validate_forgejo_rule env r = Inr ()"
  using assms that
  by (auto simp: verify_forgejo_def decode_token_def split: if_splits prod.splits)

lemma check_github_match:
  assumes "check_github_claims env r c pub n = Inr ()"
  shows "gc_iss c = ga_issuer r" "decimal (gc_repository_id c) = Inr (ga_repository_id r)"
    "decimal (gc_repository_owner_id c) = Inr (ga_repository_owner_id r)"
    "gc_job_workflow_ref c = ga_job_workflow_ref r" "gc_job_workflow_sha c = ga_job_workflow_sha r"
    "gc_ref c \<in> set (ga_protected_refs r)" "gc_event_name c \<in> set (ga_events r)"
    "gc_runner_environment c \<in> set (ga_runner_environments r)" "ga_environment r = gc_environment c"
    "\<not> time_rejected (gc_iat c) (gc_nbf c) (gc_exp c) n (ga_clock_skew_secs r) (ga_max_token_age_secs r)"
  using assms by (auto simp: check_github_claims_def list_ex_iff split: if_splits)

lemma check_forgejo_match:
  assumes "check_forgejo_claims env r c pub n = Inr ()"
  shows "fc_iss c = fa_issuer r" "decimal (fc_repository_id c) = Inr (fa_repository_id r)"
    "decimal (fc_repository_owner_id c) = Inr (fa_repository_owner_id r)"
    "fc_workflow_ref c = fa_workflow_ref r" "fc_ref c = fa_ref_name r" "fc_ref_type c = fa_ref_type r"
    "fc_sha c = fa_sha r" "decimal (fc_run_id c) = Inr (fa_run_id r)"
    "decimal (fc_run_attempt c) = Inr (fa_run_attempt r)"
    "\<not> time_rejected (fc_iat c) (fc_nbf c) (fc_exp c) n (fa_clock_skew_secs r) (fa_max_token_age_secs r)"
    "fa_not_before_unix r \<le> n" "n \<le> fa_expires_at_unix r"
  using assms by (auto simp: check_forgejo_claims_def split: if_splits)



lemma struct_members_lookup:
  assumes "struct_members deny flds v = Some ms" and "name \<in> set flds"
  shows "(\<exists>os. v = JObj os \<and> map_of ms name = map_of os name) \<or>
    (\<exists>vs. v = JArr vs \<and> length vs = length flds)"
proof -
  have "map_of (filter (\<lambda>(k, _). k \<in> set flds) os) name = map_of os name" for os :: "(string \<times> Json) list"
    using assms(2) by (induction os) auto
  then show ?thesis
    using assms(1) by (auto simp: struct_members_def Let_def split: Json.splits if_splits)
qed

lemma same_payload_issuer:
  assumes "github_claims_from_value v = Some c" and "forgejo_claims_from_value v = Some d"
  shows "gc_iss c = fc_iss d"
proof -
  obtain ms where m: "struct_members False
       [''iss'', ''aud'', ''sub'', ''repository'', ''repository_id'', ''repository_owner_id'', ''actor_id'',
        ''event_name'', ''ref'', ''job_workflow_ref'', ''job_workflow_sha'', ''runner_environment'',
        ''environment'', ''run_id'', ''run_attempt'', ''jti'', ''iat'', ''nbf'', ''exp''] v = Some ms"
    "str_member ms ''iss'' = Some (gc_iss c)"
    using assms(1) unfolding github_claims_from_value_def by (auto simp: bind_eq_Some_conv)
  obtain ns where n: "struct_members False
       [''iss'', ''aud'', ''sub'', ''repository'', ''repository_id'', ''repository_owner_id'', ''actor_id'',
        ''event_name'', ''ref'', ''ref_type'', ''sha'', ''workflow_ref'', ''run_id'', ''run_attempt'',
        ''environment'', ''job_workflow_ref'', ''job_workflow_sha'', ''jti'', ''iat'', ''nbf'', ''exp''] v = Some ns"
    "str_member ns ''iss'' = Some (fc_iss d)"
    using assms(2) unfolding forgejo_claims_from_value_def by (auto simp: bind_eq_Some_conv)
  have "map_of ms ''iss'' = map_of ns ''iss''"
    using struct_members_lookup [OF m(1), of "''iss''"] struct_members_lookup [OF n(1), of "''iss''"] by auto
  then show ?thesis using m(2) n(2) by (simp add: str_member_def member_def)
qed

lemma verify_github_overlap:
  assumes "jwt_ok env" and "verify_github env l jwks token pub corr now = Inr e"
    and "verify_github env r jwks' token pub corr' now' = Inr e'"
  shows "github_rules_overlap l r"
proof -
  obtain p c k n where a: "fe_jwt_decode env token k (proof_audience env pub) (ga_issuer l) = Some p"
    "github_claims_from_value p = Some c" "check_github_claims env l c pub n = Inr ()"
    by (rule verify_github_claims [OF assms(2)])
  obtain p' c' k' n' where b: "fe_jwt_decode env token k' (proof_audience env pub) (ga_issuer r) = Some p'"
    "github_claims_from_value p' = Some c'" "check_github_claims env r c' pub n' = Inr ()"
    by (rule verify_github_claims [OF assms(3)])
  have "p = p'" using assms(1) a(1) b(1) unfolding jwt_ok_def by blast
  then have "c = c'" using a b by simp
  then show ?thesis
    using check_github_match [OF a(3)] check_github_match [OF b(3)]
    by (auto simp: github_rules_overlap_def shares_def list_ex_iff)
qed

lemma verify_forgejo_overlap:
  assumes "jwt_ok env" and "verify_forgejo env l jwks token pub corr now = Inr e"
    and "verify_forgejo env r jwks' token pub corr' now' = Inr e'"
  shows "forgejo_rules_overlap l r"
proof -
  obtain p c k n where a: "fe_jwt_decode env token k (proof_audience env pub) (fa_issuer l) = Some p"
    "forgejo_claims_from_value p = Some c" "check_forgejo_claims env l c pub n = Inr ()"
    by (rule verify_forgejo_claims [OF assms(2)])
  obtain p' c' k' n' where b: "fe_jwt_decode env token k' (proof_audience env pub) (fa_issuer r) = Some p'"
    "forgejo_claims_from_value p' = Some c'" "check_forgejo_claims env r c' pub n' = Inr ()"
    by (rule verify_forgejo_claims [OF assms(3)])
  have "p = p'" using assms(1) a(1) b(1) unfolding jwt_ok_def by blast
  then have "c = c'" using a b by simp
  then show ?thesis
    using check_forgejo_match [OF a(3)] check_forgejo_match [OF b(3)]
    by (auto simp: forgejo_rules_overlap_def)
qed

lemma not_both_providers:
  assumes "jwt_ok env" and "verify_github env l jwks token pub corr now = Inr e"
    and "verify_forgejo env r jwks' token pub corr' now' = Inr e'"
  shows False
proof -
  obtain p c k n where a: "fe_jwt_decode env token k (proof_audience env pub) (ga_issuer l) = Some p"
    "github_claims_from_value p = Some c" "check_github_claims env l c pub n = Inr ()"
    "validate_github_rule l = Inr ()"
    by (rule verify_github_claims [OF assms(2)])
  obtain p' c' k' n' where b: "fe_jwt_decode env token k' (proof_audience env pub) (fa_issuer r) = Some p'"
    "forgejo_claims_from_value p' = Some c'" "check_forgejo_claims env r c' pub n' = Inr ()"
    "validate_forgejo_rule env r = Inr ()"
    by (rule verify_forgejo_claims [OF assms(3)])
  have "p = p'" using assms(1) a(1) b(1) unfolding jwt_ok_def by blast
  then have "gc_iss c = fc_iss c'" using a(2) b(2) same_payload_issuer by simp
  then have "fa_issuer r = GITHUB_ISSUER"
    using check_github_match(1) [OF a(3)] check_forgejo_match(1) [OF b(3)] a(4)
    by (auto simp: validate_github_rule_def split: if_splits)
  then obtain u where "fe_url env GITHUB_ISSUER = Some u" "ends_with FORGEJO_ISSUER_PATH (u_path u)"
    using b(4) by (auto simp: validate_forgejo_rule_def split: if_splits option.splits)
  moreover have "\<not> ends_with FORGEJO_ISSUER_PATH ''/''" by code_simp
  ultimately show False using assms(1) by (auto simp: jwt_ok_def)
qed

lemma verified_rules_overlap:
  assumes "jwt_ok env" and "verify_rule env l jwks token pub corr now = Inr e"
    and "verify_rule env r jwks' token pub corr' now' = Inr e'"
  shows "rules_overlap (pr_provider l) (pr_provider r)"
  using assms(2,3) verify_github_overlap [OF assms(1)] verify_forgejo_overlap [OF assms(1)]
    not_both_providers [OF assms(1)]
  by (cases "pr_provider l"; cases "pr_provider r") (auto simp: verify_rule_def)

lemma sorted_wrt_unique:
  assumes "sorted_wrt (\<lambda>x y. \<not> P x y) xs" and "x \<in> set xs" and "y \<in> set xs" and "P x y" and "P y x"
  shows "x = y"
  using assms by (induction xs) auto

text \<open>
  C15: A token is accepted by at most one rule of a constructed catalog, whatever key sets,
  times and correlation keys the rules are tried with. The subject, the allowed targets and the
  quota that a token receives therefore do not depend on the order of the rules, and adding a
  rule can never divert a token from the rule that accepted it.
\<close>

theorem token_verifies_under_one_rule:
  assumes "jwt_ok env" and "with_experimental_providers env rs exps = Inr c"
    and "l \<in> set (pc_rules c)" and "r \<in> set (pc_rules c)"
    and "verify_rule env l jwks token pub corr now = Inr e"
    and "verify_rule env r jwks' token pub corr' now' = Inr e'"
  shows "l = r"
proof -
  note p = catalog_parts [OF assms(2)]
  show ?thesis
    using sorted_wrt_unique [OF p(4), of l r] assms(3,4) p(1)
      verified_rules_overlap [OF assms(1,5,6)] verified_rules_overlap [OF assms(1,6,5)]
    by simp
qed


section \<open>Token validity and the retention of quota buckets\<close>

lemma accepted_window:
  assumes "\<not> time_rejected iat nbf ex t1 skew age" and "\<not> time_rejected iat nbf ex t2 skew age"
    and "t1 + skew \<le> u64_max"
  shows "t2 \<le> t1 + (age + skew)"
  using assms by (auto simp: time_rejected_def sat_add_u64_def)

lemma catalog_rule_bounds:
  assumes "catalog_rules_loop env exps rs ids = Inr ()" and "r \<in> set rs"
  shows "rule_time_bounds (pr_provider r) = (pr_max_token_age_secs r, pr_clock_skew_secs r)"
    and "validate_common_rule r = Inr ()" and "provider_validate env (pr_provider r) = Inr ()"
    and "is_experimental (provider_kind (pr_provider r)) \<longrightarrow> provider_kind (pr_provider r) \<in> set exps"
  using assms by (induction rs arbitrary: ids) (auto simp: Let_def split: if_splits)

lemma same_token_evidence:
  assumes "jwt_ok env" and "verify_rule env r jwks token pub corr (Some t1) = Inr e1"
    and "verify_rule env r jwks' token pub corr' (Some t2) = Inr e2"
    and "rule_time_bounds (pr_provider r) = (age, skew)" and "t1 + skew \<le> u64_max"
  shows "evidence_run e1 = evidence_run e2" and "t2 \<le> t1 + (age + skew)"
proof -
  have "evidence_run e1 = evidence_run e2 \<and> t2 \<le> t1 + (age + skew)"
  proof (cases "pr_provider r")
    case (PcGithub g)
    obtain v1 v2 where v: "verify_github env g jwks token pub corr (Some t1) = Inr v1" "e1 = EvGithub v1"
      "verify_github env g jwks' token pub corr' (Some t2) = Inr v2" "e2 = EvGithub v2"
      using assms(2,3) PcGithub by (auto simp: verify_rule_def)
    obtain p c k where a: "fe_jwt_decode env token k (proof_audience env pub) (ga_issuer g) = Some p"
      "github_claims_from_value p = Some c" "check_github_claims env g c pub t1 = Inr ()"
      "decimal (gc_run_id c) = Inr (ge_run_id v1)" "decimal (gc_run_attempt c) = Inr (ge_run_attempt v1)"
      using v(1) by (auto simp: verify_github_def decode_token_def split: if_splits prod.splits)
    obtain p' c' k' where b: "fe_jwt_decode env token k' (proof_audience env pub) (ga_issuer g) = Some p'"
      "github_claims_from_value p' = Some c'" "check_github_claims env g c' pub t2 = Inr ()"
      "decimal (gc_run_id c') = Inr (ge_run_id v2)" "decimal (gc_run_attempt c') = Inr (ge_run_attempt v2)"
      using v(3) by (auto simp: verify_github_def decode_token_def split: if_splits prod.splits)
    have "p = p'" using assms(1) a(1) b(1) unfolding jwt_ok_def by blast
    then have c: "c' = c" using a(2) b(2) by simp
    have "t2 \<le> t1 + (age + skew)"
      using accepted_window [OF check_github_match(10) [OF a(3)], of t2] check_github_match(10) [OF b(3)]
        assms(4,5) PcGithub c by simp
    then show ?thesis using a b c v by simp
  next
    case (PcForgejo f)
    obtain v1 v2 where v: "verify_forgejo env f jwks token pub corr (Some t1) = Inr v1" "e1 = EvForgejo v1"
      "verify_forgejo env f jwks' token pub corr' (Some t2) = Inr v2" "e2 = EvForgejo v2"
      using assms(2,3) PcForgejo by (auto simp: verify_rule_def)
    obtain p c k where a: "fe_jwt_decode env token k (proof_audience env pub) (fa_issuer f) = Some p"
      "forgejo_claims_from_value p = Some c" "check_forgejo_claims env f c pub t1 = Inr ()"
      "decimal (fc_run_id c) = Inr (fv_run_id v1)" "decimal (fc_run_attempt c) = Inr (fv_run_attempt v1)"
      using v(1) by (auto simp: verify_forgejo_def decode_token_def split: if_splits prod.splits)
    obtain p' c' k' where b: "fe_jwt_decode env token k' (proof_audience env pub) (fa_issuer f) = Some p'"
      "forgejo_claims_from_value p' = Some c'" "check_forgejo_claims env f c' pub t2 = Inr ()"
      "decimal (fc_run_id c') = Inr (fv_run_id v2)" "decimal (fc_run_attempt c') = Inr (fv_run_attempt v2)"
      using v(3) by (auto simp: verify_forgejo_def decode_token_def split: if_splits prod.splits)
    have "p = p'" using assms(1) a(1) b(1) unfolding jwt_ok_def by blast
    then have c: "c' = c" using a(2) b(2) by simp
    have "t2 \<le> t1 + (age + skew)"
      using accepted_window [OF check_forgejo_match(10) [OF a(3)], of t2] check_forgejo_match(10) [OF b(3)]
        assms(4,5) PcForgejo c by simp
    then show ?thesis using a b c v by simp
  qed
  then show "evidence_run e1 = evidence_run e2" and "t2 \<le> t1 + (age + skew)" by auto
qed

text \<open>
  A token that is accepted twice is charged to the same run bucket of the same rule, and
  the second acceptance comes no later than the retention deadline of the bucket the first one
  charged. A bucket idle for longer than its retention is therefore out of reach of every token
  it was charged with.
\<close>

theorem token_stays_within_retention:
  assumes "jwt_ok env" and "with_experimental_providers env rs exps = Inr c"
    and "l \<in> set (pc_rules c)" and "r \<in> set (pc_rules c)"
    and "verify_rule env l jwks token pub corr (Some t1) = Inr e1"
    and "verify_rule env r jwks' token pub corr' (Some t2) = Inr e2"
    and "int (t1 + (pr_max_token_age_secs l + pr_clock_skew_secs l)) \<le> i64_max"
  shows "l = r \<and> evidence_run e1 = evidence_run e2 \<and>
    int t2 \<le> retention_deadline (int t1) (pr_max_token_age_secs l + pr_clock_skew_secs l)"
proof -
  note p = catalog_parts [OF assms(2)]
  have eq: "l = r"
    using sorted_wrt_unique [OF p(4), of l r] assms(3,4) p(1)
      verified_rules_overlap [OF assms(1,5,6)] verified_rules_overlap [OF assms(1,6,5)] by simp
  have b: "rule_time_bounds (pr_provider l) = (pr_max_token_age_secs l, pr_clock_skew_secs l)"
    using catalog_rule_bounds(1) [OF p(3)] assms(3) p(1) by simp
  have le: "t1 + pr_clock_skew_secs l \<le> u64_max"
    using assms(7) by (simp add: i64_max_def u64_max_def)
  note s = same_token_evidence [OF assms(1,5) assms(6) [folded eq] b le]
  have "int t1 + int (pr_max_token_age_secs l + pr_clock_skew_secs l)
      \<le> retention_deadline (int t1) (pr_max_token_age_secs l + pr_clock_skew_secs l)"
    by (rule retention_deadline_ge) (use assms(7) in simp_all)
  then show ?thesis using eq s by simp
qed

text \<open>
  The deadline itself is still reachable: at that second the token is accepted while its
  exhausted bucket is already reclaimable, so pressure on the rule lets the same token start
  a second quota.
\<close>

definition boundary_charges :: "(nat \<times> RunQuotaKey \<times> nat option \<times> nat \<times> int) list" where
  "boundary_charges =
     [(1, demo_key 7, Some 1, 90, 1000), (1, demo_key 8, Some 1, 90, 1000),
      (1, demo_key 9, Some 1, 90, 1090), (1, demo_key 7, Some 1, 90, 1090)]"

lemma exhausted_bucket_reopens_while_token_valid:
  "\<not> time_rejected 1030 None 5000 1000 30 60 \<and> \<not> time_rejected 1030 None 5000 1090 30 60 \<and>
   map ce_result (fst (charge_all boundary_charges (RunQuotaTable_new 2))) =
     [Inr \<lparr>charged_count = 1, remaining = 0\<rparr>, Inr \<lparr>charged_count = 1, remaining = 0\<rparr>,
      Inr \<lparr>charged_count = 1, remaining = 0\<rparr>, Inr \<lparr>charged_count = 1, remaining = 0\<rparr>]"
proof -
  have d: "retention_deadline 1000 90 = 1090" "retention_deadline 1090 90 = 1180"
    by (simp_all add: retention_deadline_def sat_add_i64_def clamp_i64_def i64_max_def i64_min_def)
  have "map ce_result (fst (charge_all boundary_charges (RunQuotaTable_new 2))) =
      [Inr \<lparr>charged_count = 1, remaining = 0\<rparr>, Inr \<lparr>charged_count = 1, remaining = 0\<rparr>,
      Inr \<lparr>charged_count = 1, remaining = 0\<rparr>, Inr \<lparr>charged_count = 1, remaining = 0\<rparr>]"
    by (simp add: boundary_charges_def charge_with_receipt_def RunQuotaTable_new_def Let_def
        enter_generation_def hm_get_def tracked_buckets_def d open_bucket_def
        reclaim_expired_def reclaim_key_def hm_remove_def)
  then show ?thesis by (simp add: time_rejected_def sat_add_u64_def u64_max_def)
qed

section \<open>Artifact targets stay out of software custody\<close>

text \<open>
  No signing target of an accepted federation catalog is ever served by the local-software
  provider: for every target the key catalog knows, the provider selection ends in the backend or
  in a refusal, whatever the backend supports and whatever grant the caller holds.
\<close>

theorem artifact_targets_never_software:
  assumes "validate_artifact_targets c catalog = Inr ()"
    and "r \<in> set (pc_rules c)" and "target \<in> set (pr_artifact_sign_key_ids r)"
    and "bt_get (keys catalog) target = Some key"
  shows "select_provider (metadata_from_key key) native allowed op \<noteq> Inr LocalSoftware
    \<and> ke_key_type key \<notin> {Some MlDsa44, Some MlDsa65, Some MlDsa87}"
proof -
  have "target \<in> set (concat (map pr_artifact_sign_key_ids (pc_rules c)))"
    using assms(2,3) by auto
  with assms(1,4) have "\<not> unsupported_target key"
    by (fastforce simp: validate_artifact_targets_def res_each_Inr split: if_splits)
  then show ?thesis
    by (auto simp: unsupported_target_def Let_def select_provider_def select_backend_required_def
        select_backend_preferred_def select_local_software_def require_local_software_allowed_def
        require_software_custody_def split: ProviderPolicy.splits if_splits)
qed


section \<open>Trust-root bundles\<close>

definition owner_safe :: "FedEnv \<Rightarrow> FileMeta \<Rightarrow> bool" where
  "owner_safe env m \<longleftrightarrow>
     (fm_uid m = 0 \<or> fm_uid m = fe_euid env) \<and> \<not> mode_group_other_write (fm_mode m)"

lemma ca_walk_Inr:
  assumes "ca_walk env pre cs = Inr (leaf, ident)"
  shows "\<exists>ns m. cs = map Normal ns \<and> ns \<noteq> [] \<and> leaf = pre @ ns \<and>
    fe_open_leaf env leaf = Some m \<and> fm_is_file m \<and> fm_nlink m = 1 \<and> owner_safe env m \<and> ident = fm_identity m \<and>
    (\<forall>i. 0 < i \<longrightarrow> i < length ns \<longrightarrow>
       (\<exists>d. fe_open_dir env (pre @ take i ns) = Some d \<and> fm_is_dir d \<and> owner_safe env d))"
  using assms
proof (induction env pre cs rule: ca_walk.induct)
  case (2 env pre c cs)
  obtain n where c: "c = Normal n" using "2.prems" by (cases c) auto
  show ?case
  proof (cases "cs = []")
    case True
    then show ?thesis
      using "2.prems" c
      by (intro exI [of _ "[n]"])
        (auto simp: validate_ca_leaf_def owner_safe_def split: if_splits)
  next
    case False
    obtain d where d: "fe_open_dir env (pre @ [n]) = Some d" "validate_ca_directory env d = Inr ()"
      and w: "ca_walk env (pre @ [n]) cs = Inr (leaf, ident)"
      using "2.prems" False c by auto
    obtain x where x: "fe_open_dir env (pre @ [n]) = Some x" using d by auto
    from "2.IH" c False d w
    obtain ns m where ih: "cs = map Normal ns" "ns \<noteq> []" "leaf = (pre @ [n]) @ ns"
      "fe_open_leaf env leaf = Some m" "fm_is_file m" "fm_nlink m = 1" "owner_safe env m" "ident = fm_identity m"
      "\<forall>i. 0 < i \<longrightarrow> i < length ns \<longrightarrow>
         (\<exists>d. fe_open_dir env ((pre @ [n]) @ take i ns) = Some d \<and> fm_is_dir d \<and> owner_safe env d)"
      by blast
    have ok: "fm_is_dir d \<and> owner_safe env d"
      using d(2) by (auto simp: validate_ca_directory_def owner_safe_def split: if_splits)
    have dirs: "\<exists>q. fe_open_dir env (pre @ take i (n # ns)) = Some q \<and> fm_is_dir q \<and> owner_safe env q"
      if pos: "0 < i" and len: "i < length (n # ns)" for i
    proof (cases "i = 1")
      case True
      then show ?thesis using d(1) ok by simp
    next
      case False
      then obtain j where "i = Suc j" "0 < j" using pos by (cases i) auto
      then show ?thesis using ih(9) len by simp
    qed
    show ?thesis
      by (intro exI [of _ "n # ns"] exI [of _ m]) (use ih c dirs in auto)
  qed
qed simp

lemma certificate_loop_Inr:
  assumes "certificate_loop env bytes certs = Inr out" and "length certs \<le> MAX_CA_CERTIFICATES"
    and "\<forall>x \<in> set certs. fe_certificate env x"
  shows "length out \<le> MAX_CA_CERTIFICATES \<and> (\<forall>x \<in> set out. fe_certificate env x)"
  using assms
proof (induction env bytes certs rule: certificate_loop.induct)
  case (1 env bytes certs)
  show ?case
  proof (cases "trim_ascii bytes = []")
    case True
    then show ?thesis using "1.prems" by (subst (asm) certificate_loop.simps) (simp add: Let_def)
  next
    case False
    then obtain rest label contents der where s:
      "take (length BEGIN_CERTIFICATE) (trim_ascii bytes) = BEGIN_CERTIFICATE"
      "fe_pem env (trim_ascii bytes) = Some (rest, label, contents)" "label = ''CERTIFICATE''"
      "fe_x509 env contents = Some der" "der = []" "length certs < MAX_CA_CERTIFICATES"
      "fe_certificate env contents" "certificate_loop env rest (certs @ [contents]) = Inr out"
      using "1.prems"(1)
      by (subst (asm) certificate_loop.simps) (auto simp: Let_def split: if_splits option.splits)
    show ?thesis
      by (rule "1.IH" [OF refl False _ s(2) refl refl _ s(4)]) (use s "1.prems" in auto)
  qed
qed

text \<open>
  C19: A custom trust-root bundle that a provider is resolved with is an absolute path whose
  every directory is a real directory owned by root or the broker and not writable by group or
  others, and whose file is a regular, singly linked file with the same ownership and mode; its
  content did not change between opening and the end of the read, has 1 to 262144 bytes and
  yields 1 to 64 certificates. Revalidation later accepts exactly the file identity that was
  pinned.
\<close>

theorem trust_bundle_pinned:
  assumes "resolve_provider_trust env p = Inr t" and "provider_ca_bundle_path p = Some path"
  shows "\<exists>ns m after certs.
    components path = RootDir # map Normal ns \<and> ns \<noteq> [] \<and>
    (\<forall>i. 0 < i \<and> i < length ns \<longrightarrow>
       (\<exists>d. fe_open_dir env (take i ns) = Some d \<and> fm_is_dir d \<and> owner_safe env d)) \<and>
    fe_open_leaf env ns = Some m \<and> fm_is_file m \<and> fm_nlink m = 1 \<and> owner_safe env m \<and>
    fe_meta_after env ns = Some after \<and> fm_identity after = fm_identity m \<and>
    1 \<le> ca_length (fm_identity m) \<and> ca_length (fm_identity m) \<le> 262144 \<and>
    custom_roots t = Some certs \<and> 1 \<le> length certs \<and> length certs \<le> 64 \<and>
    (trust_revalidate env' t = Inr () \<longleftrightarrow>
       (\<exists>leaf. open_validated_ca_file env' path = Inr (leaf, fm_identity m)))"
proof -
  obtain leaf ident where o: "open_validated_ca_file env path = Inr (leaf, ident)"
    using assms by (auto simp: resolve_provider_trust_def)
  then obtain rest where w: "components path = RootDir # rest" "ca_walk env [] rest = Inr (leaf, ident)"
    by (auto simp: open_validated_ca_file_def split: list.splits Component.splits if_splits)
  obtain ns m where n: "rest = map Normal ns" "ns \<noteq> []" "leaf = ns" "fe_open_leaf env leaf = Some m"
    "fm_is_file m" "fm_nlink m = 1" "owner_safe env m" "ident = fm_identity m"
    "\<forall>i. 0 < i \<longrightarrow> i < length ns \<longrightarrow>
       (\<exists>d. fe_open_dir env (take i ns) = Some d \<and> fm_is_dir d \<and> owner_safe env d)"
    using ca_walk_Inr [OF w(2)] by auto
  obtain certs after bytes where r: "fe_meta_after env leaf = Some after" "ident = fm_identity after"
    "parse_certificate_only_pem env bytes = Inr certs" "ca_length ident \<noteq> 0"
    "ca_length ident \<le> MAX_CA_BUNDLE_BYTES"
    "t = \<lparr>custom_roots = Some certs, pinned_file = Some (path, ident)\<rparr>"
    using assms o by (auto simp: resolve_provider_trust_def Let_def split: if_splits)
  have c: "certs \<noteq> []" "length certs \<le> MAX_CA_CERTIFICATES"
    using r(3) certificate_loop_Inr [of env bytes "[]"]
    by (auto simp: parse_certificate_only_pem_def split: if_splits)
  have "trust_revalidate env' t = Inr () \<longleftrightarrow>
      (\<exists>leaf. open_validated_ca_file env' path = Inr (leaf, fm_identity m))"
    using r(6) n(8) by (auto simp: trust_revalidate_def split: if_splits)
  moreover have "1 \<le> length certs \<and> length certs \<le> 64"
    using c by (cases certs) (auto simp: MAX_CA_CERTIFICATES_def)
  ultimately show ?thesis
    using w n r
    by (intro exI [of _ ns] exI [of _ m] exI [of _ after] exI [of _ certs])
      (simp add: MAX_CA_BUNDLE_BYTES_def)
qed


section \<open>A concrete federation\<close>

definition demo_payload :: Json where
  "demo_payload = JObj
     [(''iss'', JStr GITHUB_ISSUER), (''aud'', JStr ''urn:basil:ci:jkt:T''), (''sub'', JStr ''s''),
      (''repository'', JStr ''o/r''), (''repository_id'', JStr ''5''), (''repository_owner_id'', JStr ''6''),
      (''event_name'', JStr ''push''), (''ref'', JStr ''refs/heads/main''), (''job_workflow_ref'', JStr ''w''),
      (''job_workflow_sha'', JStr ''c''), (''runner_environment'', JStr ''hosted''), (''run_id'', JStr ''7''),
      (''run_attempt'', JStr ''1''), (''jti'', JStr ''j''), (''iat'', JInt 1000), (''exp'', JInt 2000)]"

definition demo_identity :: CaFileIdentity where
  "demo_identity = \<lparr>ca_device = 1, ca_inode = 2, ca_length = 27, ca_modified = (4, 5), ca_changed = (6, 7)\<rparr>"

definition demo_meta :: "bool \<Rightarrow> FileMeta" where
  "demo_meta dir = \<lparr>fm_is_dir = dir, fm_is_file = (\<not> dir), fm_uid = 0, fm_mode = 0, fm_nlink = 1,
     fm_identity = demo_identity\<rparr>"

definition demo_fed :: FedEnv where
  "demo_fed = \<lparr>
     fe_url = (\<lambda>s. Some \<lparr>u_scheme = ''https'', u_username = [], u_password = None, u_query = None,
       u_fragment = None, u_origin = ''origin'', u_path = ''/'', u_text = s\<rparr>),
     fe_jwt_header = (\<lambda>t. Some (RS256, Some ''kid'')),
     fe_jwt_decode = (\<lambda>t k a i. if t = ''tok'' then Some demo_payload else None),
     fe_sha256 = (\<lambda>x. x), fe_hmac = (\<lambda>k x. Some []), fe_b64url = (\<lambda>x. ''T''),
     fe_b64url_decode = (\<lambda>s. None), fe_json = (\<lambda>s. None), fe_euid = 100,
     fe_open_dir = (\<lambda>p. Some (demo_meta True)), fe_open_leaf = (\<lambda>p. Some (demo_meta False)),
     fe_read = (\<lambda>p. Some (BEGIN_CERTIFICATE)), fe_meta_after = (\<lambda>p. Some (demo_meta False)),
     fe_pem = (\<lambda>b. Some ([], ''CERTIFICATE'', [1])), fe_x509 = (\<lambda>b. Some []),
     fe_certificate = (\<lambda>b. True)\<rparr>"

definition demo_github :: GithubActionsRule where
  "demo_github = \<lparr>ga_issuer = GITHUB_ISSUER, ga_discovery_url = ''d'', ga_jwks_url = ''j'',
     ga_ca_bundle_path = None, ga_audience_prefix = AUDIENCE_PREFIX, ga_repository_id = 5,
     ga_repository_owner_id = 6, ga_job_workflow_ref = ''w'', ga_job_workflow_sha = ''c'',
     ga_protected_refs = [''refs/heads/main''], ga_events = [''push''],
     ga_runner_environments = [''hosted''], ga_environment = None, ga_max_token_age_secs = 300,
     ga_clock_skew_secs = 30\<rparr>"

definition demo_rule :: ProviderRule where
  "demo_rule = \<lparr>pr_id = ''rule'', pr_subject = ''ci'', pr_audience = ''broker'',
     pr_operation_profiles = [ArtifactSign], pr_artifact_sign_key_ids = [''art''],
     pr_max_token_age_secs = 300, pr_clock_skew_secs = 30, pr_max_operations_per_run = Some 2,
     pr_provider = PcGithub demo_github\<rparr>"

definition demo_providers :: ProviderCatalog where
  "demo_providers = \<lparr>pc_rules = [demo_rule],
     pc_resolved_trust = [(''rule'', \<lparr>custom_roots = None, pinned_file = None\<rparr>)]\<rparr>"

lemma demo_texts:
  "\<not> has_control ''rule''" "\<not> has_control ''ci''" "\<not> has_control ''broker''" "\<not> has_control ''art''"
  "\<not> has_control ''o/r''" "\<not> has_control ''s''" "\<not> has_control ''push''" "\<not> has_control ''w''"
  "\<not> has_control ''c''" "\<not> has_control ''hosted''" "\<not> has_control ''j''"
  "\<not> has_control ''refs/heads/main''" "\<not> has_control GITHUB_ISSUER" "\<not> has_control ''urn:basil:ci:jkt:T''"
  "length GITHUB_ISSUER = 43" "GITHUB_ISSUER \<noteq> []"
  by code_simp+

lemma demo_urls: "validate_urls demo_fed GITHUB_ISSUER ''d'' ''j'' = Inr ()"
  by (simp add: validate_urls_def demo_fed_def demo_texts MAX_PROVIDER_URL_BYTES_def url_refused_def ok_or_def)

lemma demo_github_ok: "validate_github_rule demo_github = Inr ()"
  by (simp add: validate_github_rule_def demo_github_def)

lemma demo_providers_constructed: "with_experimental_providers demo_fed [demo_rule] [] = Inr demo_providers"
  by (simp add: with_experimental_providers_def demo_rule_def demo_providers_def MAX_PROVIDER_RULES_def
      validate_common_rule_def MAX_RULE_ID_BYTES_def MAX_SUBJECT_BYTES_def MAX_AUDIENCE_BYTES_def
      MAX_OPERATION_PROFILES_def MAX_ARTIFACT_SIGN_KEY_IDS_def demo_texts Let_def provider_validate_def
      demo_github_ok demo_urls resolve_provider_trust_def bt_of_list_def)
    (simp add: demo_github_def demo_urls resolve_provider_trust_def)

lemma demo_jwt: "jwt_ok demo_fed"
  by (auto simp: jwt_ok_def demo_fed_def split: if_splits)

definition demo_selection :: GithubSelection where
  "demo_selection = \<lparr>gs_repository_id = 5, gs_repository_owner_id = 6, gs_workflow_ref = ''w'',
     gs_workflow_sha = ''c'', gs_ref_name = ''refs/heads/main'', gs_event_name = ''push'',
     gs_runner_environment = ''hosted'', gs_environment = None\<rparr>"

definition demo_forgejo_selection :: ForgejoSelection where
  "demo_forgejo_selection = \<lparr>fs_repository_id = 5, fs_repository_owner_id = 6, fs_workflow_ref = ''w'',
     fs_ref_name = ''refs/heads/main'', fs_ref_type = ''branch'', fs_sha = ''c'', fs_run_id = 7,
     fs_run_attempt = 1\<rparr>"

lemma catalog_selection_unambiguous_witness:
  "select_github demo_providers demo_selection = Inr demo_rule \<and>
   select_forgejo demo_providers demo_forgejo_selection = Inl NoMatchingRule"
  using catalog_selection_unambiguous [OF demo_providers_constructed, of demo_selection demo_forgejo_selection]
  by (simp add: github_selected_def forgejo_selected_def demo_rule_def demo_github_def demo_selection_def)


definition demo_keys :: GenerationJwks where
  "demo_keys = \<lparr>gj_generation = 1, gj_keys = [(''kid'', \<lparr>jwk_kid = ''kid'', jwk_n = ''n'', jwk_e = ''e''\<rparr>)]\<rparr>"

definition demo_evidence :: ProviderClaimEvidence where
  "demo_evidence = EvGithub
     \<lparr>ge_repository_id = 5, ge_repository_owner_id = 6, ge_repository = ''o/r'', ge_actor_id = None,
      ge_workflow_ref = ''w'', ge_workflow_sha = ''c'', ge_ref_name = ''refs/heads/main'',
      ge_event_name = ''push'', ge_runner_environment = ''hosted'', ge_environment = None,
      ge_run_id = 7, ge_run_attempt = 1, ge_jti_digest = [], ge_token_digest = []\<rparr>"

definition demo_claims :: GithubClaims where
  "demo_claims = \<lparr>gc_iss = GITHUB_ISSUER, gc_aud = ''urn:basil:ci:jkt:T'', gc_sub = ''s'',
     gc_repository = ''o/r'', gc_repository_id = ''5'', gc_repository_owner_id = ''6'', gc_actor_id = None,
     gc_event_name = ''push'', gc_ref = ''refs/heads/main'', gc_job_workflow_ref = ''w'',
     gc_job_workflow_sha = ''c'', gc_runner_environment = ''hosted'', gc_environment = None,
     gc_run_id = ''7'', gc_run_attempt = ''1'', gc_jti = ''j'', gc_iat = 1000, gc_nbf = None, gc_exp = 2000\<rparr>"

lemma demo_claims_read: "github_claims_from_value demo_payload = Some demo_claims"
  by (simp add: github_claims_from_value_def demo_payload_def demo_claims_def struct_members_def Let_def
      str_member_def u64_member_def opt_member_def member_def)

lemma demo_decimals: "decimal ''5'' = Inr 5" "decimal ''6'' = Inr 6" "decimal ''7'' = Inr 7" "decimal ''1'' = Inr 1"
  by (simp_all add: decimal_def parse_unsigned_def is_ascii_digit_def byte_of_def u64_max_def)

lemma demo_audit: "validate_github_audit_claims demo_claims = Inr ()"
  by (simp add: validate_github_audit_claims_def validate_audit_claim_def demo_claims_def demo_texts
      MAX_PROVIDER_URL_BYTES_def MAX_AUDIT_WORKFLOW_BYTES_def MAX_AUDIT_TEXT_BYTES_def MAX_AUDIT_SHORT_BYTES_def)

lemma demo_checked:
  "970 \<le> n \<Longrightarrow> n \<le> 1300 \<Longrightarrow> check_github_claims demo_fed demo_github demo_claims [] n = Inr ()"
  by (simp add: check_github_claims_def demo_claims_def demo_github_def demo_decimals proof_audience_def
      AUDIENCE_PREFIX_def thumbprint_def time_rejected_def sat_add_u64_def u64_max_def)
    (simp add: demo_fed_def)

lemma demo_decoded: "decode_token demo_fed demo_keys ''tok'' [] (ga_issuer demo_github) = Inr demo_payload"
  by (simp add: decode_token_def jwks_key_def demo_keys_def bt_get_def)
    (simp add: demo_fed_def)

lemma demo_verified:
  assumes "970 \<le> n" and "n \<le> 1300"
  shows "verify_rule demo_fed demo_rule demo_keys ''tok'' [] [] (Some n) = Inr demo_evidence"
proof -
  have d: "correlation_digest demo_fed [] dom' x = Inr []" for dom' x
    by (simp add: correlation_digest_def) (simp add: demo_fed_def)
  have u: "validate_urls demo_fed (ga_issuer demo_github) (ga_discovery_url demo_github) (ga_jwks_url demo_github) = Inr ()"
    using demo_urls by (simp add: demo_github_def)
  have "verify_github demo_fed demo_github demo_keys ''tok'' [] [] (Some n) =
      Inr \<lparr>ge_repository_id = 5, ge_repository_owner_id = 6, ge_repository = ''o/r'', ge_actor_id = None,
      ge_workflow_ref = ''w'', ge_workflow_sha = ''c'', ge_ref_name = ''refs/heads/main'',
      ge_event_name = ''push'', ge_runner_environment = ''hosted'', ge_environment = None,
      ge_run_id = 7, ge_run_attempt = 1, ge_jti_digest = [], ge_token_digest = []\<rparr>"
    by (simp add: verify_github_def MAX_TOKEN_BYTES_def demo_github_ok u demo_decoded demo_claims_read
        demo_audit demo_checked [OF assms] d token_digest_def)
      (simp add: demo_claims_def demo_decimals opt_decimal_def)
  then show ?thesis by (simp add: verify_rule_def demo_rule_def demo_evidence_def)
qed

lemma token_verifies_under_one_rule_witness:
  "demo_rule = demo_rule \<and> verify_rule demo_fed demo_rule demo_keys ''tok'' [] [] (Some 1000) = Inr demo_evidence"
  using token_verifies_under_one_rule [OF demo_jwt demo_providers_constructed, of demo_rule demo_rule
      demo_keys "''tok''" "[]" "[]" "Some 1000" demo_evidence demo_keys "[]" "Some 1300" demo_evidence]
    demo_verified [of 1000] demo_verified [of 1300]
  by (simp add: demo_providers_def)

lemma token_stays_within_retention_witness:
  "int 1300 \<le> retention_deadline (int 970) 330"
  using token_stays_within_retention [OF demo_jwt demo_providers_constructed, of demo_rule demo_rule
      demo_keys "''tok''" "[]" "[]" 970 demo_evidence demo_keys "[]" 1300 demo_evidence]
    demo_verified [of 970] demo_verified [of 1300]
  by (simp add: demo_providers_def demo_rule_def i64_max_def)

definition demo_ca_provider :: ProviderConfig where
  "demo_ca_provider = PcGithub (demo_github\<lparr>ga_ca_bundle_path := Some ''/etc/ca.pem''\<rparr>)"


definition demo_trust :: ResolvedProviderTrust where
  "demo_trust = \<lparr>custom_roots = Some [[1]], pinned_file = Some (''/etc/ca.pem'', demo_identity)\<rparr>"

lemma demo_begin: "length BEGIN_CERTIFICATE = 27" "trim_ascii BEGIN_CERTIFICATE = BEGIN_CERTIFICATE"
  "BEGIN_CERTIFICATE \<noteq> []" "trim_ascii [] = []"
  by code_simp+

lemma demo_pem: "parse_certificate_only_pem demo_fed BEGIN_CERTIFICATE = Inr [[1]]"
proof -
  have "certificate_loop demo_fed [] [[1]] = Inr [[1]]"
    by (subst certificate_loop.simps) (simp add: demo_begin)
  then have "certificate_loop demo_fed BEGIN_CERTIFICATE [] = Inr [[1]]"
    by (subst certificate_loop.simps)
      (simp add: demo_begin Let_def, simp add: demo_fed_def MAX_CA_CERTIFICATES_def)
  then show ?thesis by (simp add: parse_certificate_only_pem_def)
qed

lemma demo_ca_opened: "open_validated_ca_file demo_fed ''/etc/ca.pem'' = Inr ([''etc'', ''ca.pem''], demo_identity)"
proof -
  have c: "components ''/etc/ca.pem'' = [RootDir, Normal ''etc'', Normal ''ca.pem'']" by code_simp
  have "fe_open_dir demo_fed q = Some (demo_meta True)" "fe_open_leaf demo_fed q = Some (demo_meta False)" for q
    by (simp_all add: demo_fed_def)
  moreover have "validate_ca_directory demo_fed (demo_meta True) = Inr ()"
    "validate_ca_leaf demo_fed (demo_meta False) = Inr ()"
    by (simp_all add: validate_ca_directory_def validate_ca_leaf_def demo_meta_def mode_group_other_write_def)
  moreover have "fm_identity (demo_meta False) = demo_identity" by (simp add: demo_meta_def)
  ultimately show ?thesis
    by (simp add: open_validated_ca_file_def c ok_or_def)
qed

lemma demo_trust_resolved: "resolve_provider_trust demo_fed demo_ca_provider = Inr demo_trust"
proof -
  have p: "provider_ca_bundle_path demo_ca_provider = Some ''/etc/ca.pem''" by (simp add: demo_ca_provider_def)
  have r: "fe_read demo_fed q = Some BEGIN_CERTIFICATE" "fe_meta_after demo_fed q = Some (demo_meta False)" for q
    by (simp_all add: demo_fed_def)
  show ?thesis
    by (simp add: resolve_provider_trust_def p demo_ca_opened demo_identity_def MAX_CA_BUNDLE_BYTES_def r
        Let_def demo_begin ok_or_def demo_meta_def demo_pem demo_trust_def)
qed

lemma trust_bundle_pinned_witness:
  "\<exists>ns m after certs.
    components ''/etc/ca.pem'' = RootDir # map Normal ns \<and> ns \<noteq> [] \<and>
    (\<forall>i. 0 < i \<and> i < length ns \<longrightarrow>
       (\<exists>d. fe_open_dir demo_fed (take i ns) = Some d \<and> fm_is_dir d \<and> owner_safe demo_fed d)) \<and>
    fe_open_leaf demo_fed ns = Some m \<and> fm_is_file m \<and> fm_nlink m = 1 \<and> owner_safe demo_fed m \<and>
    fe_meta_after demo_fed ns = Some after \<and> fm_identity after = fm_identity m \<and>
    1 \<le> ca_length (fm_identity m) \<and> ca_length (fm_identity m) \<le> 262144 \<and>
    custom_roots demo_trust = Some certs \<and> 1 \<le> length certs \<and> length certs \<le> 64 \<and>
    (trust_revalidate demo_fed demo_trust = Inr () \<longleftrightarrow>
       (\<exists>leaf. open_validated_ca_file demo_fed ''/etc/ca.pem'' = Inr (leaf, fm_identity m)))"
  by (rule trust_bundle_pinned [OF demo_trust_resolved]) (simp add: demo_ca_provider_def)

definition demo_artifact_key :: KeyEntry where
  "demo_artifact_key = \<lparr>ke_class = Asymmetric, ke_key_type = Some Ed25519, ke_backend = ''v'', ke_engine = None,
     ke_path = ''p'', ke_public_path = None, ke_writable = False, ke_missing = MissingError,
     ke_nix_cache = None, ke_generate = None, ke_sealing_pin = None, ke_labels = [], ke_description = ''d''\<rparr>"

lemma artifact_targets_never_software_witness:
  "select_provider (metadata_from_key demo_artifact_key) False True ''sign'' \<noteq> Inr LocalSoftware"
  using artifact_targets_never_software [of demo_providers
      "\<lparr>backends = [], keys = [(''art'', demo_artifact_key)]\<rparr>" demo_rule "''art''" demo_artifact_key False True "''sign''"]
  by (simp add: validate_artifact_targets_def demo_providers_def demo_rule_def bt_get_def
      unsupported_target_def demo_artifact_key_def metadata_from_key_def)

end
