(* ===== verification/Jwks_Cache.thy ===== *)
theory Jwks_Cache
  imports Federation Configuration
begin

text \<open>
  The generation-owned key sets of CI federation (\<open>core/ci_federation.rs\<close>) and their use on
  the serving path (\<open>service/invocation.rs\<close>): strict parsing of a JWKS, the cache with its
  freshness window, outage grace and refresh cooldown, and the resolution of the key set for
  one rule, whose fetch runs between two locked sections.

  Instants and durations are integers of nanoseconds. A fetch is an argument: what the HTTP
  client returned. What other requests did to the cache during a fetch is an argument of the
  resolution.

  Results: every accepted key is an RS256 verification key of 2048 to 4096 bits; a key set is
  served only within its age bounds, over every interleaving; refresh attempts are at least
  one cooldown apart even when the clock moves backwards; a late fetch never replaces a newer
  key set.
\<close>

section \<open>Parsing\<close>

definition MIN_RSA_MODULUS_BYTES :: nat where "MIN_RSA_MODULUS_BYTES = 256"
definition MAX_RSA_MODULUS_BYTES :: nat where "MAX_RSA_MODULUS_BYTES = 512"
definition MAX_JWKS_BODY_BYTES :: nat where "MAX_JWKS_BODY_BYTES = 64 * 1024"

definition obj_get :: "(string \<times> Json) list \<Rightarrow> string \<Rightarrow> Json option" where
  "obj_get ms name = map_of ms name"

definition string_field :: "(string \<times> Json) list \<Rightarrow> string \<Rightarrow> FederationError + string" where
  "string_field ms name =
     ok_or (case Option.bind (obj_get ms name) as_str of
              Some v \<Rightarrow> if v \<noteq> [] then Some v else None | None \<Rightarrow> None) Malformed"

definition validate_rsa_jwk :: "FedEnv \<Rightarrow> RsaJwk \<Rightarrow> FederationError + unit" where
  "validate_rsa_jwk env jwk =
     res_bind (ok_or (fe_b64url_decode env (jwk_n jwk)) InvalidKey) (\<lambda>modulus.
     res_bind (ok_or (fe_b64url_decode env (jwk_e jwk)) InvalidKey) (\<lambda>exponent.
     if \<not> (MIN_RSA_MODULUS_BYTES \<le> length modulus \<and> length modulus \<le> MAX_RSA_MODULUS_BYTES)
        \<or> (case modulus of [] \<Rightarrow> True | b # _ \<Rightarrow> b AND 0x80 = 0)
        \<or> exponent \<noteq> [1, 0, 1]
     then Inl InvalidKey else Inr ()))"

definition allowed_jwk_members :: "string list" where
  "allowed_jwk_members =
     [''kty'', ''kid'', ''alg'', ''use'', ''key_ops'', ''n'', ''e'', ''x5c'', ''x5t'', ''x5t#S256'']"

definition key_ops_ok :: "Json \<Rightarrow> bool" where
  "key_ops_ok ops \<longleftrightarrow>
     (case as_array ops of
        Some vs \<Rightarrow> length vs = 1 \<and> (case vs of v # _ \<Rightarrow> as_str v = Some ''verify'' | [] \<Rightarrow> False)
      | None \<Rightarrow> False)"

definition parse_jwk :: "FedEnv \<Rightarrow> Json \<Rightarrow> FederationError + RsaJwk" where
  "parse_jwk env key =
     res_bind (ok_or (as_object key) Malformed) (\<lambda>ms.
     if list_ex (\<lambda>(name, _). name \<notin> set allowed_jwk_members) ms
        \<or> Option.bind (obj_get ms ''kty'') as_str \<noteq> Some ''RSA''
        \<or> Option.bind (obj_get ms ''alg'') as_str \<noteq> Some ''RS256''
        \<or> Option.bind (obj_get ms ''use'') as_str \<noteq> Some ''sig''
     then Inl InvalidKey
     else if (case obj_get ms ''key_ops'' of Some ops \<Rightarrow> \<not> key_ops_ok ops | None \<Rightarrow> False)
     then Inl InvalidKey
     else
       res_bind (string_field ms ''kid'') (\<lambda>kid.
       res_bind (string_field ms ''n'') (\<lambda>n.
       res_bind (string_field ms ''e'') (\<lambda>e.
       let jwk = \<lparr>jwk_kid = kid, jwk_n = n, jwk_e = e\<rparr> in
       res_bind (validate_rsa_jwk env jwk) (\<lambda>_. Inr jwk)))))"

fun parse_keys_loop :: "FedEnv \<Rightarrow> Json list \<Rightarrow> (string, RsaJwk) btree \<Rightarrow> FederationError + (string, RsaJwk) btree" where
  "parse_keys_loop env [] out = Inr out"
| "parse_keys_loop env (k # ks) out =
     res_bind (parse_jwk env k) (\<lambda>jwk.
     if bt_get out (jwk_kid jwk) \<noteq> None then Inl DuplicateKid
     else parse_keys_loop env ks (bt_insert (jwk_kid jwk) jwk out))"

definition jwks_parse :: "FedEnv \<Rightarrow> nat \<Rightarrow> string \<Rightarrow> FederationError + GenerationJwks" where
  "jwks_parse env g body =
     (if length body > MAX_JWKS_BODY_BYTES then Inl (Oversized ''JWKS'')
      else
        res_bind (ok_or (map_option json_value (fe_json env body)) Malformed) (\<lambda>root.
        res_bind (ok_or (Option.bind (Option.bind (as_object root) (\<lambda>ms. obj_get ms ''keys'')) as_array) Malformed) (\<lambda>ks.
        res_bind (parse_keys_loop env ks []) (\<lambda>out.
        Inr \<lparr>gj_generation = g, gj_keys = out\<rparr>))))"

definition validate_discovery_document :: "FedEnv \<Rightarrow> string \<Rightarrow> string \<Rightarrow> string \<Rightarrow> FederationError + unit" where
  "validate_discovery_document env body expected_issuer expected_jwks_uri =
     res_bind (ok_or (Option.bind (fe_json env body) (struct_members False [''issuer'', ''jwks_uri''])) Malformed) (\<lambda>ms.
     res_bind (ok_or (str_member ms ''issuer'') Malformed) (\<lambda>iss.
     res_bind (ok_or (str_member ms ''jwks_uri'') Malformed) (\<lambda>uri.
     if iss \<noteq> expected_issuer \<or> uri \<noteq> expected_jwks_uri then Inl ProviderRejected else Inr ())))"

section \<open>The cache\<close>

datatype RedirectPolicy = RedirectReject

record JwksCachePolicy =
  max_body_bytes :: nat
  refresh_cooldown :: nat
  max_age :: nat
  stale_if_error :: nat
  redirect_policy :: RedirectPolicy

abbreviation secs :: "nat \<Rightarrow> nat" where "secs n \<equiv> n * 1000000000"

definition JwksCachePolicy_default :: JwksCachePolicy where
  "JwksCachePolicy_default = \<lparr>max_body_bytes = MAX_JWKS_BODY_BYTES, refresh_cooldown = secs 1,
     max_age = secs 300, stale_if_error = secs 30, redirect_policy = RedirectReject\<rparr>"

definition duration_max :: nat where
  "duration_max = u64_max * 1000000000 + 999999999"

definition sat_add_duration :: "nat \<Rightarrow> nat \<Rightarrow> nat" where
  "sat_add_duration a b = min (a + b) duration_max"

text \<open>\<open>now.duration_since(t)\<close>: an error when \<open>t\<close> is later than \<open>now\<close>.\<close>

definition duration_since :: "int \<Rightarrow> int \<Rightarrow> nat option" where
  "duration_since now t = (if t \<le> now then Some (nat (now - t)) else None)"

record GenerationJwksCache =
  jc_generation :: nat
  jc_issuer :: string
  jc_discovery_url :: Url
  jc_jwks_url :: Url
  jc_policy :: JwksCachePolicy
  jc_keys :: "GenerationJwks option"
  jc_fetched_at :: "int option"
  jc_last_refresh_attempt :: "int option"

definition cache_new :: "FedEnv \<Rightarrow> nat \<Rightarrow> ProviderConfig \<Rightarrow> JwksCachePolicy \<Rightarrow> FederationError + GenerationJwksCache" where
  "cache_new env g p policy =
     res_bind (provider_validate env p) (\<lambda>_.
     if max_body_bytes policy = 0 \<or> max_body_bytes policy > MAX_JWKS_BODY_BYTES then Inl InvalidCachePolicy
     else
       res_bind (ok_or (fe_url env (provider_discovery_url p)) InvalidUrl) (\<lambda>d.
       res_bind (ok_or (fe_url env (provider_jwks_url p)) InvalidUrl) (\<lambda>j.
       Inr \<lparr>jc_generation = g, jc_issuer = provider_issuer p, jc_discovery_url = d, jc_jwks_url = j,
         jc_policy = policy, jc_keys = None, jc_fetched_at = None, jc_last_refresh_attempt = None\<rparr>)))"

definition should_refresh_on_unknown_kid :: "GenerationJwksCache \<Rightarrow> int \<Rightarrow> bool" where
  "should_refresh_on_unknown_kid c now \<longleftrightarrow>
     (case jc_last_refresh_attempt c of
        None \<Rightarrow> True
      | Some attempt \<Rightarrow>
          (case duration_since now attempt of
             Some elapsed \<Rightarrow> elapsed \<ge> refresh_cooldown (jc_policy c) | None \<Rightarrow> False))"

definition try_begin_refresh :: "GenerationJwksCache \<Rightarrow> int \<Rightarrow> bool \<times> GenerationJwksCache" where
  "try_begin_refresh c now =
     (if \<not> should_refresh_on_unknown_kid c now then (False, c)
      else (True, c\<lparr>jc_last_refresh_attempt := Some now\<rparr>))"

definition keys_are_fresh :: "GenerationJwksCache \<Rightarrow> int \<Rightarrow> bool" where
  "keys_are_fresh c now \<longleftrightarrow>
     jc_keys c \<noteq> None \<and>
     (case jc_fetched_at c of
        Some fetched \<Rightarrow>
          (case duration_since now fetched of Some age \<Rightarrow> age \<le> max_age (jc_policy c) | None \<Rightarrow> False)
      | None \<Rightarrow> False)"

definition keys_within_stale_window :: "GenerationJwksCache \<Rightarrow> int \<Rightarrow> bool" where
  "keys_within_stale_window c now \<longleftrightarrow>
     jc_keys c \<noteq> None \<and>
     (case jc_fetched_at c of
        Some fetched \<Rightarrow>
          (case duration_since now fetched of
             Some age \<Rightarrow> age \<le> sat_add_duration (max_age (jc_policy c)) (stale_if_error (jc_policy c))
           | None \<Rightarrow> False)
      | None \<Rightarrow> False)"

definition cache_install :: "GenerationJwks \<Rightarrow> int \<Rightarrow> GenerationJwksCache \<Rightarrow> GenerationJwksCache" where
  "cache_install ks now c =
     (if (case jc_fetched_at c of Some installed \<Rightarrow> now < installed | None \<Rightarrow> False) then c
      else c\<lparr>jc_keys := Some ks, jc_fetched_at := Some now\<rparr>)"

definition cached_key :: "GenerationJwksCache \<Rightarrow> string \<Rightarrow> RsaJwk option" where
  "cached_key c kid = Option.bind (jc_keys c) (\<lambda>ks. jwks_key ks kid)"

datatype ServeDecision =
    Fresh GenerationJwks
  | Revalidate (refresh_allowed: bool) (stale: "GenerationJwks option")
  | UnknownKid bool

definition serve_or_revalidate :: "string \<Rightarrow> int \<Rightarrow> GenerationJwksCache \<Rightarrow> ServeDecision \<times> GenerationJwksCache" where
  "serve_or_revalidate kid now c =
     (case jc_keys c of
        Some ks \<Rightarrow>
          if jwks_key ks kid \<noteq> None then
            if keys_are_fresh c now then (Fresh ks, c)
            else (case try_begin_refresh c now of
              (allowed, c') \<Rightarrow> (Revalidate allowed (if keys_within_stale_window c' now then Some ks else None), c'))
          else (case try_begin_refresh c now of (allowed, c') \<Rightarrow> (UnknownKid allowed, c'))
      | None \<Rightarrow> (case try_begin_refresh c now of (allowed, c') \<Rightarrow> (UnknownKid allowed, c')))"

text \<open>A document as the fetch contract returns it.\<close>

record FetchedDocument =
  fd_url :: Url
  fd_status :: nat
  fd_redirected :: bool
  fd_body :: string

definition fetch_document ::
  "(Url \<Rightarrow> FederationError + FetchedDocument) \<Rightarrow> GenerationJwksCache \<Rightarrow> Url \<Rightarrow> FederationError + FetchedDocument" where
  "fetch_document fetch c expected =
     res_bind (fetch expected) (\<lambda>r.
     if fd_url r \<noteq> expected then Inl InvalidUrl
     else if fd_redirected r \<and> redirect_policy (jc_policy c) = RedirectReject then Inl RedirectRejected
     else if length (fd_body r) > max_body_bytes (jc_policy c) then Inl (Oversized ''provider document'')
     else if \<not> (200 \<le> fd_status r \<and> fd_status r < 300) then Inl FetchRejected
     else Inr r)"

definition fetch_and_parse ::
  "FedEnv \<Rightarrow> (Url \<Rightarrow> FederationError + FetchedDocument) \<Rightarrow> GenerationJwksCache \<Rightarrow> FederationError + GenerationJwks" where
  "fetch_and_parse env fetch c =
     res_bind (fetch_document fetch c (jc_discovery_url c)) (\<lambda>discovery.
     res_bind (validate_discovery_document env (fd_body discovery) (jc_issuer c) (u_text (jc_jwks_url c))) (\<lambda>_.
     res_bind (fetch_document fetch c (jc_jwks_url c)) (\<lambda>jwks.
     jwks_parse env (jc_generation c) (fd_body jwks))))"

datatype RefreshOutcome = RefreshFresh | RefreshStale

definition cache_refresh ::
  "FedEnv \<Rightarrow> (Url \<Rightarrow> FederationError + FetchedDocument) \<Rightarrow> int \<Rightarrow> GenerationJwksCache
    \<Rightarrow> (FederationError + RefreshOutcome) \<times> GenerationJwksCache" where
  "cache_refresh env fetch now c0 =
     (let c = c0\<lparr>jc_last_refresh_attempt := Some now\<rparr> in
      case fetch_and_parse env fetch c of
        Inr ks \<Rightarrow> (Inr RefreshFresh, c\<lparr>jc_keys := Some ks, jc_fetched_at := Some now\<rparr>)
      | Inl e \<Rightarrow> if keys_within_stale_window c now then (Inr RefreshStale, c) else (Inl e, c))"

definition key_or_refresh ::
  "FedEnv \<Rightarrow> string \<Rightarrow> (Url \<Rightarrow> FederationError + FetchedDocument) \<Rightarrow> int \<Rightarrow> GenerationJwksCache
    \<Rightarrow> (FederationError + RsaJwk option) \<times> GenerationJwksCache" where
  "key_or_refresh env kid fetch now c =
     (case cached_key c kid of
        Some key \<Rightarrow> (Inr (Some key), c)
      | None \<Rightarrow>
          if should_refresh_on_unknown_kid c now then
            (case cache_refresh env fetch now c of
               (Inl e, c') \<Rightarrow> (Inl e, c') | (Inr _, c') \<Rightarrow> (Inr (cached_key c' kid), c'))
          else (Inr (cached_key c kid), c))"

section \<open>The HTTPS fetch\<close>

record HttpResponse =
  hr_url :: Url
  hr_success :: bool
  hr_content_length :: "nat option"
  hr_chunks :: "string option list"

fun body_chunks :: "string option list \<Rightarrow> string \<Rightarrow> FederationError + string" where
  "body_chunks [] body = Inr body"
| "body_chunks (c # cs) body =
     (case c of
        None \<Rightarrow> Inl FetchRejected
      | Some chunk \<Rightarrow>
          if length chunk > MAX_JWKS_BODY_BYTES - length body then Inl (Oversized ''provider document'')
          else body_chunks cs (body @ chunk))"

definition bounded_response_body :: "HttpResponse \<Rightarrow> FederationError + string" where
  "bounded_response_body r =
     (if (case hr_content_length r of Some n \<Rightarrow> n > MAX_JWKS_BODY_BYTES | None \<Rightarrow> False)
      then Inl (Oversized ''provider document'') else body_chunks (hr_chunks r) [])"

definition get_checked :: "(Url \<Rightarrow> HttpResponse option) \<Rightarrow> Url \<Rightarrow> FederationError + string" where
  "get_checked client url =
     res_bind (ok_or (client url) FetchRejected) (\<lambda>r.
     if hr_url r \<noteq> url \<or> \<not> hr_success r then Inl FetchRejected else bounded_response_body r)"

definition fetch_generation_jwks ::
  "FedEnv \<Rightarrow> (Url \<Rightarrow> HttpResponse option) \<Rightarrow> nat \<Rightarrow> ProviderConfig \<Rightarrow> FederationError + GenerationJwks" where
  "fetch_generation_jwks env client g p =
     res_bind (provider_validate env p) (\<lambda>_.
     res_bind (ok_or (fe_url env (provider_discovery_url p)) InvalidUrl) (\<lambda>d.
     res_bind (ok_or (fe_url env (provider_jwks_url p)) InvalidUrl) (\<lambda>j.
     res_bind (get_checked client d) (\<lambda>discovery.
     res_bind (validate_discovery_document env discovery (provider_issuer p) (provider_jwks_url p)) (\<lambda>_.
     res_bind (get_checked client j) (\<lambda>body.
     jwks_parse env g body))))))"

section \<open>Resolution of a rule's key set\<close>

type_synonym JwksCaches = "(string, GenerationJwksCache) btree"

definition install_generation_jwks :: "string \<Rightarrow> GenerationJwks \<Rightarrow> int \<Rightarrow> JwksCaches \<Rightarrow> JwksCaches" where
  "install_generation_jwks rid ks now caches =
     (case bt_get caches rid of
        Some c \<Rightarrow> bt_insert rid (cache_install ks now c) caches
      | None \<Rightarrow> caches)"

text \<open>
  The first locked section decides; the fetch then runs without the lock, during which other
  requests turn the caches into \<open>during caches\<close>; the second locked section installs.
\<close>

definition resolve_rule_jwks_via ::
  "string \<Rightarrow> string \<Rightarrow> int \<Rightarrow> (FederationError + GenerationJwks) \<Rightarrow> (JwksCaches \<Rightarrow> JwksCaches) \<Rightarrow> JwksCaches
    \<Rightarrow> GenerationJwks option \<times> JwksCaches" where
  "resolve_rule_jwks_via rid kid now fetched during caches =
     (case bt_get caches rid of
        None \<Rightarrow> (None, caches)
      | Some c \<Rightarrow>
          (case serve_or_revalidate kid now c of
             (dec, c') \<Rightarrow>
               let caches = bt_insert rid c' caches in
               case dec of
                 Fresh ks \<Rightarrow> (Some ks, caches)
               | Revalidate allowed stl \<Rightarrow>
                   if \<not> allowed then (stl, caches)
                   else (case fetched of
                     Inr ks \<Rightarrow> (Some ks, install_generation_jwks rid ks now (during caches))
                   | Inl _ \<Rightarrow> (stl, during caches))
               | UnknownKid allowed \<Rightarrow>
                   if \<not> allowed then (None, caches)
                   else (case fetched of
                     Inr ks \<Rightarrow> (Some ks, install_generation_jwks rid ks now (during caches))
                   | Inl _ \<Rightarrow> (None, during caches))))"


section \<open>Accepted keys\<close>

definition rs256_key_ok :: "FedEnv \<Rightarrow> RsaJwk \<Rightarrow> bool" where
  "rs256_key_ok env jwk \<longleftrightarrow>
     (\<exists>modulus. fe_b64url_decode env (jwk_n jwk) = Some modulus \<and> 256 \<le> length modulus \<and>
        length modulus \<le> 512 \<and> bit (hd modulus) 7 \<and> fe_b64url_decode env (jwk_e jwk) = Some [1, 0, 1])"

lemma high_bit: "b AND 0x80 = 0 \<longleftrightarrow> \<not> bit b 7" for b :: u8
proof -
  have "(0x80 :: u8) = push_bit 7 1" by simp
  then show ?thesis
    by (metis (no_types, lifting) and_exp_eq_0_iff_not_bit push_bit_of_1)
qed

lemma parse_jwk_ok: "parse_jwk env k = Inr jwk \<Longrightarrow> rs256_key_ok env jwk \<and> jwk_kid jwk \<noteq> []"
  by (auto simp: parse_jwk_def validate_rsa_jwk_def rs256_key_ok_def high_bit MIN_RSA_MODULUS_BYTES_def
      MAX_RSA_MODULUS_BYTES_def string_field_def Let_def split: if_splits option.splits list.splits)

lemma parse_keys_loop_ok:
  assumes "parse_keys_loop env ks out = Inr res" and "bt_wf out"
    and "\<forall>kid jwk. bt_get out kid = Some jwk \<longrightarrow> jwk_kid jwk = kid \<and> rs256_key_ok env jwk"
  shows "bt_wf res \<and> length res = length out + length ks \<and>
    (\<forall>kid jwk. bt_get res kid = Some jwk \<longrightarrow> jwk_kid jwk = kid \<and> rs256_key_ok env jwk)"
  using assms
proof (induction env ks out rule: parse_keys_loop.induct)
  case (2 env k ks out)
  obtain jwk where j: "parse_jwk env k = Inr jwk" "bt_get out (jwk_kid jwk) = None"
    "parse_keys_loop env ks (bt_insert (jwk_kid jwk) jwk out) = Inr res"
    using "2.prems"(1) by (auto split: if_splits)
  let ?out = "bt_insert (jwk_kid jwk) jwk out"
  have l: "length ?out = Suc (length out)"
    using bt.size_put_new [OF "2.prems"(2) j(2)] .
  have "\<forall>kid x. bt_get ?out kid = Some x \<longrightarrow> jwk_kid x = kid \<and> rs256_key_ok env x"
  proof (intro allI impI)
    fix kid x
    assume "bt_get ?out kid = Some x"
    then show "jwk_kid x = kid \<and> rs256_key_ok env x"
      using "2.prems"(3) parse_jwk_ok [OF j(1)]
      by (cases "kid = jwk_kid jwk") (auto simp: bt_get_insert)
  qed
  from "2.IH" [OF _ j(3) bt_wf_insert [OF "2.prems"(2)] this]
  show ?case unfolding l by (simp add: j(2))
qed simp


section \<open>Runs of one cache\<close>

datatype CacheEvent = EvServe string int ServeDecision | EvInstall GenerationJwks int

inductive cache_step :: "GenerationJwksCache \<Rightarrow> CacheEvent \<Rightarrow> GenerationJwksCache \<Rightarrow> bool" where
  serve: "serve_or_revalidate kid now c = (d, c') \<Longrightarrow> cache_step c (EvServe kid now d) c'"
| install: "cache_step c (EvInstall ks now) (cache_install ks now c)"

fun served :: "ServeDecision \<Rightarrow> GenerationJwks option" where
  "served (Fresh ks) = Some ks"
| "served (Revalidate _ s) = s"
| "served (UnknownKid _) = None"

fun admits_refresh :: "ServeDecision \<Rightarrow> bool" where
  "admits_refresh (Fresh _) = False"
| "admits_refresh (Revalidate a _) = a"
| "admits_refresh (UnknownKid a) = a"

lemma serve_cases:
  assumes "serve_or_revalidate kid now c = (d, c')"
  obtains (fresh) ks where "jc_keys c = Some ks" "keys_are_fresh c now" "d = Fresh ks" "c' = c"
  | (revalidate) ks a where "jc_keys c = Some ks" "try_begin_refresh c now = (a, c')"
      "d = Revalidate a (if keys_within_stale_window c' now then Some ks else None)"
  | (unknown) a where "try_begin_refresh c now = (a, c')" "d = UnknownKid a"
proof -
  obtain a c1 where t: "try_begin_refresh c now = (a, c1)" by (rule prod.exhaust)
  consider "jc_keys c = None" | ks where "jc_keys c = Some ks" "jwks_key ks kid = None"
    | ks where "jc_keys c = Some ks" "jwks_key ks kid \<noteq> None" "keys_are_fresh c now"
    | ks where "jc_keys c = Some ks" "jwks_key ks kid \<noteq> None" "\<not> keys_are_fresh c now"
    by (metis not_None_eq)
  then show thesis
  proof cases
    case 1
    with assms t have "d = UnknownKid a" "c' = c1" by (simp_all add: serve_or_revalidate_def)
    with t show thesis by (intro unknown) simp_all
  next
    case (2 ks)
    with assms t have "d = UnknownKid a" "c' = c1" by (simp_all add: serve_or_revalidate_def)
    with t show thesis by (intro unknown) simp_all
  next
    case (3 ks)
    with assms have "d = Fresh ks" "c' = c" by (simp_all add: serve_or_revalidate_def)
    with 3 show thesis by (intro fresh) simp_all
  next
    case (4 ks)
    with assms t have "d = Revalidate a (if keys_within_stale_window c1 now then Some ks else None)" "c' = c1"
      by (auto simp: serve_or_revalidate_def)
    with 4 t show thesis by (intro revalidate) simp_all
  qed
qed

lemma try_begin_refresh_cases:
  assumes "try_begin_refresh c now = (a, c')"
  shows "if a then should_refresh_on_unknown_kid c now \<and> c' = c\<lparr>jc_last_refresh_attempt := Some now\<rparr>
    else c' = c"
  using assms by (auto simp: try_begin_refresh_def split: if_splits)

lemma serve_state:
  assumes "serve_or_revalidate kid now c = (d, c')"
  shows "if admits_refresh d
    then should_refresh_on_unknown_kid c now \<and> c' = c\<lparr>jc_last_refresh_attempt := Some now\<rparr> else c' = c"
  using assms by (cases rule: serve_cases) (simp_all add: try_begin_refresh_cases)

lemma serve_frame:
  assumes "serve_or_revalidate kid now c = (d, c')"
  shows "jc_keys c' = jc_keys c \<and> jc_fetched_at c' = jc_fetched_at c \<and> jc_policy c' = jc_policy c"
  using serve_state [OF assms] by (cases "admits_refresh d") simp_all

lemma stale_window_frame: "keys_within_stale_window (c\<lparr>jc_last_refresh_attempt := x\<rparr>) = keys_within_stale_window c"
  by (auto simp: keys_within_stale_window_def fun_eq_iff split: option.splits)

lemma served_keys:
  assumes "serve_or_revalidate kid now c = (d, c')" and "served d = Some ks"
  shows "jc_keys c = Some ks \<and> (if d = Fresh ks then keys_are_fresh c now else keys_within_stale_window c now)"
  using assms(1)
proof (cases rule: serve_cases)
  case (revalidate ks' a)
  then show ?thesis
    using assms(2) try_begin_refresh_cases [OF revalidate(2)]
    by (cases a) (auto simp: stale_window_frame split: if_splits)
qed (use assms(2) in simp_all)

lemma install_policy [simp]: "jc_policy (cache_install ks now c) = jc_policy c"
  "jc_last_refresh_attempt (cache_install ks now c) = jc_last_refresh_attempt c"
  by (simp_all add: cache_install_def)

text \<open>What the cache holds, from the installations of a run.\<close>

definition newest :: "CacheEvent list \<Rightarrow> GenerationJwksCache \<Rightarrow> bool" where
  "newest es c \<longleftrightarrow>
     (case jc_fetched_at c of
        None \<Rightarrow> jc_keys c = None \<and> (\<forall>ks t. EvInstall ks t \<notin> set es)
      | Some t \<Rightarrow>
          (\<exists>ks. jc_keys c = Some ks \<and> EvInstall ks t \<in> set es) \<and>
          (\<forall>ks' t'. EvInstall ks' t' \<in> set es \<longrightarrow> t' \<le> t))"

lemma newest_step:
  assumes "newest es c" and "cache_step c e c'"
  shows "newest (es @ [e]) c' \<and> jc_policy c' = jc_policy c"
  using assms(2)
proof (cases rule: cache_step.cases)
  case (serve kid now d)
  then show ?thesis
    using assms(1) serve_frame [OF serve(2)] by (auto simp: newest_def split: option.splits)
next
  case (install ks now)
  then show ?thesis
    using assms(1) by (fastforce simp: newest_def cache_install_def split: option.splits)
qed

lemma newest_run:
  assumes "steps cache_step c es c'" and "newest pre c"
  shows "newest (pre @ es) c' \<and> jc_policy c' = jc_policy c"
  using assms
proof (induction arbitrary: pre rule: steps.induct)
  case (steps_cons s e t es u)
  have "newest (pre @ [e]) t \<and> jc_policy t = jc_policy s"
    using newest_step [OF steps_cons.prems steps_cons.hyps(1)] .
  then show ?case using steps_cons.IH [of "pre @ [e]"] by simp
qed simp

text \<open>
  C17: Over every interleaving of requests and installations, a key set is served only when it is
  the most recently fetched one, was fetched no later than the request, and is at most as old as
  the freshness window; past that window it is served only together with the demand to
  revalidate, and never beyond the additional outage grace. A key the provider rotates out is
  therefore refused within that bound after the last fetch that still had it.
\<close>

theorem served_keys_bounded_age:
  assumes "jc_keys c = None" and "jc_fetched_at c = None" and "steps cache_step c es c1"
    and "serve_or_revalidate kid now c1 = (d, c2)" and "served d = Some ks"
  shows "\<exists>t. EvInstall ks t \<in> set es \<and> t \<le> now \<and>
    now - t \<le> int (max_age (jc_policy c)) + (if d = Fresh ks then 0 else int (stale_if_error (jc_policy c))) \<and>
    (\<forall>ks' t'. EvInstall ks' t' \<in> set es \<longrightarrow> t' \<le> t)"
proof -
  have n: "newest es c1" "jc_policy c1 = jc_policy c"
    using newest_run [OF assms(3), of "[]"] assms(1,2) by (simp_all add: newest_def)
  note s = served_keys [OF assms(4,5)]
  then obtain t where t: "jc_fetched_at c1 = Some t" "EvInstall ks t \<in> set es"
    "\<forall>ks' t'. EvInstall ks' t' \<in> set es \<longrightarrow> t' \<le> t"
    using n(1) by (auto simp: newest_def split: option.splits)
  have "t \<le> now \<and> now - t \<le>
      int (max_age (jc_policy c)) + (if d = Fresh ks then 0 else int (stale_if_error (jc_policy c)))"
    using s t(1) n(2)
    by (auto simp: keys_within_stale_window_def keys_are_fresh_def duration_since_def sat_add_duration_def
        split: if_splits)
  then show ?thesis using t(2,3) by blast
qed


section \<open>The rate of fetches\<close>

fun admitted_at :: "CacheEvent \<Rightarrow> int option" where
  "admitted_at (EvServe kid now d) = (if admits_refresh d then Some now else None)"
| "admitted_at (EvInstall ks t) = None"

definition admitted_times :: "CacheEvent list \<Rightarrow> int list" where
  "admitted_times es = List.map_filter admitted_at es"

lemma admitted_times_simps [simp]:
  "admitted_times [] = []"
  "admitted_times (e # es) = (case admitted_at e of Some t \<Rightarrow> t # admitted_times es | None \<Rightarrow> admitted_times es)"
  by (simp_all add: admitted_times_def map_filter_simps split: option.splits)

lemma cache_step_attempt:
  assumes "cache_step c e c'"
  shows "jc_policy c' = jc_policy c \<and>
    (case admitted_at e of
       None \<Rightarrow> jc_last_refresh_attempt c' = jc_last_refresh_attempt c
     | Some t \<Rightarrow> jc_last_refresh_attempt c' = Some t \<and>
         (\<forall>a. jc_last_refresh_attempt c = Some a \<longrightarrow> a + int (refresh_cooldown (jc_policy c)) \<le> t))"
  using assms
proof (cases rule: cache_step.cases)
  case (serve kid now d)
  then show ?thesis
    using serve_state [OF serve(2)]
    by (cases "admits_refresh d")
      (auto simp: should_refresh_on_unknown_kid_def duration_since_def split: option.splits if_splits)
next
  case (install ks now)
  then show ?thesis by simp
qed

lemma admitted_spaced:
  assumes "steps cache_step c es c'" and "cd = int (refresh_cooldown (jc_policy c))"
  shows "sorted_wrt (\<lambda>a b. a + cd \<le> b) (admitted_times es) \<and>
    (\<forall>a. jc_last_refresh_attempt c = Some a \<longrightarrow> (\<forall>t \<in> set (admitted_times es). a + cd \<le> t))"
  using assms
proof (induction rule: steps.induct)
  case (steps_cons s e t es u)
  note st = cache_step_attempt [OF steps_cons.hyps(1)]
  note IH = steps_cons.IH [unfolded st [THEN conjunct1], OF steps_cons.prems]
  show ?case
  proof (cases "admitted_at e")
    case None
    then show ?thesis using st IH by simp
  next
    case (Some x)
    then have "\<forall>y \<in> set (admitted_times es). x + cd \<le> y" using st IH by simp
    moreover have "0 \<le> cd" using steps_cons.prems by simp
    ultimately show ?thesis
      using st IH Some steps_cons.prems by fastforce
  qed
qed simp

lemma spaced_count:
  fixes xs :: "int list"
  assumes "sorted_wrt (\<lambda>a b. a + cd \<le> b) xs" and "0 < cd" and "\<forall>x \<in> set xs. lo \<le> x \<and> x \<le> hi"
  shows "int (length xs) * cd \<le> max 0 (hi - lo + cd)"
  using assms
proof (induction xs arbitrary: lo)
  case (Cons x xs)
  have "\<forall>y \<in> set xs. x + cd \<le> y \<and> y \<le> hi" using Cons.prems by auto
  then have "int (length xs) * cd \<le> max 0 (hi - (x + cd) + cd)"
    using Cons.IH [of "x + cd"] Cons.prems by auto
  moreover have "lo \<le> x" "x \<le> hi" using Cons.prems by auto
  ultimately show ?case by (simp add: distrib_right)
qed simp

text \<open>
  C18: However requests, completed fetches and clock readings interleave, backwards steps of the
  clock included, the fetches a cache admits are pairwise at least one cooldown apart. Within
  any window of time it admits at most one fetch per started cooldown, so unknown key
  identifiers cannot amplify into provider traffic.
\<close>

theorem refresh_rate_bounded:
  assumes "steps cache_step c es c'" and "0 < refresh_cooldown (jc_policy c)" and "lo \<le> hi"
  shows "sorted_wrt (\<lambda>a b. a + int (refresh_cooldown (jc_policy c)) \<le> b) (admitted_times es) \<and>
    int (length (filter (\<lambda>t. lo \<le> t \<and> t \<le> hi) (admitted_times es)))
      \<le> (hi - lo) div int (refresh_cooldown (jc_policy c)) + 1"
proof -
  define cd where "cd = int (refresh_cooldown (jc_policy c))"
  have sp: "sorted_wrt (\<lambda>a b. a + cd \<le> b) (admitted_times es)"
    using admitted_spaced [OF assms(1) cd_def] by simp
  let ?xs = "filter (\<lambda>t. lo \<le> t \<and> t \<le> hi) (admitted_times es)"
  have cd: "0 < cd" using assms(2) by (simp add: cd_def)
  have "int (length ?xs) * cd \<le> max 0 (hi - lo + cd)"
    using spaced_count [OF sorted_wrt_filter [OF sp] cd] by auto
  then have "int (length ?xs) * cd \<le> hi - lo + cd" using assms(3) cd by simp
  then have "int (length ?xs) \<le> (hi - lo + cd) div cd"
    using cd by (metis zdiv_mono1 nonzero_mult_div_cancel_right less_irrefl)
  also have "(hi - lo + cd) div cd = (hi - lo) div cd + 1"
    using cd div_add_self2 [of cd "hi - lo"] by simp
  finally show ?thesis using sp by (simp add: cd_def [symmetric])
qed

section \<open>Witnesses\<close>

definition demo_jwk_json :: Json where
  "demo_jwk_json = JObj [(''alg'', JStr ''RS256''), (''e'', JStr ''E''), (''kid'', JStr ''kid''),
     (''kty'', JStr ''RSA''), (''n'', JStr ''N''), (''use'', JStr ''sig'')]"

definition demo_jwks_env :: FedEnv where
  "demo_jwks_env = demo_fed\<lparr>fe_json := \<lambda>_. Some (JObj [(''keys'', JArr [demo_jwk_json])]),
     fe_b64url_decode := \<lambda>s. if s = ''N'' then Some (0x80 # replicate 255 0) else Some [1, 0, 1]\<rparr>"

definition demo_jwks :: GenerationJwks where
  "demo_jwks = \<lparr>gj_generation = 7, gj_keys = [(''kid'', \<lparr>jwk_kid = ''kid'', jwk_n = ''N'', jwk_e = ''E''\<rparr>)]\<rparr>"

definition demo_cache :: GenerationJwksCache where
  "demo_cache = \<lparr>jc_generation = 7, jc_issuer = [], jc_discovery_url = undefined, jc_jwks_url = undefined,
     jc_policy = \<lparr>max_body_bytes = 100, refresh_cooldown = 10, max_age = 100, stale_if_error = 20,
       redirect_policy = RedirectReject\<rparr>,
     jc_keys = None, jc_fetched_at = None, jc_last_refresh_attempt = None\<rparr>"

lemma demo_jwk_value: "json_value demo_jwk_json = demo_jwk_json"
  by code_simp

lemma demo_parse_jwk: "parse_jwk demo_jwks_env demo_jwk_json = Inr \<lparr>jwk_kid = ''kid'', jwk_n = ''N'', jwk_e = ''E''\<rparr>"
  by (simp add: parse_jwk_def demo_jwk_json_def obj_get_def allowed_jwk_members_def string_field_def
      validate_rsa_jwk_def demo_jwks_env_def MIN_RSA_MODULUS_BYTES_def MAX_RSA_MODULUS_BYTES_def ok_or_def)

lemma demo_jwks_parse: "jwks_parse demo_jwks_env 7 ''doc'' = Inr demo_jwks"
  by (simp add: jwks_parse_def MAX_JWKS_BODY_BYTES_def demo_jwks_env_def [THEN arg_cong [where f = fe_json]]
      demo_jwk_value obj_get_def demo_parse_jwk bt_get_def demo_jwks_def ok_or_def)


definition demo_cache_run :: "CacheEvent list" where
  "demo_cache_run = [EvServe ''kid'' 0 (UnknownKid True), EvInstall demo_jwks 1]"

definition demo_cache_end :: GenerationJwksCache where
  "demo_cache_end = demo_cache\<lparr>jc_keys := Some demo_jwks, jc_fetched_at := Some 1, jc_last_refresh_attempt := Some 0\<rparr>"

lemma demo_cache_steps: "steps cache_step demo_cache demo_cache_run demo_cache_end"
proof -
  have "serve_or_revalidate ''kid'' 0 demo_cache = (UnknownKid True, demo_cache\<lparr>jc_last_refresh_attempt := Some 0\<rparr>)"
    by (simp add: serve_or_revalidate_def demo_cache_def try_begin_refresh_def should_refresh_on_unknown_kid_def)
  then have "cache_step demo_cache (EvServe ''kid'' 0 (UnknownKid True)) (demo_cache\<lparr>jc_last_refresh_attempt := Some 0\<rparr>)"
    by (rule cache_step.serve)
  moreover have "cache_step (demo_cache\<lparr>jc_last_refresh_attempt := Some 0\<rparr>) (EvInstall demo_jwks 1) demo_cache_end"
    using cache_step.install [of "demo_cache\<lparr>jc_last_refresh_attempt := Some 0\<rparr>" demo_jwks 1]
    by (simp add: cache_install_def demo_cache_def demo_cache_end_def)
  ultimately show ?thesis
    unfolding demo_cache_run_def by (auto intro: steps.intros)
qed

lemma demo_serve: "serve_or_revalidate ''kid'' 50 demo_cache_end = (Fresh demo_jwks, demo_cache_end)"
  by (simp add: serve_or_revalidate_def demo_cache_end_def demo_cache_def demo_jwks_def jwks_key_def bt_get_def
      keys_are_fresh_def duration_since_def)

theorem served_keys_bounded_age_witness:
  "\<exists>t. EvInstall demo_jwks t \<in> set demo_cache_run \<and> t \<le> 50 \<and> 50 - t \<le> 100"
proof -
  have "jc_keys demo_cache = None" "jc_fetched_at demo_cache = None" "served (Fresh demo_jwks) = Some demo_jwks"
    by (simp_all add: demo_cache_def)
  from served_keys_bounded_age [OF this(1,2) demo_cache_steps demo_serve this(3)]
  show ?thesis by (auto simp: demo_cache_def)
qed

theorem refresh_rate_bounded_witness:
  "int (length (filter (\<lambda>t. 0 \<le> t \<and> t \<le> 5) (admitted_times demo_cache_run))) \<le> 5 div 10 + 1"
  using refresh_rate_bounded [OF demo_cache_steps, of 0 5] by (simp add: demo_cache_def)

end
