(* ===== verification/Cbor_Scan.thy ===== *)
theory Cbor_Scan
  imports Cose_Party
begin

text \<open>
  The structural pre-check of the COSE codec (\<open>basil-cose/src/codec/precheck.rs\<close>): a walk over
  raw CBOR bytes that runs before any structure is decoded, with the errors of
  \<open>basil-cose/src/error.rs\<close>.

  Positions are natural numbers into the input, an argument of a head is the natural number its
  bytes denote. The walk recurses on nested items up to a fixed depth, which is what makes it
  terminate on every input.

  Result: the walk accepts exactly the RFC 8949 deterministic encodings (definite lengths,
  shortest heads, no trailing bytes) of an item nested at most 32 deep, and reports exactly its
  outer tag.
\<close>

unbundle bit_operations_syntax

section \<open>Errors\<close>

datatype DecodeError =
    Malformed
  | NotTagged
  | WrongTag nat nat
  | IndefiniteLength
  | NonMinimalEncoding
  | NonDeterministicEncoding
  | DuplicateLabel
  | UnknownLabel int
  | TextLabel
  | WrongType int
  | MissingHeader int
  | UnknownAlgorithm int
  | CritMissing
  | CritIncomplete int
  | CritUnexpected int
  | ClaimsInUnprotected
  | UnknownClaim int
  | FractionalTime
  | MissingClaim int
  | RecipientCount nat
  | NestedRecipients
  | RecipientCiphertextPresent
  | MissingPayload
  | EmbeddedNotEncrypt
  | EphemeralKeyShape
  | InvalidLength int nat nat
  | Identifier ProfileError
  | ResponseKeyIdMismatch

section \<open>The walk\<close>

record Scan =
  top_tag :: "nat option"

definition MAX_DEPTH :: nat where "MAX_DEPTH = 32"

definition get :: "u8 list \<Rightarrow> nat \<Rightarrow> u8 option" where
  "get bytes pos = (if pos < length bytes then Some (bytes ! pos) else None)"

definition get_range :: "u8 list \<Rightarrow> nat \<Rightarrow> nat \<Rightarrow> (u8 list) option" where
  "get_range bytes a b = (if a \<le> b \<and> b \<le> length bytes then Some (take (b - a) (drop a bytes)) else None)"

text \<open>\<open>from_be_bytes\<close>.\<close>

definition be_nat :: "u8 list \<Rightarrow> nat" where
  "be_nat bs = foldl (\<lambda>n b. 256 * n + unat b) 0 bs"

text \<open>An argument of \<open>k\<close> following bytes, which must not fit a shorter form unless the item is
  of major type 7.\<close>

definition wide_argument :: "u8 list \<Rightarrow> nat \<Rightarrow> u8 \<Rightarrow> nat \<Rightarrow> nat \<Rightarrow> DecodeError + nat \<times> nat" where
  "wide_argument bytes pos ini k least =
     res_bind (ok_or (get_range bytes (pos + 1) (pos + 1 + k)) Malformed) (\<lambda>raw.
       if drop_bit 5 ini \<noteq> 7 \<and> be_nat raw < least then Inl NonMinimalEncoding
       else Inr (be_nat raw, pos + 1 + k))"

definition read_head :: "u8 list \<Rightarrow> nat \<Rightarrow> DecodeError + nat \<times> nat" where
  "read_head bytes pos =
     res_bind (ok_or (get bytes pos) Malformed) (\<lambda>ini.
     let ai = unat (ini AND 0x1f) in
     if ai \<le> 23 then Inr (ai, pos + 1)
     else if ai = 24 then
       res_bind (ok_or (get bytes (pos + 1)) Malformed) (\<lambda>v.
         if unat v < (if drop_bit 5 ini = 7 then 32 else 24) then Inl NonMinimalEncoding
         else Inr (unat v, pos + 2))
     else if ai = 25 then wide_argument bytes pos ini 2 256
     else if ai = 26 then wide_argument bytes pos ini 4 65536
     else if ai = 27 then wide_argument bytes pos ini 8 4294967296
     else if ai \<le> 30 then Inl Malformed
     else Inl IndefiniteLength)"

text \<open>\<open>scan_items\<close> is the loop over the elements of an array, or over the keys and values of
  a map.\<close>

function scan_item :: "u8 list \<Rightarrow> nat \<Rightarrow> nat \<Rightarrow> DecodeError + nat"
  and scan_items :: "u8 list \<Rightarrow> nat \<Rightarrow> nat \<Rightarrow> nat \<Rightarrow> DecodeError + nat" where
  "scan_item bytes pos depth =
     (if depth > MAX_DEPTH then Inl Malformed
      else
        res_bind (ok_or (get bytes pos) Malformed) (\<lambda>ini.
        let major = unat (drop_bit 5 ini) in
        if ini AND 0x1f = 31 then
          Inl (if 2 \<le> major \<and> major \<le> 5 then IndefiniteLength else Malformed)
        else
          (case read_head bytes pos of
             Inl e \<Rightarrow> Inl e
           | Inr (arg, next) \<Rightarrow>
               if major = 0 \<or> major = 1 \<or> major = 7 then Inr next
               else if major = 2 \<or> major = 3 then
                 if next + arg > usize_max then Inl Malformed
                 else if next + arg > length bytes then Inl Malformed
                 else Inr (next + arg)
               else if major = 4 then scan_items bytes arg next (depth + 1)
               else if major = 5 then
                 if arg * 2 > u64_max then Inl Malformed
                 else scan_items bytes (arg * 2) next (depth + 1)
               else scan_item bytes next (depth + 1))))"
| "scan_items bytes n pos depth =
     (case n of
        0 \<Rightarrow> Inr pos
      | Suc m \<Rightarrow> res_bind (scan_item bytes pos depth) (\<lambda>next. scan_items bytes m next depth))"
  by pat_completeness auto
termination
  by (relation "measures
        [\<lambda>x. case x of Inl (_, _, depth) \<Rightarrow> Suc MAX_DEPTH - depth | Inr (_, _, _, depth) \<Rightarrow> Suc MAX_DEPTH - depth,
         \<lambda>x. case x of Inl _ \<Rightarrow> 0 | Inr (_, n, _) \<Rightarrow> Suc n]") (auto split: if_splits)

declare scan_item.simps [simp del] scan_items.simps [simp del]

lemma scan_items_simps [simp]:
  "scan_items bytes 0 pos depth = Inr pos"
  "scan_items bytes (Suc m) pos depth =
     res_bind (scan_item bytes pos depth) (\<lambda>next. scan_items bytes m next depth)"
  by (simp_all add: scan_items.simps)

definition scan :: "u8 list \<Rightarrow> DecodeError + Scan" where
  "scan bytes =
     res_bind
       (case bytes of
          [] \<Rightarrow> Inl Malformed
        | b # _ \<Rightarrow> if drop_bit 5 b = 6 then res_bind (read_head bytes 0) (\<lambda>(tag, _). Inr (Some tag)) else Inr None)
       (\<lambda>tag. res_bind (scan_item bytes 0 0) (\<lambda>end_pos.
          if end_pos = length bytes then Inr \<lparr>top_tag = tag\<rparr> else Inl Malformed))"

section \<open>Deterministic encodings\<close>

datatype Cbor =
    CUint nat
  | CNint nat
  | CBytes "u8 list"
  | CText "u8 list"
  | CArray "Cbor list"
  | CMap "(Cbor \<times> Cbor) list"
  | CTag nat Cbor
  | CSimple nat
  | CF16 nat
  | CF32 nat
  | CF64 nat

definition initial :: "nat \<Rightarrow> nat \<Rightarrow> u8" where
  "initial major ai = word_of_nat (32 * major + ai)"

definition cbor_head :: "nat \<Rightarrow> nat \<Rightarrow> u8 list" where
  "cbor_head major n =
     (if n < 24 then [initial major n]
      else if n < 256 then initial major 24 # be_bytes 1 n
      else if n < 65536 then initial major 25 # be_bytes 2 n
      else if n < 4294967296 then initial major 26 # be_bytes 4 n
      else initial major 27 # be_bytes 8 n)"

fun cbor_bytes :: "Cbor \<Rightarrow> u8 list" where
  "cbor_bytes (CUint n) = cbor_head 0 n"
| "cbor_bytes (CNint n) = cbor_head 1 n"
| "cbor_bytes (CBytes b) = cbor_head 2 (length b) @ b"
| "cbor_bytes (CText b) = cbor_head 3 (length b) @ b"
| "cbor_bytes (CArray xs) = cbor_head 4 (length xs) @ concat (map cbor_bytes xs)"
| "cbor_bytes (CMap kvs) = cbor_head 5 (length kvs) @ concat (map (\<lambda>(k, v). cbor_bytes k @ cbor_bytes v) kvs)"
| "cbor_bytes (CTag n x) = cbor_head 6 n @ cbor_bytes x"
| "cbor_bytes (CSimple n) = (if n < 24 then [initial 7 n] else [initial 7 24, word_of_nat n])"
| "cbor_bytes (CF16 n) = initial 7 25 # be_bytes 2 n"
| "cbor_bytes (CF32 n) = initial 7 26 # be_bytes 4 n"
| "cbor_bytes (CF64 n) = initial 7 27 # be_bytes 8 n"

text \<open>An item of which the outermost part is nested \<open>depth\<close> deep.\<close>

fun item_ok :: "nat \<Rightarrow> Cbor \<Rightarrow> bool" where
  "item_ok depth (CUint n) = (depth \<le> 32 \<and> n < 2 ^ 64)"
| "item_ok depth (CNint n) = (depth \<le> 32 \<and> n < 2 ^ 64)"
| "item_ok depth (CBytes b) = (depth \<le> 32 \<and> length b < 2 ^ 64)"
| "item_ok depth (CText b) = (depth \<le> 32 \<and> length b < 2 ^ 64)"
| "item_ok depth (CArray xs) = (depth \<le> 32 \<and> length xs < 2 ^ 64 \<and> (\<forall>x \<in> set xs. item_ok (Suc depth) x))"
| "item_ok depth (CMap kvs) =
     (depth \<le> 32 \<and> 2 * length kvs < 2 ^ 64 \<and>
      (\<forall>(k, v) \<in> set kvs. item_ok (Suc depth) k \<and> item_ok (Suc depth) v))"
| "item_ok depth (CTag n x) = (depth \<le> 32 \<and> n < 2 ^ 64 \<and> item_ok (Suc depth) x)"
| "item_ok depth (CSimple n) = (depth \<le> 32 \<and> (n < 24 \<or> 32 \<le> n \<and> n < 256))"
| "item_ok depth (CF16 n) = (depth \<le> 32 \<and> n < 2 ^ 16)"
| "item_ok depth (CF32 n) = (depth \<le> 32 \<and> n < 2 ^ 32)"
| "item_ok depth (CF64 n) = (depth \<le> 32 \<and> n < 2 ^ 64)"

section \<open>Heads\<close>

lemma be_nat_simps: "be_nat [] = 0" "be_nat (bs @ [b]) = 256 * be_nat bs + unat b"
  by (simp_all add: be_nat_def)

lemma be_bytes_Suc: "be_bytes (Suc k) n = be_bytes k (n div 256) @ [word_of_nat (n mod 256)]"
  by (simp add: be_bytes_def)

lemma be_nat_be_bytes: "n < 256 ^ k \<Longrightarrow> be_nat (be_bytes k n) = n"
proof (induction k arbitrary: n)
  case 0
  then show ?case by (simp add: be_bytes_def be_nat_simps)
next
  case (Suc k)
  have "n div 256 < 256 ^ k" using Suc.prems by (simp add: less_mult_imp_div_less mult.commute)
  then show ?case
    using Suc.IH by (simp add: be_bytes_Suc be_nat_simps unat_of_nat)
qed

lemma unat_u8_less: "unat b < 256" for b :: u8
  using unsigned_less [of b, where 'a = nat] by simp

lemma be_nat_less: "be_nat bs < 256 ^ length bs"
proof (induction bs rule: rev_induct)
  case (snoc b bs)
  then have "256 * be_nat bs + 256 \<le> 256 * 256 ^ length bs" by simp
  then show ?case using unat_u8_less [of b] by (simp add: be_nat_simps)
qed (simp add: be_nat_simps)

lemma be_bytes_be_nat: "be_bytes (length bs) (be_nat bs) = bs"
proof (induction bs rule: rev_induct)
  case (snoc b bs)
  then show ?case using unat_u8_less [of b] by (simp add: be_bytes_Suc be_nat_simps)
qed (simp add: be_bytes_def)

lemma low_bits: "unat (b AND 0x1f) = unat b mod 32" for b :: u8
proof -
  have "b AND 0x1f = take_bit 5 b" by (simp add: take_bit_eq_mask mask_eq_exp_minus_1)
  then have "unat (b AND 0x1f) = take_bit 5 (unat b)" by (simp only: unsigned_take_bit_eq)
  then show ?thesis by (simp add: take_bit_eq_mod)
qed

lemma high_bits: "unat (drop_bit 5 b) = unat b div 32" for b :: u8
  by (simp only: unat_drop_bit_eq) (simp add: drop_bit_eq_div)

lemma initial_eq: "initial (unat (drop_bit 5 b)) (unat (b AND 0x1f)) = b"
  unfolding initial_def low_bits high_bits by (simp only: mult_div_mod_eq) simp

lemma initial_bits:
  assumes "major < 8" and "ai < 32"
  shows "unat (drop_bit 5 (initial major ai)) = major" and "unat (initial major ai AND 0x1f) = ai"
proof -
  have "unat (initial major ai) = 32 * major + ai" unfolding initial_def using assms by (subst unat_of_nat) simp
  then show "unat (drop_bit 5 (initial major ai)) = major" "unat (initial major ai AND 0x1f) = ai"
    using assms by (simp_all add: low_bits high_bits)
qed

lemma drop_bit_7: "drop_bit 5 b = 7 \<longleftrightarrow> unat (drop_bit 5 b) = 7" for b :: u8
  by (subst word_unat_eq_iff) simp

lemma drop_get: "get bytes pos = Some b \<Longrightarrow> drop pos bytes = b # drop (Suc pos) bytes \<and> pos < length bytes"
  by (auto simp: get_def Cons_nth_drop_Suc split: if_splits)

lemma drop_get_range:
  assumes "get_range bytes (pos + 1) (pos + 1 + k) = Some raw"
  shows "length raw = k \<and> drop (Suc pos) bytes = raw @ drop (pos + 1 + k) bytes \<and> pos + 1 + k \<le> length bytes"
proof -
  have l: "pos + 1 + k \<le> length bytes" and r: "raw = take k (drop (Suc pos) bytes)"
    using assms by (auto simp: get_range_def split: if_splits)
  have "drop (pos + 1 + k) bytes = drop k (drop (Suc pos) bytes)" by (simp add: add.commute)
  with l r show ?thesis by (simp only: append_take_drop_id) simp
qed

lemma wide_argument_sound:
  assumes "wide_argument bytes pos ini k least = Inr (arg, next)"
  shows "next = pos + 1 + k \<and> next \<le> length bytes \<and> arg < 256 ^ k \<and>
    drop (Suc pos) bytes = be_bytes k arg @ drop next bytes \<and> (unat (drop_bit 5 ini) = 7 \<or> least \<le> arg)"
proof -
  obtain raw where r: "get_range bytes (pos + 1) (pos + 1 + k) = Some raw" "arg = be_nat raw" "next = pos + 1 + k"
    "drop_bit 5 ini = 7 \<or> least \<le> be_nat raw"
    using assms by (auto simp: wide_argument_def split: if_splits)
  then show ?thesis
    using drop_get_range [OF r(1)] be_nat_less [of raw] be_bytes_be_nat [of raw] by (auto simp: drop_bit_7)
qed

text \<open>The items whose encoding is one head and which carry no tag.\<close>

definition leaf :: "Cbor \<Rightarrow> bool" where
  "leaf it \<longleftrightarrow> (\<forall>depth \<le> 32. item_ok depth it) \<and> (\<forall>t x. it \<noteq> CTag t x)"

lemma read_head_sound:
  assumes "read_head bytes pos = Inr (arg, next)" and "get bytes pos = Some ini"
  shows "next \<le> length bytes \<and> pos < next \<and> arg < 2 ^ 64 \<and>
    (if unat (drop_bit 5 ini) \<noteq> 7
     then drop pos bytes = cbor_head (unat (drop_bit 5 ini)) arg @ drop next bytes
     else \<exists>it. leaf it \<and> drop pos bytes = cbor_bytes it @ drop next bytes)"
proof -
  have finish: "next \<le> length bytes \<and> pos < next \<and> arg < 2 ^ 64 \<and>
      (if major \<noteq> 7 then drop pos bytes = cbor_head major arg @ drop next bytes
       else \<exists>it. leaf it \<and> drop pos bytes = cbor_bytes it @ drop next bytes)"
    if "drop pos bytes = X @ drop next bytes" "major = 7 \<Longrightarrow> \<exists>it. leaf it \<and> cbor_bytes it = X"
      "next \<le> length bytes" "pos < next" "arg < 2 ^ 64" "major \<noteq> 7 \<Longrightarrow> X = cbor_head major arg" for X major
    using that by auto
  define major where "major = unat (drop_bit 5 ini)"
  define ai where "ai = unat (ini AND 0x1f)"
  have ini: "ini = initial major ai" by (simp add: major_def ai_def initial_eq)
  have ai: "ai < 32" by (simp add: ai_def low_bits)
  note d = drop_get [OF assms(2)]
  consider (small) "ai \<le> 23" "arg = ai" "next = pos + 1"
    | (one) v where "ai = 24" "get bytes (pos + 1) = Some v" "arg = unat v" "next = pos + 2"
        "(if major = 7 then 32 else 24) \<le> unat v"
    | (two) "ai = 25" "wide_argument bytes pos ini 2 256 = Inr (arg, next)"
    | (four) "ai = 26" "wide_argument bytes pos ini 4 65536 = Inr (arg, next)"
    | (eight) "ai = 27" "wide_argument bytes pos ini 8 4294967296 = Inr (arg, next)"
    using assms
    by (auto simp: read_head_def Let_def ai_def [symmetric] major_def drop_bit_7 ok_or_def split: if_splits option.splits)
  then show ?thesis
  proof cases
    case small
    show ?thesis unfolding major_def [symmetric]
    proof (rule finish [of "[initial major arg]"])
      show "drop pos bytes = [initial major arg] @ drop next bytes" using small d ini by simp
      show "major = 7 \<Longrightarrow> \<exists>it. leaf it \<and> cbor_bytes it = [initial major arg]"
        using small by (intro exI [of _ "CSimple arg"]) (simp add: leaf_def)
    qed (use small d in \<open>simp_all add: cbor_head_def\<close>)
  next
    case one
    have v: "word_of_nat arg = v" "arg < 256" "(if major = 7 then 32 else 24) \<le> arg" using one(5) one(3) unat_u8_less [of v] by simp_all
    show ?thesis unfolding major_def [symmetric]
    proof (rule finish [of "[initial major 24, v]"])
      show "drop pos bytes = [initial major 24, v] @ drop next bytes"
        using one d drop_get [OF one(2)] ini by simp
      show "major = 7 \<Longrightarrow> \<exists>it. leaf it \<and> cbor_bytes it = [initial major 24, v]"
        using v by (intro exI [of _ "CSimple arg"]) (auto simp: leaf_def)
    qed (use one(4) v drop_get [OF one(2)] in \<open>simp_all add: cbor_head_def be_bytes_def\<close>)
  next
    case two
    note w = wide_argument_sound [OF two(2), folded major_def]
    show ?thesis unfolding major_def [symmetric]
    proof (rule finish [of "initial major 25 # be_bytes 2 arg"])
      show "drop pos bytes = (initial major 25 # be_bytes 2 arg) @ drop next bytes" using w d ini two(1) by simp
      show "major = 7 \<Longrightarrow> \<exists>it. leaf it \<and> cbor_bytes it = initial major 25 # be_bytes 2 arg"
        using w by (intro exI [of _ "CF16 arg"]) (simp add: leaf_def)
    qed (use w in \<open>simp_all add: cbor_head_def\<close>)
  next
    case four
    note w = wide_argument_sound [OF four(2), folded major_def]
    show ?thesis unfolding major_def [symmetric]
    proof (rule finish [of "initial major 26 # be_bytes 4 arg"])
      show "drop pos bytes = (initial major 26 # be_bytes 4 arg) @ drop next bytes" using w d ini four(1) by simp
      show "major = 7 \<Longrightarrow> \<exists>it. leaf it \<and> cbor_bytes it = initial major 26 # be_bytes 4 arg"
        using w by (intro exI [of _ "CF32 arg"]) (simp add: leaf_def)
    qed (use w in \<open>simp_all add: cbor_head_def\<close>)
  next
    case eight
    note w = wide_argument_sound [OF eight(2), folded major_def]
    show ?thesis unfolding major_def [symmetric]
    proof (rule finish [of "initial major 27 # be_bytes 8 arg"])
      show "drop pos bytes = (initial major 27 # be_bytes 8 arg) @ drop next bytes" using w d ini eight(1) by simp
      show "major = 7 \<Longrightarrow> \<exists>it. leaf it \<and> cbor_bytes it = initial major 27 # be_bytes 8 arg"
        using w by (intro exI [of _ "CF64 arg"]) (simp add: leaf_def)
    qed (use w in \<open>simp_all add: cbor_head_def\<close>)
  qed
qed


section \<open>Soundness\<close>

lemma pairs_of_even:
  "length its = 2 * n \<Longrightarrow> \<exists>kvs. length kvs = n \<and> its = concat (map (\<lambda>(k, v). [k, v]) kvs)"
proof (induction n arbitrary: its)
  case (Suc n)
  then obtain k v rest where its: "its = k # v # rest" "length rest = 2 * n"
    by (auto simp: length_Suc_conv numeral_2_eq_2)
  then obtain kvs where "length kvs = n" "rest = concat (map (\<lambda>(k, v). [k, v]) kvs)"
    using Suc.IH by auto
  then show ?case using its by (intro exI [of _ "(k, v) # kvs"]) simp
qed simp

lemma concat_pairs:
  "concat (map f (concat (map (\<lambda>(k, v). [k, v]) kvs))) = concat (map (\<lambda>(k, v). f k @ f v) kvs)"
  by (induction kvs) auto

lemma scan_sound:
  "scan_item bytes pos depth = Inr fin \<Longrightarrow>
    \<exists>it. item_ok depth it \<and> drop pos bytes = cbor_bytes it @ drop fin bytes \<and> fin \<le> length bytes"
  "scan_items bytes n pos depth = Inr fin \<Longrightarrow> pos \<le> length bytes \<Longrightarrow>
    \<exists>its. length its = n \<and> (\<forall>it \<in> set its. item_ok depth it) \<and>
      drop pos bytes = concat (map cbor_bytes its) @ drop fin bytes \<and> fin \<le> length bytes"
proof (induction bytes pos depth and bytes n pos depth arbitrary: fin and fin rule: scan_item_scan_items.induct)
  case (1 bytes pos depth)
  have d: "depth \<le> 32" and nd: "\<not> depth > MAX_DEPTH"
    using "1.prems" by (auto simp: scan_item.simps [of bytes pos] MAX_DEPTH_def split: if_splits)
  obtain ini where ini: "get bytes pos = Some ini" "ini AND 0x1f \<noteq> 31"
    using "1.prems" nd by (auto simp: scan_item.simps [of bytes pos] Let_def split: if_splits)
  obtain arg nxt where h: "read_head bytes pos = Inr (arg, nxt)"
    using "1.prems" nd ini
    by (auto simp: scan_item.simps [of bytes pos] Let_def ok_or_def split: sum.splits)
  define major where "major = unat (drop_bit 5 ini)"
  note r = read_head_sound [OF h ini(1), folded major_def]
  have m8: "major < 8" using unat_u8_less [of ini] by (simp add: major_def high_bits)
  note IH = "1.IH" [OF nd refl ini(2) h refl, folded major_def]
  have step: "scan_item bytes pos depth =
      (if major = 0 \<or> major = 1 \<or> major = 7 then Inr nxt
       else if major = 2 \<or> major = 3 then
         if nxt + arg > usize_max then Inl Malformed
         else if nxt + arg > length bytes then Inl Malformed else Inr (nxt + arg)
       else if major = 4 then scan_items bytes arg nxt (depth + 1)
       else if major = 5 then if arg * 2 > u64_max then Inl Malformed else scan_items bytes (arg * 2) nxt (depth + 1)
       else scan_item bytes nxt (depth + 1))"
    using nd ini h by (subst scan_item.simps) (simp add: ok_or_def major_def [symmetric])
  consider (int) "major = 0 \<or> major = 1" | (leaf) "major = 7" | (str) "major = 2 \<or> major = 3"
    | (arr) "major = 4" | (mp) "major = 5" | (tag) "major = 6"
    using m8 by linarith
  then show ?case
  proof cases
    case int
    then have "fin = nxt" using "1.prems" step by auto
    then show ?thesis using int r d
      by (elim disjE) (auto intro: exI [of _ "CUint arg"] exI [of _ "CNint arg"])
  next
    case leaf
    then have "fin = nxt" using "1.prems" step by auto
    then show ?thesis using leaf r d by (auto simp: leaf_def)
  next
    case str
    then have n: "fin = nxt + arg" "nxt + arg \<le> length bytes" using "1.prems" step by (auto split: if_splits)
    define b where "b = take arg (drop nxt bytes)"
    have "drop nxt bytes = b @ drop fin bytes" "length b = arg"
      using n by (simp_all add: b_def append_take_drop_id drop_drop [symmetric] add.commute del: drop_drop)
    then have "drop pos bytes = (cbor_head major (length b) @ b) @ drop fin bytes" "length b < 2 ^ 64"
      using r str by auto
    then show ?thesis using str d n
      by (elim disjE) (auto intro: exI [of _ "CBytes b"] exI [of _ "CText b"])
  next
    case arr
    then obtain its where "length its = arg" "\<forall>it \<in> set its. item_ok (Suc depth) it"
      "drop nxt bytes = concat (map cbor_bytes its) @ drop fin bytes" "fin \<le> length bytes"
      using IH(1) "1.prems" step r by fastforce
    then show ?thesis using r arr d by (intro exI [of _ "CArray its"]) auto
  next
    case mp
    then have u: "\<not> arg * 2 > u64_max" using "1.prems" step by (auto split: if_splits)
    then obtain its where its: "length its = arg * 2" "\<forall>it \<in> set its. item_ok (Suc depth) it"
      "drop nxt bytes = concat (map cbor_bytes its) @ drop fin bytes" "fin \<le> length bytes"
      using IH(2) "1.prems" step r mp by fastforce
    then obtain kvs where kvs: "length kvs = arg" "its = concat (map (\<lambda>(k, v). [k, v]) kvs)"
      using pairs_of_even [of its arg] by auto
    then have "\<forall>(k, v) \<in> set kvs. item_ok (Suc depth) k \<and> item_ok (Suc depth) v" using its(2) by fastforce
    then show ?thesis using r mp d u kvs its
      by (intro exI [of _ "CMap kvs"]) (auto simp: concat_pairs u64_max_def)
  next
    case tag
    then obtain it where "item_ok (Suc depth) it" "drop nxt bytes = cbor_bytes it @ drop fin bytes" "fin \<le> length bytes"
      using IH(3) "1.prems" step r by fastforce
    then show ?thesis using r tag d by (intro exI [of _ "CTag arg it"]) auto
  qed
next
  case (2 bytes n pos depth)
  show ?case
  proof (cases n)
    case 0
    then show ?thesis using "2.prems" by simp
  next
    case (Suc m)
    then obtain mid where m: "scan_item bytes pos depth = Inr mid" "scan_items bytes m mid depth = Inr fin"
      using "2.prems" by auto
    obtain it where it: "item_ok depth it" "drop pos bytes = cbor_bytes it @ drop mid bytes" "mid \<le> length bytes"
      using "2.IH"(1) [OF Suc m(1)] by blast
    obtain its where "length its = m" "\<forall>it \<in> set its. item_ok depth it"
      "drop mid bytes = concat (map cbor_bytes its) @ drop fin bytes" "fin \<le> length bytes"
      using "2.IH"(2) [OF Suc m(2) it(3)] by blast
    then show ?thesis using it Suc by (intro exI [of _ "it # its"]) auto
  qed
qed


section \<open>Completeness\<close>

lemma get_middle: "get (pre @ b # rest) (length pre) = Some b"
  by (simp add: get_def)

lemma get_range_middle:
  "get_range (pre @ b # raw @ rest) (length pre + 1) (length pre + 1 + length raw) = Some raw"
  by (simp add: get_range_def)

lemma wide_argument_complete:
  assumes "n < 256 ^ k" and "unat (drop_bit 5 ini) = 7 \<or> least \<le> n"
  shows "wide_argument (pre @ (ini # be_bytes k n) @ rest) (length pre) ini k least = Inr (n, length pre + 1 + k)"
  using get_range_middle [of pre ini "be_bytes k n" rest] assms
  by (auto simp: wide_argument_def be_nat_be_bytes ok_or_def drop_bit_7)

text \<open>The byte that starts an item.\<close>

lemma head_complete:
  assumes "major < 8" and "major \<noteq> 7" and "n < 2 ^ 64"
  shows "\<exists>ini tl. cbor_head major n = ini # tl \<and> unat (drop_bit 5 ini) = major \<and> ini AND 0x1f \<noteq> 31 \<and>
    read_head (pre @ cbor_head major n @ rest) (length pre) = Inr (n, length pre + length (cbor_head major n))"
proof -
  have ne: "initial major ai AND 0x1f \<noteq> 31" "unat (drop_bit 5 (initial major ai)) = major" "unat (initial major ai AND 0x1f) = ai"
    if "ai < 28" for ai
    using initial_bits [OF assms(1), of ai] that by (auto dest: arg_cong [of _ _ unat])
  consider "n < 24" | "24 \<le> n" "n < 256" | "256 \<le> n" "n < 65536" | "65536 \<le> n" "n < 4294967296" | "4294967296 \<le> n"
    by linarith
  then show ?thesis
  proof cases
    case 1
    then show ?thesis using ne [of n] get_middle [of pre "initial major n" rest]
      by (simp add: cbor_head_def read_head_def ok_or_def)
  next
    case 2
    have b: "be_bytes 1 n = [word_of_nat n]" using 2 by (simp add: be_bytes_def)
    have "get (pre @ initial major 24 # word_of_nat n # rest) (length pre + 1) = Some (word_of_nat n)"
      by (simp add: get_def nth_append)
    then show ?thesis using 2 ne [of 24] get_middle [of pre "initial major 24" "word_of_nat n # rest"] assms(2) b
      by (simp add: cbor_head_def read_head_def ok_or_def drop_bit_7 unat_of_nat)
  next
    case 3
    then show ?thesis
      using ne [of 25] get_middle [of pre "initial major 25" "be_bytes 2 n @ rest"]
        wide_argument_complete [of n 2 "initial major 25" 256 pre rest]
      by (simp add: cbor_head_def read_head_def ok_or_def)
  next
    case 4
    then show ?thesis
      using ne [of 26] get_middle [of pre "initial major 26" "be_bytes 4 n @ rest"]
        wide_argument_complete [of n 4 "initial major 26" 65536 pre rest]
      by (simp add: cbor_head_def read_head_def ok_or_def)
  next
    case 5
    then show ?thesis
      using ne [of 27] get_middle [of pre "initial major 27" "be_bytes 8 n @ rest"] assms(3)
        wide_argument_complete [of n 8 "initial major 27" 4294967296 pre rest]
      by (simp add: cbor_head_def read_head_def ok_or_def)
  qed
qed

lemma major_7_complete:
  assumes "item_ok depth it" and "\<exists>n. it = CSimple n \<or> it = CF16 n \<or> it = CF32 n \<or> it = CF64 n"
  shows "\<exists>ini tl n. cbor_bytes it = ini # tl \<and> unat (drop_bit 5 ini) = 7 \<and> ini AND 0x1f \<noteq> 31 \<and>
    read_head (pre @ cbor_bytes it @ rest) (length pre) = Inr (n, length pre + length (cbor_bytes it))"
proof -
  have ne: "initial 7 ai AND 0x1f \<noteq> 31" "unat (drop_bit 5 (initial 7 ai)) = 7" "unat (initial 7 ai AND 0x1f) = ai"
    if "ai < 28" for ai
    using initial_bits [of 7 ai] that by (auto dest: arg_cong [of _ _ unat])
  from assms(2) obtain n where "it = CSimple n \<or> it = CF16 n \<or> it = CF32 n \<or> it = CF64 n" by blast
  then consider "it = CSimple n" "n < 24" | "it = CSimple n" "32 \<le> n" "n < 256"
    | "it = CF16 n" "n < 2 ^ 16" | "it = CF32 n" "n < 2 ^ 32" | "it = CF64 n" "n < 2 ^ 64"
    using assms(1) by fastforce
  then show ?thesis
  proof cases
    case 1
    then show ?thesis using ne [of n] get_middle [of pre "initial 7 n" rest]
      by (simp add: read_head_def ok_or_def)
  next
    case 2
    have "get (pre @ initial 7 24 # word_of_nat n # rest) (length pre + 1) = Some (word_of_nat n)"
      by (simp add: get_def nth_append)
    then show ?thesis using 2 ne [of 24] get_middle [of pre "initial 7 24" "word_of_nat n # rest"]
      by (simp add: read_head_def ok_or_def drop_bit_7 unat_of_nat)
  next
    case 3
    then show ?thesis
      using ne [of 25] get_middle [of pre "initial 7 25" "be_bytes 2 n @ rest"]
        wide_argument_complete [of n 2 "initial 7 25" 256 pre rest]
      by (simp add: read_head_def ok_or_def)
  next
    case 4
    then show ?thesis
      using ne [of 26] get_middle [of pre "initial 7 26" "be_bytes 4 n @ rest"]
        wide_argument_complete [of n 4 "initial 7 26" 65536 pre rest]
      by (simp add: read_head_def ok_or_def)
  next
    case 5
    then show ?thesis
      using ne [of 27] get_middle [of pre "initial 7 27" "be_bytes 8 n @ rest"]
        wide_argument_complete [of n 8 "initial 7 27" 4294967296 pre rest]
      by (simp add: read_head_def ok_or_def)
  qed
qed


lemma scan_item_head:
  assumes "major < 7" and "n < 2 ^ 64" and "depth \<le> 32"
  shows "scan_item (pre @ cbor_head major n @ rest) (length pre) depth =
      (let bytes = pre @ cbor_head major n @ rest; nxt = length pre + length (cbor_head major n) in
       if major = 0 \<or> major = 1 then Inr nxt
       else if major = 2 \<or> major = 3 then
         if nxt + n > usize_max then Inl Malformed
         else if nxt + n > length bytes then Inl Malformed else Inr (nxt + n)
       else if major = 4 then scan_items bytes n nxt (depth + 1)
       else if major = 5 then if n * 2 > u64_max then Inl Malformed else scan_items bytes (n * 2) nxt (depth + 1)
       else scan_item bytes nxt (depth + 1))"
proof -
  obtain ini tl where h: "cbor_head major n = ini # tl" "unat (drop_bit 5 ini) = major" "ini AND 0x1f \<noteq> 31"
    "read_head (pre @ cbor_head major n @ rest) (length pre) = Inr (n, length pre + length (cbor_head major n))"
    using head_complete [of major n pre rest] assms by auto
  have g: "get (pre @ cbor_head major n @ rest) (length pre) = Some ini"
    by (simp add: h(1) get_middle)
  show ?thesis
    using assms(1,3) h(2,3) by (subst scan_item.simps) (simp add: g h(4) ok_or_def Let_def MAX_DEPTH_def)
qed

lemma scan_items_complete:
  assumes "\<And>it pre rest. it \<in> set its \<Longrightarrow> length (pre @ cbor_bytes it @ rest) \<le> usize_max \<Longrightarrow>
      scan_item (pre @ cbor_bytes it @ rest) (length pre) depth = Inr (length pre + length (cbor_bytes it))"
    and "length (pre @ concat (map cbor_bytes its) @ rest) \<le> usize_max"
  shows "scan_items (pre @ concat (map cbor_bytes its) @ rest) (length its) (length pre) depth =
    Inr (length pre + length (concat (map cbor_bytes its)))"
  using assms
proof (induction its arbitrary: pre)
  case (Cons it its)
  let ?all = "pre @ cbor_bytes it @ concat (map cbor_bytes its) @ rest"
  have "scan_item ?all (length pre) depth = Inr (length pre + length (cbor_bytes it))"
    using Cons.prems(1) [of it pre "concat (map cbor_bytes its) @ rest"] Cons.prems(2) by simp
  moreover have "scan_items ?all (length its) (length pre + length (cbor_bytes it)) depth =
      Inr (length pre + length (cbor_bytes it) + length (concat (map cbor_bytes its)))"
    using Cons.IH [of "pre @ cbor_bytes it"] Cons.prems by simp
  ultimately show ?case by simp
qed simp

lemma scan_item_leaf:
  assumes "item_ok depth it" and "\<exists>n. it = CSimple n \<or> it = CF16 n \<or> it = CF32 n \<or> it = CF64 n" and "depth \<le> 32"
  shows "scan_item (pre @ cbor_bytes it @ rest) (length pre) depth = Inr (length pre + length (cbor_bytes it))"
proof -
  obtain ini tl n where h: "cbor_bytes it = ini # tl" "unat (drop_bit 5 ini) = 7" "ini AND 0x1f \<noteq> 31"
    "read_head (pre @ cbor_bytes it @ rest) (length pre) = Inr (n, length pre + length (cbor_bytes it))"
    using major_7_complete [OF assms(1,2), of pre rest] by auto
  have g: "get (pre @ cbor_bytes it @ rest) (length pre) = Some ini" by (simp add: h(1) get_middle)
  show ?thesis
    using assms(3) h(2,3) by (subst scan_item.simps) (simp add: g h(4) ok_or_def Let_def MAX_DEPTH_def)
qed

lemma scan_complete:
  assumes "item_ok depth it" and "length (pre @ cbor_bytes it @ rest) \<le> usize_max"
  shows "scan_item (pre @ cbor_bytes it @ rest) (length pre) depth = Inr (length pre + length (cbor_bytes it))"
  using assms
proof (induction depth it arbitrary: pre rest rule: item_ok.induct)
  case (5 depth xs)
  have "scan_items ((pre @ cbor_head 4 (length xs)) @ concat (map cbor_bytes xs) @ rest) (length xs)
      (length (pre @ cbor_head 4 (length xs))) (Suc depth) =
      Inr (length (pre @ cbor_head 4 (length xs)) + length (concat (map cbor_bytes xs)))"
    using 5 by (intro scan_items_complete) auto
  then show ?case
    using scan_item_head [of 4 "length xs" depth pre "concat (map cbor_bytes xs) @ rest"] "5.prems" by simp
next
  case (6 depth kvs)
  let ?its = "concat (map (\<lambda>(k, v). [k, v]) kvs)"
  have l: "length ?its = length kvs * 2" by (induction kvs) auto
  have "scan_items ((pre @ cbor_head 5 (length kvs)) @ concat (map cbor_bytes ?its) @ rest) (length ?its)
      (length (pre @ cbor_head 5 (length kvs))) (Suc depth) =
      Inr (length (pre @ cbor_head 5 (length kvs)) + length (concat (map cbor_bytes ?its)))"
    using 6 by (intro scan_items_complete) (auto simp: concat_pairs)
  then show ?case
    using scan_item_head [of 5 "length kvs" depth pre "concat (map cbor_bytes ?its) @ rest"] "6.prems"
    unfolding l by (simp add: concat_pairs u64_max_def)
next
  case (7 depth n x)
  have "scan_item ((pre @ cbor_head 6 n) @ cbor_bytes x @ rest) (length (pre @ cbor_head 6 n)) (Suc depth) =
      Inr (length (pre @ cbor_head 6 n) + length (cbor_bytes x))"
    using 7 by (intro "7.IH") auto
  then show ?case
    using scan_item_head [of 6 n depth pre "cbor_bytes x @ rest"] "7.prems" by simp
next
  case (3 depth b)
  then show ?case
    using scan_item_head [of 2 "length b" depth pre "b @ rest"] by simp
next
  case (4 depth b)
  then show ?case
    using scan_item_head [of 3 "length b" depth pre "b @ rest"] by simp
next
  case (1 depth n)
  then show ?case using scan_item_head [of 0 n depth pre rest] by simp
next
  case (2 depth n)
  then show ?case using scan_item_head [of 1 n depth pre rest] by simp
next
  case (8 depth n)
  then show ?case by (intro scan_item_leaf) auto
next
  case (9 depth n)
  then show ?case by (intro scan_item_leaf) auto
next
  case (10 depth n)
  then show ?case by (intro scan_item_leaf) auto
next
  case (11 depth n)
  then show ?case by (intro scan_item_leaf) auto
qed

fun tag_of :: "Cbor \<Rightarrow> nat option" where
  "tag_of (CTag t x) = Some t"
| "tag_of _ = None"

lemma item_start:
  assumes "item_ok depth it"
  shows "\<exists>ini tl. cbor_bytes it = ini # tl \<and> (drop_bit 5 ini = 6 \<longleftrightarrow> tag_of it \<noteq> None)"
proof -
  have six: "drop_bit 5 ini = 6 \<longleftrightarrow> unat (drop_bit 5 ini) = 6" for ini :: u8
    by (subst word_unat_eq_iff) simp
  have h: "\<exists>ini tl. cbor_head major n @ rest = ini # tl \<and> unat (drop_bit 5 ini) = major"
    if "major < 7" "n < 2 ^ 64" for major n rest
    using head_complete [of major n "[]" rest] that by auto
  have l: "\<exists>ini tl. cbor_bytes it = ini # tl \<and> unat (drop_bit 5 ini) = 7"
    if "\<exists>n. it = CSimple n \<or> it = CF16 n \<or> it = CF32 n \<or> it = CF64 n"
    using major_7_complete [OF assms that, of "[]" "[]"] by auto
  show ?thesis
  proof (cases it)
    case (CUint n)
    then show ?thesis using h [of 0 n "[]"] assms by (auto simp: six)
  next
    case (CNint n)
    then show ?thesis using h [of 1 n "[]"] assms by (auto simp: six)
  next
    case (CBytes b)
    then show ?thesis using h [of 2 "length b" b] assms by (auto simp: six)
  next
    case (CText b)
    then show ?thesis using h [of 3 "length b" b] assms by (auto simp: six)
  next
    case (CArray xs)
    then show ?thesis using h [of 4 "length xs" "concat (map cbor_bytes xs)"] assms by (auto simp: six)
  next
    case (CMap kvs)
    then show ?thesis
      using h [of 5 "length kvs" "concat (map (\<lambda>(k, v). cbor_bytes k @ cbor_bytes v) kvs)"] assms by (auto simp: six)
  next
    case (CTag t x)
    then show ?thesis using h [of 6 t "cbor_bytes x"] assms by (auto simp: six)
  qed (use l in \<open>auto simp: six simp del: cbor_bytes.simps\<close>)
qed

lemma scan_encoded:
  assumes "item_ok 0 it" and "length (cbor_bytes it) \<le> usize_max"
  shows "scan (cbor_bytes it) = Inr \<lparr>top_tag = tag_of it\<rparr>"
proof -
  have i: "scan_item (cbor_bytes it) 0 0 = Inr (length (cbor_bytes it))"
    using scan_complete [of 0 it "[]" "[]"] assms by simp
  obtain ini tl where s: "cbor_bytes it = ini # tl" "drop_bit 5 ini = 6 \<longleftrightarrow> tag_of it \<noteq> None"
    using item_start [OF assms(1)] by blast
  show ?thesis
  proof (cases "tag_of it")
    case None
    then show ?thesis using i s by (simp add: scan_def)
  next
    case (Some t)
    then obtain x where it: "it = CTag t x" by (cases it) auto
    then have "read_head (cbor_bytes it) 0 = Inr (t, length (cbor_head 6 t))"
      using head_complete [of 6 t "[]" "cbor_bytes x"] assms(1) by auto
    then show ?thesis using i s Some by (simp add: scan_def)
  qed
qed

text \<open>
  C12: The pre-check accepts a byte string exactly when it is the RFC 8949 deterministic encoding
  (shortest heads, definite lengths, nothing after the item) of a CBOR item nested at most 32
  deep, and it reports exactly that item's outer tag. It terminates on every input.
\<close>

theorem scan_exact:
  assumes "length bytes \<le> usize_max"
  shows "scan bytes = Inr s \<longleftrightarrow>
    (\<exists>it. item_ok 0 it \<and> bytes = cbor_bytes it \<and> top_tag s = tag_of it)"
proof
  assume a: "scan bytes = Inr s"
  then obtain tag where t: "scan_item bytes 0 0 = Inr (length bytes)" "s = \<lparr>top_tag = tag\<rparr>"
    by (auto simp: scan_def split: if_splits)
  then obtain it where it: "item_ok 0 it" "bytes = cbor_bytes it" using scan_sound(1) [OF t(1)] by auto
  moreover have "scan (cbor_bytes it) = Inr \<lparr>top_tag = tag_of it\<rparr>"
    using scan_encoded [OF it(1)] it(2) assms by simp
  ultimately show "\<exists>it. item_ok 0 it \<and> bytes = cbor_bytes it \<and> top_tag s = tag_of it"
    using a by auto
next
  assume "\<exists>it. item_ok 0 it \<and> bytes = cbor_bytes it \<and> top_tag s = tag_of it"
  then show "scan bytes = Inr s" using scan_encoded assms by (cases s) auto
qed


theorem scan_exact_witness:
  "scan [0xD2, 0x82, 0x01, 0x41, 0xAA] = Inr \<lparr>top_tag = Some 18\<rparr>"
proof -
  let ?it = "CTag 18 (CArray [CUint 1, CBytes [0xAA]])"
  have b: "[0xD2, 0x82, 0x01, 0x41, 0xAA] = cbor_bytes ?it" by (simp add: cbor_head_def initial_def)
  have "item_ok 0 ?it \<and> [0xD2, 0x82, 0x01, 0x41, 0xAA] = cbor_bytes ?it \<and>
      top_tag \<lparr>top_tag = Some 18\<rparr> = tag_of ?it"
    using b by simp
  moreover have "length [0xD2, 0x82, 0x01, 0x41, 0xAA :: u8] \<le> usize_max" by (simp add: usize_max_def)
  ultimately show ?thesis using scan_exact by blast
qed

end
