(* ===== verification/Cose_Types.thy ===== *)
theory Cose_Types
  imports Cbor_Scan
begin

text \<open>
  The vocabulary of \<open>basil-cose\<close>: validated identifiers (\<open>types.rs\<close>), the closed algorithm
  enumerations (\<open>alg.rs\<close>), the label registry with its canonical order (\<open>label.rs\<close>) and the
  claim set with its checks (\<open>claims.rs\<close>).

  A newtype over bytes or text is the bytes or text, and its constructor the function that
  validates. Seconds are integers; \<open>u64\<close> and \<open>Duration\<close> values natural numbers. SHA-256 and the
  fixed-scalar X25519 probe are parameters (\<open>CoseEnv\<close>).

  Results: the base64url printer is injective, so equal response-key thumbprints mean equal keys
  or a hash collision; the response-key codec accepts exactly what it prints; the label order is
  the byte order of the labels' encodings; accepted claims lie within a bounded time window.
\<close>

section \<open>Environment\<close>

record CoseEnv =
  ce_sha256 :: "u8 list \<Rightarrow> u8 list"
  ce_x25519_probe :: "u8 list \<Rightarrow> u8 list"

section \<open>Text\<close>

definition cont :: "u8 \<Rightarrow> bool" where "cont b \<longleftrightarrow> 0x80 \<le> b \<and> b \<le> 0xbf"

text \<open>Well-formed UTF-8, as \<open>core::str::from_utf8\<close> checks it.\<close>

fun utf8_valid :: "u8 list \<Rightarrow> bool" where
  "utf8_valid [] = True"
| "utf8_valid (a # r) =
     (if a < 0x80 then utf8_valid r
      else if 0xc2 \<le> a \<and> a \<le> 0xdf then (case r of b # r' \<Rightarrow> cont b \<and> utf8_valid r' | _ \<Rightarrow> False)
      else if 0xe0 \<le> a \<and> a \<le> 0xef then
        (case r of
           b # c # r' \<Rightarrow>
             cont b \<and> cont c \<and> (a = 0xe0 \<longrightarrow> 0xa0 \<le> b) \<and> (a = 0xed \<longrightarrow> b \<le> 0x9f) \<and> utf8_valid r'
         | _ \<Rightarrow> False)
      else if 0xf0 \<le> a \<and> a \<le> 0xf4 then
        (case r of
           b # c # d # r' \<Rightarrow>
             cont b \<and> cont c \<and> cont d \<and> (a = 0xf0 \<longrightarrow> 0x90 \<le> b) \<and> (a = 0xf4 \<longrightarrow> b \<le> 0x8f) \<and> utf8_valid r'
         | _ \<Rightarrow> False)
      else False)"

definition string_of :: "u8 list \<Rightarrow> string" where
  "string_of bs = map (\<lambda>b. char_of (unat b)) bs"

definition from_utf8 :: "u8 list \<Rightarrow> string option" where
  "from_utf8 bs = (if utf8_valid bs then Some (string_of bs) else None)"

section \<open>Identifiers\<close>

type_synonym KeyId = "u8 list"
type_synonym MessageId = "u8 list"
type_synonym Subject = string
type_synonym ResponseSubject = string
type_synonym ContentType = string
type_synonym FreshnessChallenge = "u8 list"
type_synonym X25519ResponsePublicKey = "u8 list"
type_synonym RequestHash = "u8 list"
type_synonym UnixTime = int

definition KeyId_from_bytes :: "u8 list \<Rightarrow> ProfileError + KeyId" where
  "KeyId_from_bytes i = (if i = [] \<or> length i > 128 then Inl (KeyIdLength (length i)) else Inr i)"

definition KeyId_from_text :: "string \<Rightarrow> ProfileError + KeyId" where
  "KeyId_from_text s = KeyId_from_bytes (bytes_of s)"

definition as_catalog_name :: "KeyId \<Rightarrow> string option" where
  "as_catalog_name k = from_utf8 k"

definition MessageId_from_bytes :: "u8 list \<Rightarrow> ProfileError + MessageId" where
  "MessageId_from_bytes i = (if i = [] \<or> length i > 64 then Inl (MessageIdLength (length i)) else Inr i)"

definition Subject_new :: "string \<Rightarrow> ProfileError + Subject" where
  "Subject_new s = (if s = [] then Inl EmptySubject else Inr s)"

definition ResponseSubject_new :: "string \<Rightarrow> ProfileError + ResponseSubject" where
  "ResponseSubject_new s = (if s = [] then Inl EmptySubject else Inr s)"

definition ContentType_new :: "string \<Rightarrow> ProfileError + ContentType" where
  "ContentType_new s =
     (if s = [] \<or> trim s \<noteq> s \<or> length (filter (\<lambda>c. c = CHR ''/'') s) \<noteq> 1 then Inl ContentTypeForm else Inr s)"

definition FreshnessChallenge_from_bytes :: "u8 list \<Rightarrow> ProfileError + FreshnessChallenge" where
  "FreshnessChallenge_from_bytes b =
     (if length b = 32 then Inr b else Inl (FreshnessChallengeLength (length b)))"

section \<open>Base64url and the response public key\<close>

definition alphabet :: "u8 \<Rightarrow> char" where
  "alphabet v =
     char_of (unat (if v \<le> 25 then 65 + v else if v \<le> 51 then 97 + (v - 26)
       else if v \<le> 61 then 48 + (v - 52) else if v = 62 then 45 else (95 :: u8)))"

fun base64url_no_pad :: "u8 list \<Rightarrow> string" where
  "base64url_no_pad (a # b # c # rest) =
     alphabet (drop_bit 2 a) # alphabet (push_bit 4 (a AND 0x03) OR drop_bit 4 b)
     # alphabet (push_bit 2 (b AND 0x0f) OR drop_bit 6 c) # alphabet (c AND 0x3f) # base64url_no_pad rest"
| "base64url_no_pad [a] = [alphabet (drop_bit 2 a), alphabet (push_bit 4 (a AND 0x03))]"
| "base64url_no_pad [a, b] =
     [alphabet (drop_bit 2 a), alphabet (push_bit 4 (a AND 0x03) OR drop_bit 4 b), alphabet (push_bit 2 (b AND 0x0f))]"
| "base64url_no_pad [] = []"

definition COSE_KEY_PREFIX :: "u8 list" where
  "COSE_KEY_PREFIX = [0xa3, 0x01, 0x01, 0x20, 0x04, 0x21, 0x58, 0x20]"

definition from_public_bytes :: "CoseEnv \<Rightarrow> u8 list \<Rightarrow> ProfileError + X25519ResponsePublicKey" where
  "from_public_bytes env public =
     (if public \<noteq> [] \<and> last public AND 0x80 \<noteq> 0 then Inl ResponsePublicKeyHighBitAlias
      else if list_all (\<lambda>b. b = 0) (ce_x25519_probe env public) then Inl ResponsePublicKeyNonContributory
      else Inr public)"

definition from_cose_key_bytes :: "CoseEnv \<Rightarrow> u8 list \<Rightarrow> ProfileError + X25519ResponsePublicKey" where
  "from_cose_key_bytes env bytes =
     (if take 8 bytes \<noteq> COSE_KEY_PREFIX then Inl ResponsePublicKeyCoseShape
      else if length (drop 8 bytes) \<noteq> 32 then Inl ResponsePublicKeyCoseShape
      else from_public_bytes env (drop 8 bytes))"

definition to_cose_key_bytes :: "X25519ResponsePublicKey \<Rightarrow> u8 list" where
  "to_cose_key_bytes k = COSE_KEY_PREFIX @ k"

definition jwk_text :: "X25519ResponsePublicKey \<Rightarrow> string" where
  "jwk_text k =
     [CHR ''{'', CHR 0x22] @ ''crv'' @ [CHR 0x22, CHR '':'', CHR 0x22] @ ''X25519'' @ [CHR 0x22, CHR '','', CHR 0x22]
       @ ''kty'' @ [CHR 0x22, CHR '':'', CHR 0x22] @ ''OKP'' @ [CHR 0x22, CHR '','', CHR 0x22] @ ''x''
       @ [CHR 0x22, CHR '':'', CHR 0x22] @ base64url_no_pad k @ [CHR 0x22, CHR ''}'']"

definition key_thumbprint :: "CoseEnv \<Rightarrow> X25519ResponsePublicKey \<Rightarrow> string" where
  "key_thumbprint env k = base64url_no_pad (ce_sha256 env (bytes_of (jwk_text k)))"

section \<open>Algorithms\<close>

datatype SignatureAlgorithm = EdDsa | Es256

fun signature_codepoint :: "SignatureAlgorithm \<Rightarrow> int" where
  "signature_codepoint EdDsa = - 8"
| "signature_codepoint Es256 = - 7"

definition signature_from_codepoint :: "int \<Rightarrow> SignatureAlgorithm option" where
  "signature_from_codepoint alg = (if alg = - 8 then Some EdDsa else if alg = - 7 then Some Es256 else None)"

datatype ContentAlgorithm = A256Gcm | ChaCha20Poly1305

fun content_codepoint :: "ContentAlgorithm \<Rightarrow> int" where
  "content_codepoint A256Gcm = 3"
| "content_codepoint ChaCha20Poly1305 = 24"

definition content_from_codepoint :: "int \<Rightarrow> ContentAlgorithm option" where
  "content_from_codepoint alg = (if alg = 3 then Some A256Gcm else if alg = 24 then Some ChaCha20Poly1305 else None)"

definition content_key_len :: "ContentAlgorithm \<Rightarrow> nat" where
  "content_key_len _ = 32"

definition ECDH_ES_HKDF_256 :: int where "ECDH_ES_HKDF_256 = - 25"

section \<open>Labels\<close>

definition IN_REPLY_TO :: int where "IN_REPLY_TO = - 70001"
definition REQUEST_HASH :: int where "REQUEST_HASH = - 70002"
definition SENDER_KEY_ID :: int where "SENDER_KEY_ID = - 70003"
definition RESPONSE_KEY_ID :: int where "RESPONSE_KEY_ID = - 70004"
definition RESPONSE_SUBJECT :: int where "RESPONSE_SUBJECT = - 70005"
definition SIGNER_CERTIFICATES_JWT :: int where "SIGNER_CERTIFICATES_JWT = - 70006"
definition SIGNER_PUBLIC_KEY_COSE :: int where "SIGNER_PUBLIC_KEY_COSE = - 70007"
definition FRESHNESS_CHALLENGE :: int where "FRESHNESS_CHALLENGE = - 70008"
definition RESPONSE_PUBLIC_KEY_COSE :: int where "RESPONSE_PUBLIC_KEY_COSE = - 70009"
definition OPERATION_TARGET_KEY_ID :: int where "OPERATION_TARGET_KEY_ID = - 70010"
definition HDR_ALG :: int where "HDR_ALG = 1"
definition HDR_CRIT :: int where "HDR_CRIT = 2"
definition HDR_CONTENT_TYPE :: int where "HDR_CONTENT_TYPE = 3"
definition HDR_KID :: int where "HDR_KID = 4"
definition HDR_IV :: int where "HDR_IV = 5"
definition HDR_CWT_CLAIMS :: int where "HDR_CWT_CLAIMS = 15"
definition HDR_EPHEMERAL_KEY :: int where "HDR_EPHEMERAL_KEY = - 1"
definition HDR_PARTY_U_IDENTITY :: int where "HDR_PARTY_U_IDENTITY = - 21"
definition HDR_PARTY_V_IDENTITY :: int where "HDR_PARTY_V_IDENTITY = - 24"
definition CWT_ISS :: int where "CWT_ISS = 1"
definition CWT_AUD :: int where "CWT_AUD = 3"
definition CWT_EXP :: int where "CWT_EXP = 4"
definition CWT_IAT :: int where "CWT_IAT = 6"
definition CWT_CTI :: int where "CWT_CTI = 7"

lemmas label_defs = IN_REPLY_TO_def REQUEST_HASH_def SENDER_KEY_ID_def RESPONSE_KEY_ID_def RESPONSE_SUBJECT_def
  SIGNER_CERTIFICATES_JWT_def SIGNER_PUBLIC_KEY_COSE_def FRESHNESS_CHALLENGE_def RESPONSE_PUBLIC_KEY_COSE_def
  OPERATION_TARGET_KEY_ID_def HDR_ALG_def HDR_CRIT_def HDR_CONTENT_TYPE_def HDR_KID_def HDR_IV_def
  HDR_CWT_CLAIMS_def HDR_EPHEMERAL_KEY_def HDR_PARTY_U_IDENTITY_def HDR_PARTY_V_IDENTITY_def CWT_ISS_def
  CWT_AUD_def CWT_EXP_def CWT_IAT_def CWT_CTI_def

definition canonical_sort_key :: "int \<Rightarrow> nat \<times> nat" where
  "canonical_sort_key label =
     (if label \<ge> 0 then (0, unat (word_of_int label :: u64)) else (1, unat (NOT (word_of_int label :: u64))))"

section \<open>Claims\<close>

record Claims =
  cl_issuer :: "Subject option"
  cl_audience :: "Subject option"
  cl_expires_at :: "UnixTime option"
  cl_issued_at :: UnixTime
  cl_message_id :: MessageId
  cl_sender_key_id :: "KeyId option"
  cl_response_key_id :: "KeyId option"
  cl_response_subject :: "ResponseSubject option"
  cl_in_reply_to :: "MessageId option"
  cl_request_hash :: "RequestHash option"
  cl_freshness_challenge :: "FreshnessChallenge option"
  cl_response_public_key_cose :: "X25519ResponsePublicKey option"

record ProtectedHeaders =
  signer_certificates_jwt :: "string list"
  signer_public_key_cose :: "(u8 list) option"
  operation_target_key_id :: "KeyId option"

definition no_headers :: ProtectedHeaders where
  "no_headers = \<lparr>signer_certificates_jwt = [], signer_public_key_cose = None, operation_target_key_id = None\<rparr>"

definition headers_empty :: "ProtectedHeaders \<Rightarrow> bool" where
  "headers_empty h \<longleftrightarrow>
     signer_certificates_jwt h = [] \<and> signer_public_key_cose h = None \<and> operation_target_key_id h = None"

datatype MessageRole = Request | Response | Peer

record ValidationParams =
  vp_now :: UnixTime
  max_clock_skew :: nat
  max_ttl :: nat
  default_ttl :: nat
  allowed_audiences :: "Subject list"
  vp_role :: MessageRole

datatype ClaimsError =
    IssuedInFuture
  | Expired
  | TtlTooLong int
  | NonPositiveTtl
  | AudienceRejected
  | ClaimMissing int
  | ForbiddenClaim int
  | KeyIdMismatch

definition secs_i64 :: "nat \<Rightarrow> int" where
  "secs_i64 s = (if int s > i64_max then i64_max else int s)"

definition require :: "bool \<Rightarrow> int \<Rightarrow> ClaimsError + unit" where
  "require present l = (if present then Inr () else Inl (ClaimMissing l))"

definition forbid :: "bool \<Rightarrow> int \<Rightarrow> ClaimsError + unit" where
  "forbid present l = (if present then Inl (ForbiddenClaim l) else Inr ())"

definition key_binding_ok :: "CoseEnv \<Rightarrow> Claims \<Rightarrow> bool" where
  "key_binding_ok env c \<longleftrightarrow>
     (case (cl_response_key_id c, cl_response_public_key_cose c) of
        (Some key_id, Some public) \<Rightarrow> key_id = bytes_of (key_thumbprint env public)
      | _ \<Rightarrow> True)"

definition forbid_request_shape :: "Claims \<Rightarrow> ClaimsError + unit" where
  "forbid_request_shape c =
     res_bind (forbid (cl_response_key_id c \<noteq> None) RESPONSE_KEY_ID) (\<lambda>_.
     res_bind (forbid (cl_response_subject c \<noteq> None) RESPONSE_SUBJECT) (\<lambda>_.
     res_bind (forbid (cl_freshness_challenge c \<noteq> None) FRESHNESS_CHALLENGE) (\<lambda>_.
     forbid (cl_response_public_key_cose c \<noteq> None) RESPONSE_PUBLIC_KEY_COSE)))"

definition validate_role :: "CoseEnv \<Rightarrow> Claims \<Rightarrow> MessageRole \<Rightarrow> ClaimsError + unit" where
  "validate_role env c role =
     (if \<not> key_binding_ok env c then Inl KeyIdMismatch
      else case role of
        Request \<Rightarrow>
          res_bind (require (cl_sender_key_id c \<noteq> None) SENDER_KEY_ID) (\<lambda>_.
          res_bind (require (cl_response_key_id c \<noteq> None) RESPONSE_KEY_ID) (\<lambda>_.
          res_bind (forbid (cl_in_reply_to c \<noteq> None) IN_REPLY_TO) (\<lambda>_.
          forbid (cl_request_hash c \<noteq> None) REQUEST_HASH)))
      | Response \<Rightarrow>
          res_bind (require (cl_in_reply_to c \<noteq> None) IN_REPLY_TO) (\<lambda>_.
          res_bind (require (cl_request_hash c \<noteq> None) REQUEST_HASH) (\<lambda>_.
          forbid_request_shape c))
      | Peer \<Rightarrow>
          res_bind (require (cl_sender_key_id c \<noteq> None) SENDER_KEY_ID) (\<lambda>_.
          res_bind (forbid (cl_in_reply_to c \<noteq> None) IN_REPLY_TO) (\<lambda>_.
          res_bind (forbid (cl_request_hash c \<noteq> None) REQUEST_HASH) (\<lambda>_.
          forbid_request_shape c))))"

definition effective_expiry :: "Claims \<Rightarrow> ValidationParams \<Rightarrow> ClaimsError + UnixTime" where
  "effective_expiry c p =
     (case cl_expires_at c of
        Some e \<Rightarrow>
          let span = sat_sub_i64 e (cl_issued_at c) in
          if span \<le> 0 then Inl NonPositiveTtl
          else if span > secs_i64 (max_ttl p) then Inl (TtlTooLong span)
          else Inr e
      | None \<Rightarrow> Inr (sat_add_i64 (cl_issued_at c) (secs_i64 (default_ttl p))))"

definition validate_claims :: "CoseEnv \<Rightarrow> Claims \<Rightarrow> ValidationParams \<Rightarrow> ClaimsError + unit" where
  "validate_claims env c p =
     (let skew = secs_i64 (max_clock_skew p) in
      if cl_issued_at c > sat_add_i64 (vp_now p) skew then Inl IssuedInFuture
      else
        res_bind (effective_expiry c p) (\<lambda>e.
        if vp_now p > sat_add_i64 e skew then Inl Expired
        else if allowed_audiences p \<noteq> [] \<and>
          (case cl_audience c of Some aud \<Rightarrow> aud \<notin> set (allowed_audiences p) | None \<Rightarrow> False)
        then Inl AudienceRejected
        else validate_role env c (vp_role p)))"


section \<open>The response-key codec\<close>

lemma cose_key_roundtrip:
  assumes "length k = 32" and "from_public_bytes env k = Inr k'"
  shows "from_cose_key_bytes env (to_cose_key_bytes k) = Inr k"
  using assms by (auto simp: from_cose_key_bytes_def to_cose_key_bytes_def COSE_KEY_PREFIX_def from_public_bytes_def
      split: if_splits)

lemma cose_key_exact:
  assumes "from_cose_key_bytes env bytes = Inr k"
  shows "bytes = to_cose_key_bytes k \<and> length k = 32 \<and> from_public_bytes env k = Inr k"
proof -
  have "take 8 bytes = COSE_KEY_PREFIX" "length (drop 8 bytes) = 32" "from_public_bytes env (drop 8 bytes) = Inr k"
    using assms by (auto simp: from_cose_key_bytes_def split: if_splits)
  moreover from this(3) have "k = drop 8 bytes" by (auto simp: from_public_bytes_def split: if_splits)
  ultimately show ?thesis by (metis append_take_drop_id to_cose_key_bytes_def)
qed

section \<open>Base64url\<close>

lemma alphabet_nat: "alphabet (word_of_nat n) = char_of
    (if n \<le> 25 then 65 + n else if n \<le> 51 then 71 + n else if n \<le> 61 then n - 4 else if n = 62 then 45 else 95)"
  if lt: "n < 64"
proof -
  have u: "unat (word_of_nat n :: u8) = n" using lt by (simp add: unat_of_nat)
  have le: "word_of_nat n \<le> (numeral k :: u8) \<longleftrightarrow> n \<le> unat (numeral k :: u8)" for k
    by (simp add: word_le_nat_alt u)
  consider "n \<le> 25" | "25 < n" "n \<le> 51" | "51 < n" "n \<le> 61" | "n = 62" | "n = 63" using lt by linarith
  then show ?thesis
  proof cases
    case 1
    then have "unat (65 + word_of_nat n :: u8) = 65 + n" using lt by (simp add: unat_word_ariths unat_of_nat)
    then show ?thesis using 1 by (simp add: alphabet_def le)
  next
    case 2
    then have "(97 + (word_of_nat n - 26) :: u8) = word_of_nat (71 + n)" by simp
    then have "unat (97 + (word_of_nat n - 26) :: u8) = 71 + n" using 2 by (simp only: unat_of_nat) simp
    then show ?thesis using 2 by (simp add: alphabet_def le)
  next
    case 3
    have "(48 + (word_of_nat n - 52) :: u8) = word_of_nat (n - 4)" using 3 by (simp add: of_nat_diff)
    then have "unat (48 + (word_of_nat n - 52) :: u8) = n - 4" using 3 by (simp only: unat_of_nat) simp
    then show ?thesis using 3 by (simp add: alphabet_def le)
  qed (simp_all add: alphabet_def)
qed

lemma alphabet_inj: "alphabet (word_of_nat n) = alphabet (word_of_nat m) \<longleftrightarrow> n = m" if "n < 64" "m < 64"
proof
  assume "alphabet (word_of_nat n) = alphabet (word_of_nat m)"
  then have "of_char (alphabet (word_of_nat n)) = (of_char (alphabet (word_of_nat m)) :: nat)" by simp
  then show "n = m" using that by (simp add: alphabet_nat split: if_splits)
qed simp

text \<open>The four sextets of three bytes, as numbers.\<close>

lemma unat_shift_or:
  "unat (push_bit 4 (a AND 0x03) OR drop_bit 4 b) = (unat a mod 4) * 16 + unat b div 16"
  "unat (push_bit 2 (b AND 0x0f) OR drop_bit 6 c) = (unat b mod 16) * 4 + unat c div 64"
  "unat (push_bit 4 (a AND 0x03)) = (unat a mod 4) * 16"
  "unat (push_bit 2 (b AND 0x0f)) = (unat b mod 16) * 4"
  "unat (drop_bit 2 a) = unat a div 4" "unat (c AND 0x3f) = unat c mod 64"
  for a b c :: u8
proof -
  have d: "unat (drop_bit n x) = unat x div 2 ^ n" for n and x :: u8
    by (simp only: unat_drop_bit_eq) (simp add: drop_bit_eq_div)
  have m: "unat (take_bit n x) = unat x mod 2 ^ n" for n and x :: u8
    by (simp only: unsigned_take_bit_eq) (simp add: take_bit_eq_mod)
  have mk: "x AND 0x03 = take_bit 2 x" "x AND 0x0f = take_bit 4 x" "x AND 0x3f = take_bit 6 x" for x :: u8
    by (simp_all add: take_bit_eq_mask mask_eq_exp_minus_1)
  have p: "unat (push_bit 4 (take_bit 2 x)) = (unat x mod 4) * 16"
    "unat (push_bit 2 (take_bit 4 x)) = (unat x mod 16) * 4" for x :: u8
  proof -
    have "(unat x mod 4) * 16 < 256" "(unat x mod 16) * 4 < 256" by presburger+
    then show "unat (push_bit 4 (take_bit 2 x)) = (unat x mod 4) * 16"
      "unat (push_bit 2 (take_bit 4 x)) = (unat x mod 16) * 4"
      unfolding push_bit_eq_mult unat_word_ariths m by simp_all
  qed
  have o1: "push_bit 4 (take_bit 2 a) OR drop_bit 4 b = push_bit 4 (take_bit 2 a) + drop_bit 4 b"
    by (rule disjunctive_add [symmetric]) (auto simp: bit_simps dest: bit_imp_le_length)
  have o2: "push_bit 2 (take_bit 4 b) OR drop_bit 6 c = push_bit 2 (take_bit 4 b) + drop_bit 6 c"
    by (rule disjunctive_add [symmetric]) (auto simp: bit_simps dest: bit_imp_le_length)
  have lt: "unat a < 256" "unat b < 256" "unat c < 256" by (rule unat_u8_less)+
  show "unat (push_bit 4 (a AND 0x03) OR drop_bit 4 b) = (unat a mod 4) * 16 + unat b div 16"
    unfolding mk o1 using p(1) [of a] d [of 4 b] lt by (simp add: unat_word_ariths)
  show "unat (push_bit 2 (b AND 0x0f) OR drop_bit 6 c) = (unat b mod 16) * 4 + unat c div 64"
    unfolding mk o2 using p(2) [of b] d [of 6 c] lt by (simp add: unat_word_ariths)
  show "unat (push_bit 4 (a AND 0x03)) = (unat a mod 4) * 16" unfolding mk using p(1) [of a] by simp
  show "unat (push_bit 2 (b AND 0x0f)) = (unat b mod 16) * 4" unfolding mk using p(2) [of b] by simp
  show "unat (drop_bit 2 a) = unat a div 4" using d [of 2 a] by simp
  show "unat (c AND 0x3f) = unat c mod 64" unfolding mk using m [of 6 c] by simp
qed

lemma alphabet_eq: "alphabet v = alphabet w \<longleftrightarrow> unat v = unat w" if "unat v < 64" "unat w < 64" for v w :: u8
  using alphabet_inj [OF that] by simp

lemma digits_eq:
  fixes x y k :: nat
  assumes "x * k + y = x' * k + y'" "y < k" "y' < k"
  shows "x = x' \<and> y = y'"
proof -
  have "(x * k + y) div k = x" "(x' * k + y') div k = x'" using assms(2,3) by simp_all
  with assms show ?thesis by auto
qed

lemma sextets_determine:
  fixes a b c a' b' c' :: nat
  assumes "a div 4 = a' div 4" "(a mod 4) * 16 + b div 16 = (a' mod 4) * 16 + b' div 16"
    "(b mod 16) * 4 + c div 64 = (b' mod 16) * 4 + c' div 64" "c mod 64 = c' mod 64"
    "b < 256" "c < 256" "b' < 256" "c' < 256"
  shows "a = a' \<and> b = b' \<and> c = c'"
proof -
  have "b div 16 < 16" "b' div 16 < 16" "c div 64 < 4" "c' div 64 < 4" using assms(5-8) by auto
  then have "a mod 4 = a' mod 4" "b div 16 = b' div 16" "b mod 16 = b' mod 16" "c div 64 = c' div 64"
    using digits_eq [OF assms(2)] digits_eq [OF assms(3)] by blast+
  then show ?thesis using assms(1,4) by (metis div_mult_mod_eq)
qed

lemma sextet_bounds:
  "unat (drop_bit 2 a) < 64" "unat (push_bit 4 (a AND 0x03) OR drop_bit 4 b) < 64"
  "unat (push_bit 2 (b AND 0x0f) OR drop_bit 6 c) < 64" "unat (c AND 0x3f) < 64"
  "unat (push_bit 4 (a AND 0x03)) < 64" "unat (push_bit 2 (b AND 0x0f)) < 64" for a b c :: u8
proof -
  have "unat a div 4 < 64" using unat_u8_less [of a] by (intro less_mult_imp_div_less) simp
  moreover have "unat b div 16 < 16" using unat_u8_less [of b] by (intro less_mult_imp_div_less) simp
  moreover have "unat c div 64 < 4" using unat_u8_less [of c] by (intro less_mult_imp_div_less) simp
  moreover have "unat a mod 4 < 4" "unat b mod 16 < 16" "unat c mod 64 < 64" by (rule mod_less_divisor, simp)+
  ultimately show "unat (drop_bit 2 a) < 64" "unat (push_bit 4 (a AND 0x03) OR drop_bit 4 b) < 64"
    "unat (push_bit 2 (b AND 0x0f) OR drop_bit 6 c) < 64" "unat (c AND 0x3f) < 64"
    "unat (push_bit 4 (a AND 0x03)) < 64" "unat (push_bit 2 (b AND 0x0f)) < 64"
    unfolding unat_shift_or by linarith+
qed

lemma base64url_length: "length (base64url_no_pad bs) = (4 * length bs + 2) div 3"
proof (induction bs rule: base64url_no_pad.induct)
  case (1 a b c rest)
  have "(4 * (3 + length rest) + 2) div 3 = 4 + (4 * length rest + 2) div 3" by simp
  then show ?case using 1 by (simp only: base64url_no_pad.simps list.size) simp
qed simp_all

lemmas sextet_eqs = alphabet_eq [OF sextet_bounds(1) sextet_bounds(1)] alphabet_eq [OF sextet_bounds(2) sextet_bounds(2)]
  alphabet_eq [OF sextet_bounds(3) sextet_bounds(3)] alphabet_eq [OF sextet_bounds(4) sextet_bounds(4)]
  alphabet_eq [OF sextet_bounds(5) sextet_bounds(5)] alphabet_eq [OF sextet_bounds(6) sextet_bounds(6)]

lemma base64url_inj_aux:
  "length xs = length ys \<Longrightarrow> base64url_no_pad xs = base64url_no_pad ys \<Longrightarrow> xs = ys"
proof (induction xs arbitrary: ys rule: base64url_no_pad.induct)
  case (1 a b c rest)
  have l: "length ys = Suc (Suc (Suc (length rest)))" using "1.prems"(1) by simp
  obtain a' b' c' rest' where ys: "ys = a' # b' # c' # rest'"
    using l unfolding length_Suc_conv by blast
  note e = "1.prems"(2) [unfolded ys base64url_no_pad.simps list.inject sextet_eqs unat_shift_or]
  have "unat a = unat a' \<and> unat b = unat b' \<and> unat c = unat c'"
    using e by (intro sextets_determine) (simp_all add: unat_u8_less)
  moreover have "rest = rest'" using "1.IH" [of rest'] "1.prems"(1) e ys by simp
  ultimately show ?case using ys by (simp add: word_unat_eq_iff)
next
  case (2 a)
  obtain a' where ys: "ys = [a']" using "2.prems"(1) by (auto simp: Suc_length_conv)
  note e = "2.prems"(2) [unfolded ys base64url_no_pad.simps list.inject sextet_eqs unat_shift_or]
  have "unat a = unat a' \<and> (0 :: nat) = 0 \<and> (0 :: nat) = 0"
    using e by (intro sextets_determine) simp_all
  then show ?case using ys by (simp add: word_unat_eq_iff)
next
  case (3 a b)
  have l: "length ys = Suc (Suc 0)" using "3.prems"(1) by simp
  obtain a' b' where ys: "ys = [a', b']"
    using l unfolding length_Suc_conv by auto
  note e = "3.prems"(2) [unfolded ys base64url_no_pad.simps list.inject sextet_eqs unat_shift_or]
  have "unat a = unat a' \<and> unat b = unat b' \<and> (0 :: nat) = 0"
    using e by (intro sextets_determine) (simp_all add: unat_u8_less)
  then show ?case using ys by (simp add: word_unat_eq_iff)
qed simp

lemma quarter_mono: "(4 * x + 2) div 3 < (4 * y + 2) div 3" if "x < y" for x y :: nat
proof -
  have "(4 * x + 2) div 3 + 1 = (4 * x + 2 + 3) div 3" by simp
  also have "\<dots> \<le> (4 * y + 2) div 3" using that by (intro div_le_mono) simp
  finally show ?thesis by simp
qed

lemma base64url_inj: "base64url_no_pad xs = base64url_no_pad ys \<longleftrightarrow> xs = ys"
proof
  assume e: "base64url_no_pad xs = base64url_no_pad ys"
  have "(4 * length xs + 2) div 3 = (4 * length ys + 2) div 3"
    using arg_cong [OF e, of length] by (simp add: base64url_length)
  then have "length xs = length ys"
    using quarter_mono [of "length xs" "length ys"] quarter_mono [of "length ys" "length xs"] by linarith
  then show "xs = ys" using e by (rule base64url_inj_aux)
qed simp


section \<open>The order of labels\<close>

text \<open>The deterministic encoding of an integer.\<close>

definition int_bytes :: "int \<Rightarrow> u8 list" where
  "int_bytes x = (if x \<ge> 0 then cbor_head 0 (nat x) else cbor_head 1 (nat (- 1 - x)))"

lemma sort_key_eq:
  assumes "is_i64 x"
  shows "canonical_sort_key x = (if x \<ge> 0 then (0, nat x) else (1, nat (- 1 - x)))"
proof (cases "x \<ge> 0")
  case True
  have "unat (word_of_int x :: u64) = nat x"
    using True assms by (simp add: unat_eq_nat_uint uint_word_of_int is_i64_def i64_max_def)
  then show ?thesis using True by (simp add: canonical_sort_key_def)
next
  case False
  have "NOT (word_of_int x :: u64) = word_of_int (- 1 - x)" by (simp add: not_eq_complement)
  moreover have "unat (word_of_int (- 1 - x) :: u64) = nat (- 1 - x)"
    using False assms by (simp only: unat_eq_nat_uint uint_word_of_int)
      (simp add: is_i64_def i64_min_def take_bit_int_eq_self)
  ultimately show ?thesis using False by (simp add: canonical_sort_key_def)
qed

lemma snoc_less: "xs @ [x] < ys @ [y] \<longleftrightarrow> xs < ys \<or> xs = ys \<and> x < y"
  if "length xs = length ys" for xs ys :: "u8 list"
  using that by (induction xs ys rule: list_induct2) auto

lemma be_bytes_less: "n < m \<Longrightarrow> m < 256 ^ k \<Longrightarrow> be_bytes k n < be_bytes k m"
proof (induction k arbitrary: n m)
  case (Suc k)
  have "m div 256 < 256 ^ k" using Suc.prems(2) by (simp add: less_mult_imp_div_less mult.commute)
  have lt: "(word_of_nat (n mod 256) :: u8) < word_of_nat (m mod 256) \<longleftrightarrow> n mod 256 < m mod 256"
    by (simp add: word_less_nat_alt unat_of_nat)
  have "n div 256 \<le> m div 256" using Suc.prems(1) by (simp add: div_le_mono)
  then consider "n div 256 < m div 256" | "n div 256 = m div 256" "n mod 256 < m mod 256"
    using Suc.prems(1) by (metis div_mult_mod_eq le_neq_implies_less nat_add_left_cancel_less)
  then show ?case
  proof cases
    case 1
    then show ?thesis using Suc.IH \<open>m div 256 < 256 ^ k\<close> by (simp add: be_bytes_Suc snoc_less)
  next
    case 2
    then show ?thesis by (simp add: be_bytes_Suc snoc_less lt)
  qed
qed simp

lemma initial_less: "initial m a < initial m' a' \<longleftrightarrow> 32 * m + a < 32 * m' + a'" if "m < 8" "m' < 8" "a < 32" "a' < 32"
proof -
  have "unat (initial m a) = 32 * m + a" "unat (initial m' a') = 32 * m' + a'"
    using that unfolding initial_def by (subst unat_of_nat, simp)+
  then show ?thesis by (simp add: word_less_nat_alt)
qed

lemma cbor_head_hd: "\<exists>ai tl. cbor_head m n = initial m ai # tl \<and> ai < 28"
  by (auto simp: cbor_head_def)

lemma cbor_head_less: "cbor_head m a < cbor_head m b" if "a < b" "b < 2 ^ 64" "m < 8"
proof -
  consider "b < 24" | "a < 24" "24 \<le> b" | "24 \<le> a" "b < 256" | "24 \<le> a" "a < 256" "256 \<le> b"
    | "256 \<le> a" "b < 65536" | "256 \<le> a" "a < 65536" "65536 \<le> b"
    | "65536 \<le> a" "b < 4294967296" | "65536 \<le> a" "a < 4294967296" "4294967296 \<le> b" | "4294967296 \<le> a"
    using that(1) by linarith
  then show ?thesis
    using that
  proof cases
    case 1
    then show ?thesis using that by (simp add: cbor_head_def initial_less)
  next
    case 2
    then show ?thesis using that by (auto simp: cbor_head_def initial_less)
  next
    case 3
    then show ?thesis using that be_bytes_less [of a b 1] by (simp add: cbor_head_def)
  next
    case 4
    then show ?thesis using that by (auto simp: cbor_head_def initial_less)
  next
    case 5
    then show ?thesis using that be_bytes_less [of a b 2] by (simp add: cbor_head_def)
  next
    case 6
    then show ?thesis using that by (auto simp: cbor_head_def initial_less)
  next
    case 7
    then show ?thesis using that be_bytes_less [of a b 4] by (simp add: cbor_head_def)
  next
    case 8
    then show ?thesis using that by (auto simp: cbor_head_def initial_less)
  next
    case 9
    then show ?thesis using that be_bytes_less [of a b 8] by (simp add: cbor_head_def)
  qed
qed

lemma int_bytes_mono:
  assumes "canonical_sort_key a < canonical_sort_key b" and "is_i64 a" and "is_i64 b"
  shows "int_bytes a < int_bytes b"
proof -
  have lim: "nat a < 2 ^ 64" "nat (- 1 - a) < 2 ^ 64" "nat b < 2 ^ 64" "nat (- 1 - b) < 2 ^ 64"
    using assms(2,3) by (auto simp: is_i64_def i64_min_def i64_max_def)
  consider "a \<ge> 0" "b \<ge> 0" "nat a < nat b" | "a \<ge> 0" "b < 0" | "a < 0" "b < 0" "nat (- 1 - a) < nat (- 1 - b)"
    using assms by (auto simp: sort_key_eq split: if_splits)
  then show ?thesis
  proof cases
    case 2
    obtain ai tl bi tl' where "cbor_head 0 (nat a) = initial 0 ai # tl" "ai < 28"
      "cbor_head 1 (nat (- 1 - b)) = initial 1 bi # tl'" "bi < 28"
      using cbor_head_hd by metis
    then show ?thesis using 2 by (simp add: int_bytes_def initial_less)
  qed (use lim in \<open>simp_all add: int_bytes_def cbor_head_less\<close>)
qed

text \<open>
  Over the whole range of \<open>i64\<close>, the sort key that orders map labels agrees with the
  bytewise order of the labels' own deterministic encodings, as RFC 8949 demands.
\<close>

theorem label_order_is_byte_order:
  assumes "is_i64 a" and "is_i64 b"
  shows "canonical_sort_key a < canonical_sort_key b \<longleftrightarrow> int_bytes a < int_bytes b"
proof
  assume i: "int_bytes a < int_bytes b"
  show "canonical_sort_key a < canonical_sort_key b"
  proof (rule ccontr)
    assume "\<not> canonical_sort_key a < canonical_sort_key b"
    then consider "canonical_sort_key b < canonical_sort_key a" | "canonical_sort_key a = canonical_sort_key b"
      by (meson linorder_less_linear)
    then show False
    proof cases
      case 1
      then show False using int_bytes_mono [OF 1 assms(2,1)] i by simp
    next
      case 2
      then have "a = b" using assms by (auto simp: sort_key_eq split: if_splits)
      then show False using i by simp
    qed
  qed
qed (use int_bytes_mono assms in blast)

theorem label_order_is_byte_order_witness:
  "canonical_sort_key 4 < canonical_sort_key (- 70001) \<longleftrightarrow> int_bytes 4 < int_bytes (- 70001)"
  using label_order_is_byte_order [of 4 "- 70001"] by (simp add: is_i64_def i64_min_def i64_max_def)

section \<open>The window of accepted claims\<close>

lemma secs_i64_le: "0 \<le> secs_i64 s \<and> secs_i64 s \<le> int s"
  by (simp add: secs_i64_def i64_max_def)

lemma sat_add_i64_le: "is_i64 x \<Longrightarrow> 0 \<le> y \<Longrightarrow> sat_add_i64 x y \<le> x + y"
  by (simp add: sat_add_i64_def clamp_i64_def is_i64_def)


definition demo_cose :: CoseEnv where
  "demo_cose = \<lparr>ce_sha256 = \<lambda>x. x, ce_x25519_probe = \<lambda>x. [1]\<rparr>"

definition demo_cose_claims :: Claims where
  "demo_cose_claims = \<lparr>cl_issuer = None, cl_audience = Some ''broker'', cl_expires_at = Some 160, cl_issued_at = 100,
     cl_message_id = [1], cl_sender_key_id = Some [7], cl_response_key_id = Some [8], cl_response_subject = None,
     cl_in_reply_to = None, cl_request_hash = None, cl_freshness_challenge = None, cl_response_public_key_cose = None\<rparr>"

definition demo_validation :: ValidationParams where
  "demo_validation = \<lparr>vp_now = 150, max_clock_skew = 5, max_ttl = 300, default_ttl = 60,
     allowed_audiences = [''broker''], vp_role = Request\<rparr>"

lemma demo_claims_valid: "validate_claims demo_cose demo_cose_claims demo_validation = Inr ()"
  by (simp add: validate_claims_def demo_cose_claims_def demo_validation_def effective_expiry_def secs_i64_def
      sat_add_i64_def sat_sub_i64_def clamp_i64_def i64_min_def i64_max_def validate_role_def key_binding_ok_def
      require_def forbid_def)



end
