(* ===== verification/Cose_Codec.thy ===== *)
theory Cose_Codec
  imports Cose_Types
begin

text \<open>
  The deterministic COSE codec (\<open>basil-cose/src/codec/mod.rs\<close>): protected headers, message
  assembly, the structures that are signed, authenticated and fed to the key derivation, and the
  strict decoders with their re-encode check.

  The CBOR library is a parameter (\<open>Minicbor\<close>): an encoder of one token, and the reads of a
  decoder, each a function of the bytes still unread. \<open>minicbor_ok\<close> states what its
  documentation promises of them: RFC 8949 shortest-form encodings, and that a read returns the
  token just written. Encoding writes lists of tokens; decoding walks the unread bytes.

  Results: whatever the strict decoders accept is the canonical encoding of what they return, and
  the protected bytes they return, over which signatures and authentication tags are computed,
  are the canonical ones; what is signed or authenticated determines what is decoded; the outer layer
  of a sealed message and an encrypted message without claims decode to what they were built of.
\<close>

section \<open>The CBOR library\<close>

datatype CborType =
    TyInt | TyBytes | TyBytesIndef | TyString | TyStringIndef | TyArray | TyArrayIndef | TyMap | TyMapIndef
  | TyTag | TyNull | TyF16 | TyF32 | TyF64 | TyOther

datatype Tok =
    TInt int
  | TU64 nat
  | TBytes "u8 list"
  | TStr string
  | TArr nat
  | TMap nat
  | TTag nat
  | TNull

record Minicbor =
  mc_enc :: "Tok \<Rightarrow> u8 list"
  mc_datatype :: "u8 list \<Rightarrow> CborType option"
  mc_i64 :: "u8 list \<Rightarrow> (int \<times> u8 list) option"
  mc_bytes :: "u8 list \<Rightarrow> (u8 list \<times> u8 list) option"
  mc_str :: "u8 list \<Rightarrow> (string \<times> u8 list) option"
  mc_map :: "u8 list \<Rightarrow> (nat option \<times> u8 list) option"
  mc_array :: "u8 list \<Rightarrow> (nat option \<times> u8 list) option"
  mc_tag :: "u8 list \<Rightarrow> (nat \<times> u8 list) option"
  mc_null :: "u8 list \<Rightarrow> (u8 list) option"

definition encode_with :: "Minicbor \<Rightarrow> Tok list \<Rightarrow> u8 list" where
  "encode_with M ts = concat (map (mc_enc M) ts)"

datatype CodecError = CodecError

definition TAG_SIGN1 :: nat where "TAG_SIGN1 = 18"
definition TAG_ENCRYPT :: nat where "TAG_ENCRYPT = 96"
definition NONCE_LEN :: nat where "NONCE_LEN = 12"
definition X25519_LEN :: nat where "X25519_LEN = 32"

definition CLAIM_LABELS :: "int list" where
  "CLAIM_LABELS = [HDR_CWT_CLAIMS, IN_REPLY_TO, REQUEST_HASH, SENDER_KEY_ID, RESPONSE_KEY_ID, RESPONSE_SUBJECT,
     FRESHNESS_CHALLENGE, RESPONSE_PUBLIC_KEY_COSE]"

definition response_key_binding_matches :: "CoseEnv \<Rightarrow> Claims \<Rightarrow> bool" where
  "response_key_binding_matches env c =
     (case (cl_response_key_id c, cl_response_public_key_cose c) of
        (Some key_id, Some public) \<Rightarrow> key_id = bytes_of (key_thumbprint env public)
      | _ \<Rightarrow> True)"

section \<open>Encoding\<close>

definition present :: "'a option \<Rightarrow> int \<Rightarrow> int list" where
  "present v l = (case v of Some _ \<Rightarrow> [l] | None \<Rightarrow> [])"

definition basil_labels :: "Claims \<Rightarrow> int list" where
  "basil_labels c =
     present (cl_in_reply_to c) IN_REPLY_TO @ present (cl_request_hash c) REQUEST_HASH
     @ present (cl_sender_key_id c) SENDER_KEY_ID @ present (cl_response_key_id c) RESPONSE_KEY_ID
     @ present (cl_response_subject c) RESPONSE_SUBJECT @ present (cl_freshness_challenge c) FRESHNESS_CHALLENGE
     @ present (cl_response_public_key_cose c) RESPONSE_PUBLIC_KEY_COSE"

definition protected_header_crit_labels :: "ProtectedHeaders option \<Rightarrow> int list" where
  "protected_header_crit_labels h =
     sort_key canonical_sort_key
       (case h of
          None \<Rightarrow> []
        | Some h \<Rightarrow>
            (if signer_certificates_jwt h \<noteq> [] then [SIGNER_CERTIFICATES_JWT] else [])
            @ present (signer_public_key_cose h) SIGNER_PUBLIC_KEY_COSE
            @ present (operation_target_key_id h) OPERATION_TARGET_KEY_ID)"

definition crit_labels :: "Claims option \<Rightarrow> ProtectedHeaders option \<Rightarrow> int list" where
  "crit_labels claims h =
     sort_key canonical_sort_key
       ([HDR_CONTENT_TYPE]
        @ (case claims of Some c \<Rightarrow> HDR_CWT_CLAIMS # basil_labels c | None \<Rightarrow> [])
        @ protected_header_crit_labels h)"

definition opt_toks :: "'a option \<Rightarrow> int \<Rightarrow> ('a \<Rightarrow> Tok list) \<Rightarrow> Tok list" where
  "opt_toks v l f = (case v of Some x \<Rightarrow> TInt l # f x | None \<Rightarrow> [])"

definition one_if :: "bool \<Rightarrow> nat" where "one_if b = (if b then 1 else 0)"

definition write_cwt_map :: "Claims \<Rightarrow> Tok list" where
  "write_cwt_map c =
     TMap (2 + one_if (cl_issuer c \<noteq> None) + one_if (cl_audience c \<noteq> None) + one_if (cl_expires_at c \<noteq> None))
     # opt_toks (cl_issuer c) CWT_ISS (\<lambda>s. [TStr s])
     @ opt_toks (cl_audience c) CWT_AUD (\<lambda>s. [TStr s])
     @ opt_toks (cl_expires_at c) CWT_EXP (\<lambda>e. [TInt e])
     @ [TInt CWT_IAT, TInt (cl_issued_at c), TInt CWT_CTI, TBytes (cl_message_id c)]"

definition write_crit :: "int list \<Rightarrow> Tok list" where
  "write_crit crit = TInt HDR_CRIT # TArr (length crit) # map TInt crit"

text \<open>The text form of the response key identifier; bytes that are not UTF-8 fail the encoder.\<close>

definition write_response_key_id :: "KeyId option \<Rightarrow> CodecError + Tok list" where
  "write_response_key_id v =
     (case v of
        None \<Rightarrow> Inr []
      | Some k \<Rightarrow>
          (case as_catalog_name k of
             Some name \<Rightarrow> Inr [TInt RESPONSE_KEY_ID, TStr name]
           | None \<Rightarrow> Inl CodecError))"

definition write_basil_claims :: "Claims \<Rightarrow> CodecError + Tok list" where
  "write_basil_claims c =
     res_bind (write_response_key_id (cl_response_key_id c)) (\<lambda>rk.
     Inr (TInt HDR_CWT_CLAIMS # write_cwt_map c
       @ opt_toks (cl_in_reply_to c) IN_REPLY_TO (\<lambda>v. [TBytes v])
       @ opt_toks (cl_request_hash c) REQUEST_HASH (\<lambda>v. [TBytes v])
       @ opt_toks (cl_sender_key_id c) SENDER_KEY_ID (\<lambda>v. [TBytes v])
       @ rk
       @ opt_toks (cl_response_subject c) RESPONSE_SUBJECT (\<lambda>v. [TStr v])))"

definition write_jwts :: "string list \<Rightarrow> Tok list" where
  "write_jwts jwts =
     (if jwts \<noteq> [] then TInt SIGNER_CERTIFICATES_JWT # TArr (length jwts) # map TStr jwts else [])"

definition write_claims_capable_tail ::
  "ContentType \<Rightarrow> Claims option \<Rightarrow> ProtectedHeaders option \<Rightarrow> KeyId option \<Rightarrow> CodecError + Tok list" where
  "write_claims_capable_tail content_type claims h kid =
     res_bind (case claims of Some c \<Rightarrow> write_basil_claims c | None \<Rightarrow> Inr []) (\<lambda>body.
     Inr (write_crit (crit_labels claims h)
       @ [TInt HDR_CONTENT_TYPE, TStr content_type]
       @ opt_toks kid HDR_KID (\<lambda>k. [TBytes k])
       @ body
       @ (case h of Some h \<Rightarrow> write_jwts (signer_certificates_jwt h) | None \<Rightarrow> [])
       @ opt_toks (Option.bind h signer_public_key_cose) SIGNER_PUBLIC_KEY_COSE (\<lambda>k. [TBytes k])
       @ opt_toks (Option.bind claims cl_freshness_challenge) FRESHNESS_CHALLENGE (\<lambda>v. [TBytes v])
       @ opt_toks (Option.bind claims cl_response_public_key_cose) RESPONSE_PUBLIC_KEY_COSE
           (\<lambda>v. [TBytes (to_cose_key_bytes v)])
       @ opt_toks (Option.bind h operation_target_key_id) OPERATION_TARGET_KEY_ID (\<lambda>k. [TBytes k])))"

definition claims_capable_tail_len :: "Claims option \<Rightarrow> ProtectedHeaders option \<Rightarrow> nat" where
  "claims_capable_tail_len claims h =
     2 + (case claims of Some c \<Rightarrow> 1 + length (basil_labels c) | None \<Rightarrow> 0)
     + one_if (case h of Some h \<Rightarrow> signer_certificates_jwt h \<noteq> [] | None \<Rightarrow> False)
     + one_if (case h of Some h \<Rightarrow> signer_public_key_cose h \<noteq> None | None \<Rightarrow> False)
     + one_if (case h of Some h \<Rightarrow> operation_target_key_id h \<noteq> None | None \<Rightarrow> False)"

definition encode_sign1_protected_bare_with_headers ::
  "Minicbor \<Rightarrow> CoseEnv \<Rightarrow> SignatureAlgorithm \<Rightarrow> KeyId \<Rightarrow> ContentType \<Rightarrow> Claims option \<Rightarrow> ProtectedHeaders option
    \<Rightarrow> CodecError + u8 list" where
  "encode_sign1_protected_bare_with_headers M env alg kid content_type claims h =
     (if (case claims of Some c \<Rightarrow> \<not> response_key_binding_matches env c | None \<Rightarrow> False) then Inl CodecError
      else
        res_bind (write_claims_capable_tail content_type claims h (Some kid)) (\<lambda>tl.
        Inr (encode_with M (TMap (2 + claims_capable_tail_len claims h)
          # TInt HDR_ALG # TInt (signature_codepoint alg) # tl))))"

definition sealed_outer_toks :: "SignatureAlgorithm \<Rightarrow> KeyId \<Rightarrow> ProtectedHeaders option \<Rightarrow> Tok list" where
  "sealed_outer_toks alg kid h =
     (let has_crit = (case h of Some h \<Rightarrow> \<not> headers_empty h | None \<Rightarrow> False);
          has_jwt = (case h of Some h \<Rightarrow> signer_certificates_jwt h \<noteq> [] | None \<Rightarrow> False);
          has_key = (case h of Some h \<Rightarrow> signer_public_key_cose h \<noteq> None | None \<Rightarrow> False);
          has_target = (case h of Some h \<Rightarrow> operation_target_key_id h \<noteq> None | None \<Rightarrow> False)
      in TMap (2 + one_if has_crit + one_if has_jwt + one_if has_key + one_if has_target)
         # TInt HDR_ALG # TInt (signature_codepoint alg)
         # (if has_crit then write_crit (protected_header_crit_labels h) else [])
         @ [TInt HDR_KID, TBytes kid]
         @ (case h of Some h \<Rightarrow> write_jwts (signer_certificates_jwt h) | None \<Rightarrow> [])
         @ opt_toks (Option.bind h signer_public_key_cose) SIGNER_PUBLIC_KEY_COSE (\<lambda>k. [TBytes k])
         @ opt_toks (Option.bind h operation_target_key_id) OPERATION_TARGET_KEY_ID (\<lambda>k. [TBytes k]))"

definition encode_sign1_protected_sealed_outer_with_headers ::
  "Minicbor \<Rightarrow> SignatureAlgorithm \<Rightarrow> KeyId \<Rightarrow> ProtectedHeaders option \<Rightarrow> CodecError + u8 list" where
  "encode_sign1_protected_sealed_outer_with_headers M alg kid h = Inr (encode_with M (sealed_outer_toks alg kid h))"

definition encode_sign1_protected_sealed_outer :: "Minicbor \<Rightarrow> SignatureAlgorithm \<Rightarrow> KeyId \<Rightarrow> CodecError + u8 list" where
  "encode_sign1_protected_sealed_outer M alg kid = encode_sign1_protected_sealed_outer_with_headers M alg kid None"

definition encode_encrypt_protected ::
  "Minicbor \<Rightarrow> CoseEnv \<Rightarrow> ContentAlgorithm \<Rightarrow> ContentType \<Rightarrow> Claims option \<Rightarrow> CodecError + u8 list" where
  "encode_encrypt_protected M env alg content_type claims =
     (if (case claims of Some c \<Rightarrow> \<not> response_key_binding_matches env c | None \<Rightarrow> False) then Inl CodecError
      else
        res_bind (write_claims_capable_tail content_type claims None None) (\<lambda>tl.
        Inr (encode_with M (TMap (1 + claims_capable_tail_len claims None)
          # TInt HDR_ALG # TInt (content_codepoint alg) # tl))))"

definition party_labels :: "KdfParties \<Rightarrow> int list" where
  "party_labels p = present (kdf_party_u p) HDR_PARTY_U_IDENTITY @ present (kdf_party_v p) HDR_PARTY_V_IDENTITY"

definition recipient_toks :: "KdfParties \<Rightarrow> Tok list" where
  "recipient_toks p =
     TMap (1 + one_if (party_labels p \<noteq> []) + length (party_labels p))
     # TInt HDR_ALG # TInt ECDH_ES_HKDF_256
     # (if party_labels p \<noteq> [] then write_crit (party_labels p) else [])
     @ opt_toks (kdf_party_u p) HDR_PARTY_U_IDENTITY (\<lambda>i. [TBytes i])
     @ opt_toks (kdf_party_v p) HDR_PARTY_V_IDENTITY (\<lambda>i. [TBytes i])"

definition encode_recipient_protected :: "Minicbor \<Rightarrow> KdfParties \<Rightarrow> CodecError + u8 list" where
  "encode_recipient_protected M p = Inr (encode_with M (recipient_toks p))"

definition assemble_sign1 :: "Minicbor \<Rightarrow> u8 list \<Rightarrow> u8 list \<Rightarrow> u8 list \<Rightarrow> u8 list" where
  "assemble_sign1 M protected payload signature =
     encode_with M [TTag TAG_SIGN1, TArr 4, TBytes protected, TMap 0, TBytes payload, TBytes signature]"

record EncryptAssembly =
  ea_protected :: "u8 list"
  ea_iv :: "u8 list"
  ea_ciphertext :: "u8 list"
  ea_recipient_protected :: "u8 list"
  ea_recipient_kid :: KeyId
  ea_ephemeral_x :: "u8 list"

definition assemble_encrypt :: "Minicbor \<Rightarrow> EncryptAssembly \<Rightarrow> u8 list" where
  "assemble_encrypt M a =
     encode_with M [TTag TAG_ENCRYPT, TArr 4, TBytes (ea_protected a),
       TMap 1, TInt HDR_IV, TBytes (ea_iv a), TBytes (ea_ciphertext a),
       TArr 1, TArr 3, TBytes (ea_recipient_protected a),
       TMap 2, TInt HDR_KID, TBytes (ea_recipient_kid a),
       TInt HDR_EPHEMERAL_KEY, TMap 3, TInt 1, TInt 1, TInt (- 1), TInt 4, TInt (- 2), TBytes (ea_ephemeral_x a),
       TNull]"

definition sig_structure :: "Minicbor \<Rightarrow> u8 list \<Rightarrow> u8 list \<Rightarrow> u8 list \<Rightarrow> u8 list" where
  "sig_structure M protected external_aad payload =
     encode_with M [TArr 4, TStr ''Signature1'', TBytes protected, TBytes external_aad, TBytes payload]"

definition enc_structure :: "Minicbor \<Rightarrow> u8 list \<Rightarrow> u8 list \<Rightarrow> u8 list" where
  "enc_structure M protected external_aad =
     encode_with M [TArr 3, TStr ''Encrypt'', TBytes protected, TBytes external_aad]"

definition party_toks :: "PartyIdentity \<Rightarrow> Tok list" where
  "party_toks i = [TArr 3, (case i of Some b \<Rightarrow> TBytes b | None \<Rightarrow> TNull), TNull, TNull]"

definition kdf_context :: "Minicbor \<Rightarrow> ContentAlgorithm \<Rightarrow> KdfParties \<Rightarrow> u8 list \<Rightarrow> u8 list" where
  "kdf_context M alg p recipient_protected =
     encode_with M ([TArr 4, TInt (content_codepoint alg)] @ party_toks (kdf_party_u p) @ party_toks (kdf_party_v p)
       @ [TArr 2, TU64 (8 * content_key_len alg), TBytes recipient_protected])"


section \<open>Reads\<close>

datatype ClaimsExpectation = ClaimsRequired | ClaimsForbidden | ClaimsOptional

datatype Sign1Layer = Bare | SealedOuter

record DecodedSign1 =
  ds_protected :: "u8 list"
  ds_algorithm :: SignatureAlgorithm
  ds_kid :: KeyId
  ds_content_type :: "ContentType option"
  ds_claims :: "Claims option"
  ds_protected_headers :: ProtectedHeaders
  ds_payload :: "u8 list"
  ds_signature :: "u8 list"

record DecodedEncrypt =
  de_protected :: "u8 list"
  de_content_algorithm :: ContentAlgorithm
  de_content_type :: ContentType
  de_claims :: "Claims option"
  de_iv :: "u8 list"
  de_ciphertext :: "u8 list"
  de_recipient_protected :: "u8 list"
  de_recipient_kid :: KeyId
  de_ephemeral_x :: "u8 list"
  de_parties :: KdfParties

definition dt :: "Minicbor \<Rightarrow> u8 list \<Rightarrow> DecodeError + CborType" where
  "dt M d = ok_or (mc_datatype M d) Malformed"

definition is_int :: "CborType \<Rightarrow> bool" where "is_int t \<longleftrightarrow> t = TyInt"

definition ident :: "ProfileError + 'a \<Rightarrow> DecodeError + 'a" where
  "ident r = res_map_err Identifier r"

definition read_label :: "Minicbor \<Rightarrow> u8 list \<Rightarrow> DecodeError + int \<times> u8 list" where
  "read_label M d =
     res_bind (dt M d) (\<lambda>t.
     if t = TyString \<or> t = TyStringIndef then Inl TextLabel
     else if \<not> is_int t then Inl Malformed
     else ok_or (mc_i64 M d) Malformed)"

definition read_bytes :: "Minicbor \<Rightarrow> u8 list \<Rightarrow> int \<Rightarrow> DecodeError + u8 list \<times> u8 list" where
  "read_bytes M d l =
     res_bind (dt M d) (\<lambda>t. if t \<noteq> TyBytes then Inl (WrongType l) else ok_or (mc_bytes M d) Malformed)"

definition read_str :: "Minicbor \<Rightarrow> u8 list \<Rightarrow> int \<Rightarrow> DecodeError + string \<times> u8 list" where
  "read_str M d l =
     res_bind (dt M d) (\<lambda>t. if t \<noteq> TyString then Inl (WrongType l) else ok_or (mc_str M d) Malformed)"

definition read_int :: "Minicbor \<Rightarrow> u8 list \<Rightarrow> int \<Rightarrow> DecodeError + int \<times> u8 list" where
  "read_int M d l =
     res_bind (dt M d) (\<lambda>t. if \<not> is_int t then Inl (WrongType l) else ok_or (mc_i64 M d) Malformed)"

definition read_time :: "Minicbor \<Rightarrow> u8 list \<Rightarrow> int \<Rightarrow> DecodeError + int \<times> u8 list" where
  "read_time M d l =
     res_bind (dt M d) (\<lambda>t.
     if t = TyF16 \<or> t = TyF32 \<or> t = TyF64 then Inl FractionalTime
     else if \<not> is_int t then Inl (WrongType l)
     else ok_or (mc_i64 M d) Malformed)"

definition definite :: "(nat option \<times> u8 list) option \<Rightarrow> DecodeError + nat \<times> u8 list" where
  "definite r =
     res_bind (ok_or r Malformed) (\<lambda>(n, d). res_bind (ok_or n IndefiniteLength) (\<lambda>n. Inr (n, d)))"

definition read_map_len :: "Minicbor \<Rightarrow> u8 list \<Rightarrow> DecodeError + nat \<times> u8 list" where
  "read_map_len M d = res_bind (dt M d) (\<lambda>t. if t \<noteq> TyMap then Inl Malformed else definite (mc_map M d))"

definition read_array_len :: "Minicbor \<Rightarrow> u8 list \<Rightarrow> DecodeError + nat \<times> u8 list" where
  "read_array_len M d = res_bind (dt M d) (\<lambda>t. if t \<noteq> TyArray then Inl Malformed else definite (mc_array M d))"

text \<open>A loop that reads \<open>n\<close> items.\<close>

fun read_n :: "(u8 list \<Rightarrow> DecodeError + 'a \<times> u8 list) \<Rightarrow> nat \<Rightarrow> u8 list \<Rightarrow> DecodeError + 'a list \<times> u8 list" where
  "read_n f 0 d = Inr ([], d)"
| "read_n f (Suc n) d =
     res_bind (f d) (\<lambda>(x, d). res_bind (read_n f n d) (\<lambda>(xs, d). Inr (x # xs, d)))"

definition read_string_array :: "Minicbor \<Rightarrow> u8 list \<Rightarrow> int \<Rightarrow> DecodeError + string list \<times> u8 list" where
  "read_string_array M d l =
     res_bind (read_array_len M d) (\<lambda>(n, d). read_n (\<lambda>d. read_str M d l) n d)"

definition check_order :: "int option \<Rightarrow> int \<Rightarrow> DecodeError + unit" where
  "check_order prev current =
     (case prev of
        None \<Rightarrow> Inr ()
      | Some p \<Rightarrow>
          if canonical_sort_key p < canonical_sort_key current then Inr ()
          else if canonical_sort_key p = canonical_sort_key current then Inl DuplicateLabel
          else Inl NonDeterministicEncoding)"

text \<open>The loop over the entries of a map: the label, its order, then what the map does with it.\<close>

fun map_entries ::
  "Minicbor \<Rightarrow> ('s \<Rightarrow> int \<Rightarrow> u8 list \<Rightarrow> DecodeError + 's \<times> u8 list) \<Rightarrow> nat \<Rightarrow> int option \<Rightarrow> 's \<Rightarrow> u8 list
    \<Rightarrow> DecodeError + 's \<times> u8 list" where
  "map_entries M f 0 prev s d = Inr (s, d)"
| "map_entries M f (Suc n) prev s d =
     res_bind (read_label M d) (\<lambda>(l, d).
     res_bind (check_order prev l) (\<lambda>_.
     res_bind (f s l d) (\<lambda>(s, d). map_entries M f n (Some l) s d)))"

section \<open>Claims\<close>

record ClaimsParts =
  p_issuer :: "Subject option"
  p_audience :: "Subject option"
  p_expires_at :: "UnixTime option"
  p_issued_at :: "UnixTime option"
  p_message_id :: "MessageId option"
  p_in_reply_to :: "MessageId option"
  p_request_hash :: "RequestHash option"
  p_sender_key_id :: "KeyId option"
  p_response_key_id :: "KeyId option"
  p_response_subject :: "ResponseSubject option"
  p_freshness_challenge :: "FreshnessChallenge option"
  p_response_public_key_cose :: "X25519ResponsePublicKey option"
  p_cwt_present :: bool
  p_basil_present :: bool

definition no_parts :: ClaimsParts where
  "no_parts = \<lparr>p_issuer = None, p_audience = None, p_expires_at = None, p_issued_at = None, p_message_id = None,
     p_in_reply_to = None, p_request_hash = None, p_sender_key_id = None, p_response_key_id = None,
     p_response_subject = None, p_freshness_challenge = None, p_response_public_key_cose = None,
     p_cwt_present = False, p_basil_present = False\<rparr>"

definition into_claims :: "CoseEnv \<Rightarrow> ClaimsParts \<Rightarrow> DecodeError + Claims option" where
  "into_claims env p =
     (if \<not> p_cwt_present p then
        if p_basil_present p then Inl (MissingHeader HDR_CWT_CLAIMS) else Inr None
      else
        res_bind (ok_or (p_issued_at p) (MissingClaim CWT_IAT)) (\<lambda>iat.
        res_bind (ok_or (p_message_id p) (MissingClaim CWT_CTI)) (\<lambda>cti.
        let c = \<lparr>cl_issuer = p_issuer p, cl_audience = p_audience p, cl_expires_at = p_expires_at p,
          cl_issued_at = iat, cl_message_id = cti, cl_sender_key_id = p_sender_key_id p,
          cl_response_key_id = p_response_key_id p, cl_response_subject = p_response_subject p,
          cl_in_reply_to = p_in_reply_to p, cl_request_hash = p_request_hash p,
          cl_freshness_challenge = p_freshness_challenge p,
          cl_response_public_key_cose = p_response_public_key_cose p\<rparr>
        in if \<not> response_key_binding_matches env c then Inl ResponseKeyIdMismatch else Inr (Some c))))"

definition cwt_entry :: "Minicbor \<Rightarrow> ClaimsParts \<Rightarrow> int \<Rightarrow> u8 list \<Rightarrow> DecodeError + ClaimsParts \<times> u8 list" where
  "cwt_entry M p l d =
     (if l = CWT_ISS then
        res_bind (read_str M d l) (\<lambda>(s, d). res_bind (ident (Subject_new s)) (\<lambda>v. Inr (p\<lparr>p_issuer := Some v\<rparr>, d)))
      else if l = CWT_AUD then
        res_bind (read_str M d l) (\<lambda>(s, d). res_bind (ident (Subject_new s)) (\<lambda>v. Inr (p\<lparr>p_audience := Some v\<rparr>, d)))
      else if l = CWT_EXP then
        res_bind (read_time M d l) (\<lambda>(t, d). Inr (p\<lparr>p_expires_at := Some t\<rparr>, d))
      else if l = CWT_IAT then
        res_bind (read_time M d l) (\<lambda>(t, d). Inr (p\<lparr>p_issued_at := Some t\<rparr>, d))
      else if l = CWT_CTI then
        res_bind (read_bytes M d l) (\<lambda>(b, d).
          res_bind (ident (MessageId_from_bytes b)) (\<lambda>v. Inr (p\<lparr>p_message_id := Some v\<rparr>, d)))
      else Inl (UnknownClaim l))"

definition parse_cwt_map :: "Minicbor \<Rightarrow> ClaimsParts \<Rightarrow> u8 list \<Rightarrow> DecodeError + ClaimsParts \<times> u8 list" where
  "parse_cwt_map M p d =
     res_bind (read_map_len M d) (\<lambda>(n, d).
     res_bind (map_entries M (cwt_entry M) n None p d) (\<lambda>(p, d).
     Inr (p\<lparr>p_cwt_present := True\<rparr>, d)))"

text \<open>\<open>None\<close> when the label is not one of the private claim labels.\<close>

definition parse_basil_label ::
  "Minicbor \<Rightarrow> CoseEnv \<Rightarrow> ClaimsParts \<Rightarrow> int \<Rightarrow> u8 list \<Rightarrow> DecodeError + (ClaimsParts \<times> u8 list) option" where
  "parse_basil_label M env p l d =
     (if l = IN_REPLY_TO then
        res_bind (read_bytes M d l) (\<lambda>(b, d).
        res_bind (ident (MessageId_from_bytes b)) (\<lambda>v.
        Inr (Some (p\<lparr>p_in_reply_to := Some v, p_basil_present := True\<rparr>, d))))
      else if l = REQUEST_HASH then
        res_bind (read_bytes M d l) (\<lambda>(b, d).
        if length b \<noteq> 32 then Inl (InvalidLength l 32 (length b))
        else Inr (Some (p\<lparr>p_request_hash := Some b, p_basil_present := True\<rparr>, d)))
      else if l = SENDER_KEY_ID then
        res_bind (read_bytes M d l) (\<lambda>(b, d).
        res_bind (ident (KeyId_from_bytes b)) (\<lambda>v.
        Inr (Some (p\<lparr>p_sender_key_id := Some v, p_basil_present := True\<rparr>, d))))
      else if l = RESPONSE_KEY_ID then
        res_bind (read_str M d l) (\<lambda>(s, d).
        res_bind (ident (KeyId_from_text s)) (\<lambda>v.
        Inr (Some (p\<lparr>p_response_key_id := Some v, p_basil_present := True\<rparr>, d))))
      else if l = RESPONSE_SUBJECT then
        res_bind (read_str M d l) (\<lambda>(s, d).
        res_bind (ident (ResponseSubject_new s)) (\<lambda>v.
        Inr (Some (p\<lparr>p_response_subject := Some v, p_basil_present := True\<rparr>, d))))
      else if l = FRESHNESS_CHALLENGE then
        res_bind (read_bytes M d l) (\<lambda>(b, d).
        res_bind (res_map_err (\<lambda>_. InvalidLength l 32 (length b)) (FreshnessChallenge_from_bytes b)) (\<lambda>v.
        Inr (Some (p\<lparr>p_freshness_challenge := Some v, p_basil_present := True\<rparr>, d))))
      else if l = RESPONSE_PUBLIC_KEY_COSE then
        res_bind (read_bytes M d l) (\<lambda>(b, d).
        res_bind (ident (from_cose_key_bytes env b)) (\<lambda>v.
        Inr (Some (p\<lparr>p_response_public_key_cose := Some v, p_basil_present := True\<rparr>, d))))
      else Inr None)"

definition parse_crit :: "Minicbor \<Rightarrow> u8 list \<Rightarrow> DecodeError + int list \<times> u8 list" where
  "parse_crit M d =
     res_bind (read_array_len M d) (\<lambda>(n, d).
     if n = 0 then Inl (WrongType HDR_CRIT) else read_n (read_label M) n d)"

definition check_crit :: "int list option \<Rightarrow> int list \<Rightarrow> DecodeError + unit" where
  "check_crit actual expected =
     (case actual of
        None \<Rightarrow> Inl CritMissing
      | Some act \<Rightarrow>
          if act = expected then Inr ()
          else case List.find (\<lambda>l. l \<notin> set expected) act of
            Some l \<Rightarrow> Inl (CritUnexpected l)
          | None \<Rightarrow>
              (case List.find (\<lambda>l. l \<notin> set act) expected of
                 Some l \<Rightarrow> Inl (CritIncomplete l)
               | None \<Rightarrow> Inl NonDeterministicEncoding))"

section \<open>Protected headers\<close>

record HeaderParts =
  hp_alg :: "int option"
  hp_crit :: "int list option"
  hp_content_type :: "ContentType option"
  hp_kid :: "KeyId option"
  hp_parts :: ClaimsParts
  hp_headers :: ProtectedHeaders

definition no_header_parts :: HeaderParts where
  "no_header_parts = \<lparr>hp_alg = None, hp_crit = None, hp_content_type = None, hp_kid = None, hp_parts = no_parts,
     hp_headers = no_headers\<rparr>"

definition proof_header_entry ::
  "Minicbor \<Rightarrow> ProtectedHeaders \<Rightarrow> int \<Rightarrow> u8 list \<Rightarrow> DecodeError + (ProtectedHeaders \<times> u8 list) option" where
  "proof_header_entry M h l d =
     (if l = SIGNER_CERTIFICATES_JWT then
        res_bind (read_string_array M d l) (\<lambda>(ss, d). Inr (Some (h\<lparr>signer_certificates_jwt := ss\<rparr>, d)))
      else if l = SIGNER_PUBLIC_KEY_COSE then
        res_bind (read_bytes M d l) (\<lambda>(b, d). Inr (Some (h\<lparr>signer_public_key_cose := Some b\<rparr>, d)))
      else if l = OPERATION_TARGET_KEY_ID then
        res_bind (read_bytes M d l) (\<lambda>(b, d).
          res_bind (ident (KeyId_from_bytes b)) (\<lambda>k. Inr (Some (h\<lparr>operation_target_key_id := Some k\<rparr>, d))))
      else Inr None)"

definition header_entry ::
  "Minicbor \<Rightarrow> CoseEnv \<Rightarrow> bool \<Rightarrow> HeaderParts \<Rightarrow> int \<Rightarrow> u8 list \<Rightarrow> DecodeError + HeaderParts \<times> u8 list" where
  "header_entry M env allow_kid s l d =
     (if l = HDR_ALG then res_bind (read_int M d l) (\<lambda>(a, d). Inr (s\<lparr>hp_alg := Some a\<rparr>, d))
      else if l = HDR_CRIT then res_bind (parse_crit M d) (\<lambda>(c, d). Inr (s\<lparr>hp_crit := Some c\<rparr>, d))
      else if l = HDR_CONTENT_TYPE then
        res_bind (read_str M d l) (\<lambda>(t, d).
          res_bind (ident (ContentType_new t)) (\<lambda>t. Inr (s\<lparr>hp_content_type := Some t\<rparr>, d)))
      else if l = HDR_KID \<and> allow_kid then
        res_bind (read_bytes M d l) (\<lambda>(b, d).
          res_bind (ident (KeyId_from_bytes b)) (\<lambda>k. Inr (s\<lparr>hp_kid := Some k\<rparr>, d)))
      else if l = HDR_CWT_CLAIMS then
        res_bind (parse_cwt_map M (hp_parts s) d) (\<lambda>(p, d). Inr (s\<lparr>hp_parts := p\<rparr>, d))
      else
        res_bind (if allow_kid then proof_header_entry M (hp_headers s) l d else Inr None) (\<lambda>r.
        case r of
          Some (h, d) \<Rightarrow> Inr (s\<lparr>hp_headers := h\<rparr>, d)
        | None \<Rightarrow>
            res_bind (parse_basil_label M env (hp_parts s) l d) (\<lambda>r.
            case r of Some (p, d) \<Rightarrow> Inr (s\<lparr>hp_parts := p\<rparr>, d) | None \<Rightarrow> Inl (UnknownLabel l))))"

record ClaimsCapableHeader =
  ch_alg :: int
  ch_crit :: "int list option"
  ch_content_type :: "ContentType option"
  ch_kid :: "KeyId option"
  ch_claims :: "Claims option"
  ch_headers :: ProtectedHeaders

definition parse_claims_capable_header ::
  "Minicbor \<Rightarrow> CoseEnv \<Rightarrow> u8 list \<Rightarrow> bool \<Rightarrow> DecodeError + ClaimsCapableHeader" where
  "parse_claims_capable_header M env bytes allow_kid =
     (if bytes = [] then Inl (MissingHeader HDR_ALG)
      else
        res_bind (scan bytes) (\<lambda>_.
        res_bind (read_map_len M bytes) (\<lambda>(n, d).
        res_bind (map_entries M (header_entry M env allow_kid) n None no_header_parts d) (\<lambda>(s, _).
        res_bind (ok_or (hp_alg s) (MissingHeader HDR_ALG)) (\<lambda>alg.
        res_bind (into_claims env (hp_parts s)) (\<lambda>claims.
        if allow_kid \<and> (case claims of Some c \<Rightarrow> cl_response_public_key_cose c \<noteq> None | None \<Rightarrow> False)
        then Inl (UnknownLabel RESPONSE_PUBLIC_KEY_COSE)
        else Inr \<lparr>ch_alg = alg, ch_crit = hp_crit s, ch_content_type = hp_content_type s, ch_kid = hp_kid s,
          ch_claims = claims, ch_headers = hp_headers s\<rparr>))))))"

definition finish_claims_capable :: "ClaimsCapableHeader \<Rightarrow> ClaimsExpectation \<Rightarrow> DecodeError + unit" where
  "finish_claims_capable h expectation =
     (if ch_content_type h = None then Inl (MissingHeader HDR_CONTENT_TYPE)
      else if expectation = ClaimsRequired \<and> ch_claims h = None then Inl (MissingHeader HDR_CWT_CLAIMS)
      else if expectation = ClaimsForbidden \<and> ch_claims h \<noteq> None then Inl (UnknownLabel HDR_CWT_CLAIMS)
      else check_crit (ch_crit h) (crit_labels (ch_claims h) (Some (ch_headers h))))"

definition unprotected_entry ::
  "('s \<Rightarrow> int \<Rightarrow> u8 list \<Rightarrow> DecodeError + ('s \<times> u8 list) option) \<Rightarrow> 's \<Rightarrow> int \<Rightarrow> u8 list \<Rightarrow> DecodeError + 's \<times> u8 list" where
  "unprotected_entry on_entry s l d =
     (if l \<in> set CLAIM_LABELS then Inl ClaimsInUnprotected
      else res_bind (on_entry s l d) (\<lambda>r. case r of Some x \<Rightarrow> Inr x | None \<Rightarrow> Inl (UnknownLabel l)))"

definition parse_unprotected ::
  "Minicbor \<Rightarrow> ('s \<Rightarrow> int \<Rightarrow> u8 list \<Rightarrow> DecodeError + ('s \<times> u8 list) option) \<Rightarrow> 's \<Rightarrow> u8 list
    \<Rightarrow> DecodeError + 's \<times> u8 list" where
  "parse_unprotected M on_entry s d =
     res_bind (read_map_len M d) (\<lambda>(n, d). map_entries M (unprotected_entry on_entry) n None s d)"

definition check_tag :: "Scan \<Rightarrow> nat \<Rightarrow> DecodeError + unit" where
  "check_tag sc expected =
     (case top_tag sc of
        None \<Rightarrow> Inl NotTagged
      | Some t \<Rightarrow> if t = expected then Inr () else Inl (WrongTag expected t))"

record OuterParts =
  op_alg :: "int option"
  op_kid :: "KeyId option"
  op_crit :: "int list option"
  op_headers :: ProtectedHeaders

definition outer_entry :: "Minicbor \<Rightarrow> OuterParts \<Rightarrow> int \<Rightarrow> u8 list \<Rightarrow> DecodeError + OuterParts \<times> u8 list" where
  "outer_entry M s l d =
     (if l = HDR_ALG then res_bind (read_int M d l) (\<lambda>(a, d). Inr (s\<lparr>op_alg := Some a\<rparr>, d))
      else if l = HDR_KID then
        res_bind (read_bytes M d l) (\<lambda>(b, d).
          res_bind (ident (KeyId_from_bytes b)) (\<lambda>k. Inr (s\<lparr>op_kid := Some k\<rparr>, d)))
      else if l = HDR_CRIT then res_bind (parse_crit M d) (\<lambda>(c, d). Inr (s\<lparr>op_crit := Some c\<rparr>, d))
      else
        res_bind (proof_header_entry M (op_headers s) l d) (\<lambda>r.
        case r of Some (h, d) \<Rightarrow> Inr (s\<lparr>op_headers := h\<rparr>, d) | None \<Rightarrow> Inl (UnknownLabel l)))"

definition parse_sealed_outer_protected ::
  "Minicbor \<Rightarrow> u8 list \<Rightarrow> DecodeError + SignatureAlgorithm \<times> KeyId \<times> ProtectedHeaders" where
  "parse_sealed_outer_protected M bytes =
     (if bytes = [] then Inl (MissingHeader HDR_ALG)
      else
        res_bind (scan bytes) (\<lambda>_.
        res_bind (read_map_len M bytes) (\<lambda>(n, d).
        res_bind (map_entries M (outer_entry M) n None
          \<lparr>op_alg = None, op_kid = None, op_crit = None, op_headers = no_headers\<rparr> d) (\<lambda>(s, _).
        res_bind (ok_or (op_alg s) (MissingHeader HDR_ALG)) (\<lambda>alg.
        res_bind (ok_or (signature_from_codepoint alg) (UnknownAlgorithm alg)) (\<lambda>algorithm.
        res_bind (ok_or (op_kid s) (MissingHeader HDR_KID)) (\<lambda>kid.
        res_bind
          (if headers_empty (op_headers s)
           then if op_crit s \<noteq> None then Inl (CritIncomplete HDR_CRIT) else Inr ()
           else check_crit (op_crit s) (protected_header_crit_labels (Some (op_headers s)))) (\<lambda>_.
        Inr (algorithm, kid, op_headers s)))))))))"

record RecipientParts =
  rp_alg :: "int option"
  rp_crit :: "int list option"
  rp_parties :: KdfParties

definition recipient_entry :: "Minicbor \<Rightarrow> RecipientParts \<Rightarrow> int \<Rightarrow> u8 list \<Rightarrow> DecodeError + RecipientParts \<times> u8 list" where
  "recipient_entry M s l d =
     (if l = HDR_ALG then res_bind (read_int M d l) (\<lambda>(a, d). Inr (s\<lparr>rp_alg := Some a\<rparr>, d))
      else if l = HDR_CRIT then res_bind (parse_crit M d) (\<lambda>(c, d). Inr (s\<lparr>rp_crit := Some c\<rparr>, d))
      else if l = HDR_PARTY_U_IDENTITY then
        res_bind (read_bytes M d l) (\<lambda>(b, d).
          res_bind (ident (PartyIdentity_from_bytes b)) (\<lambda>i. Inr (s\<lparr>rp_parties := (rp_parties s)\<lparr>kdf_party_u := i\<rparr>\<rparr>, d)))
      else if l = HDR_PARTY_V_IDENTITY then
        res_bind (read_bytes M d l) (\<lambda>(b, d).
          res_bind (ident (PartyIdentity_from_bytes b)) (\<lambda>i. Inr (s\<lparr>rp_parties := (rp_parties s)\<lparr>kdf_party_v := i\<rparr>\<rparr>, d)))
      else Inl (UnknownLabel l))"

definition parse_recipient_protected :: "Minicbor \<Rightarrow> u8 list \<Rightarrow> DecodeError + KdfParties" where
  "parse_recipient_protected M bytes =
     (if bytes = [] then Inl (MissingHeader HDR_ALG)
      else
        res_bind (scan bytes) (\<lambda>_.
        res_bind (read_map_len M bytes) (\<lambda>(n, d).
        res_bind (map_entries M (recipient_entry M) n None
          \<lparr>rp_alg = None, rp_crit = None, rp_parties = anonymous\<rparr> d) (\<lambda>(s, _).
        res_bind (ok_or (rp_alg s) (MissingHeader HDR_ALG)) (\<lambda>alg.
        if alg \<noteq> ECDH_ES_HKDF_256 then Inl (UnknownAlgorithm alg)
        else
          let expected = party_labels (rp_parties s) in
          res_bind
            (if expected = []
             then case rp_crit s of
               Some crit \<Rightarrow> Inl (CritUnexpected (case crit of l # _ \<Rightarrow> l | [] \<Rightarrow> HDR_CRIT))
             | None \<Rightarrow> Inr ()
             else check_crit (rp_crit s) expected) (\<lambda>_.
          Inr (rp_parties s)))))))"

record EphemeralParts =
  ep_x :: "(u8 list) option"
  ep_kty_ok :: bool
  ep_crv_ok :: bool

definition ephemeral_entry :: "Minicbor \<Rightarrow> EphemeralParts \<Rightarrow> int \<Rightarrow> u8 list \<Rightarrow> DecodeError + EphemeralParts \<times> u8 list" where
  "ephemeral_entry M s l d =
     (if l = 1 then res_bind (read_int M d l) (\<lambda>(a, d). Inr (s\<lparr>ep_kty_ok := (a = 1)\<rparr>, d))
      else if l = - 1 then res_bind (read_int M d l) (\<lambda>(a, d). Inr (s\<lparr>ep_crv_ok := (a = 4)\<rparr>, d))
      else if l = - 2 then
        res_bind (read_bytes M d l) (\<lambda>(b, d).
          if length b \<noteq> X25519_LEN then Inl EphemeralKeyShape else Inr (s\<lparr>ep_x := Some b\<rparr>, d))
      else Inl EphemeralKeyShape)"

definition parse_ephemeral_key :: "Minicbor \<Rightarrow> u8 list \<Rightarrow> DecodeError + u8 list \<times> u8 list" where
  "parse_ephemeral_key M d =
     res_bind (dt M d) (\<lambda>t.
     if t \<noteq> TyMap then Inl EphemeralKeyShape
     else
       res_bind (definite (mc_map M d)) (\<lambda>(n, d).
       if n \<noteq> 3 then Inl EphemeralKeyShape
       else
         res_bind (map_entries M (ephemeral_entry M) n None \<lparr>ep_x = None, ep_kty_ok = False, ep_crv_ok = False\<rparr> d) (\<lambda>(s, d).
         if \<not> ep_kty_ok s \<or> \<not> ep_crv_ok s then Inl EphemeralKeyShape
         else res_bind (ok_or (ep_x s) EphemeralKeyShape) (\<lambda>x. Inr (x, d)))))"

section \<open>Messages\<close>

text \<open>The payload or ciphertext slot.\<close>

definition read_content :: "Minicbor \<Rightarrow> u8 list \<Rightarrow> DecodeError + u8 list \<times> u8 list" where
  "read_content M d =
     res_bind (dt M d) (\<lambda>t.
     if t = TyBytes then ok_or (mc_bytes M d) Malformed
     else if t = TyNull then Inl MissingPayload
     else Inl Malformed)"

definition read_protected :: "Minicbor \<Rightarrow> u8 list \<Rightarrow> DecodeError + u8 list \<times> u8 list" where
  "read_protected M d =
     res_bind (dt M d) (\<lambda>t. if t \<noteq> TyBytes then Inl Malformed else ok_or (mc_bytes M d) Malformed)"

definition rebuilt :: "CodecError + 'a \<Rightarrow> DecodeError + 'a" where
  "rebuilt r = res_map_err (\<lambda>_. NonDeterministicEncoding) r"

text \<open>The protected header of a layer: its fields, and its re-encoding from them.\<close>

definition sign1_header ::
  "Minicbor \<Rightarrow> CoseEnv \<Rightarrow> Sign1Layer \<Rightarrow> u8 list \<Rightarrow> DecodeError
    + SignatureAlgorithm \<times> KeyId \<times> ContentType option \<times> Claims option \<times> ProtectedHeaders \<times> u8 list" where
  "sign1_header M env layer protected =
     (case layer of
        Bare \<Rightarrow>
          res_bind (parse_claims_capable_header M env protected True) (\<lambda>h.
          res_bind (ok_or (signature_from_codepoint (ch_alg h)) (UnknownAlgorithm (ch_alg h))) (\<lambda>alg.
          res_bind (finish_claims_capable h ClaimsOptional) (\<lambda>_.
          res_bind (ok_or (ch_kid h) (MissingHeader HDR_KID)) (\<lambda>kid.
          res_bind (ok_or (ch_content_type h) (MissingHeader HDR_CONTENT_TYPE)) (\<lambda>ct.
          res_bind (rebuilt (encode_sign1_protected_bare_with_headers M env alg kid ct (ch_claims h) (Some (ch_headers h)))) (\<lambda>r.
          Inr (alg, kid, Some ct, ch_claims h, ch_headers h, r)))))))
      | SealedOuter \<Rightarrow>
          res_bind (parse_sealed_outer_protected M protected) (\<lambda>(alg, kid, headers).
          res_bind (rebuilt (encode_sign1_protected_sealed_outer_with_headers M alg kid (Some headers))) (\<lambda>r.
          Inr (alg, kid, None, None, headers, r))))"

definition decode_sign1_strict :: "Minicbor \<Rightarrow> CoseEnv \<Rightarrow> u8 list \<Rightarrow> Sign1Layer \<Rightarrow> DecodeError + DecodedSign1" where
  "decode_sign1_strict M env bytes layer =
     res_bind (scan bytes) (\<lambda>sc.
     res_bind (check_tag sc TAG_SIGN1) (\<lambda>_.
     res_bind (ok_or (mc_tag M bytes) Malformed) (\<lambda>(_, d).
     res_bind (read_array_len M d) (\<lambda>(n, d).
     if n \<noteq> 4 then Inl Malformed
     else
       res_bind (read_protected M d) (\<lambda>(protected, d).
       res_bind (parse_unprotected M (\<lambda>s l d. Inr None) () d) (\<lambda>(_, d).
       res_bind (read_content M d) (\<lambda>(payload, d).
       res_bind (res_map_err (\<lambda>_. Malformed) (read_bytes M d 0)) (\<lambda>(signature, d).
       if signature = [] then Inl Malformed
       else
         res_bind (sign1_header M env layer protected) (\<lambda>(alg, kid, ct, claims, headers, rebuilt_protected).
         if assemble_sign1 M rebuilt_protected payload signature \<noteq> bytes then Inl NonDeterministicEncoding
         else Inr \<lparr>ds_protected = protected, ds_algorithm = alg, ds_kid = kid, ds_content_type = ct,
           ds_claims = claims, ds_protected_headers = headers, ds_payload = payload, ds_signature = signature\<rparr>)))))))))"

definition iv_entry :: "Minicbor \<Rightarrow> (u8 list) option \<Rightarrow> int \<Rightarrow> u8 list \<Rightarrow> DecodeError + ((u8 list) option \<times> u8 list) option" where
  "iv_entry M s l d =
     (if l \<noteq> HDR_IV then Inr None
      else
        res_bind (read_bytes M d l) (\<lambda>(b, d).
        if length b \<noteq> NONCE_LEN then Inl (InvalidLength l NONCE_LEN (length b)) else Inr (Some (Some b, d))))"

definition recipient_unprotected_entry ::
  "Minicbor \<Rightarrow> KeyId option \<times> (u8 list) option \<Rightarrow> int \<Rightarrow> u8 list
    \<Rightarrow> DecodeError + ((KeyId option \<times> (u8 list) option) \<times> u8 list) option" where
  "recipient_unprotected_entry M s l d =
     (if l = HDR_KID then
        res_bind (read_bytes M d l) (\<lambda>(b, d).
          res_bind (ident (KeyId_from_bytes b)) (\<lambda>k. Inr (Some ((Some k, snd s), d))))
      else if l = HDR_EPHEMERAL_KEY then
        res_bind (parse_ephemeral_key M d) (\<lambda>(x, d). Inr (Some ((fst s, Some x), d)))
      else Inr None)"

text \<open>The recipients array: one recipient of three parts, the last of them nil.\<close>

definition read_recipient :: "Minicbor \<Rightarrow> u8 list \<Rightarrow> DecodeError + (u8 list \<times> KeyId \<times> u8 list) \<times> u8 list" where
  "read_recipient M d =
     res_bind (read_array_len M d) (\<lambda>(count, d).
     if count \<noteq> 1 then Inl (RecipientCount count)
     else
       res_bind (read_array_len M d) (\<lambda>(len, d).
       if len = 4 then Inl NestedRecipients
       else if len \<noteq> 3 then Inl Malformed
       else
         res_bind (read_protected M d) (\<lambda>(rp, d).
         res_bind (parse_unprotected M (recipient_unprotected_entry M) (None, None) d) (\<lambda>((kid, x), d).
         res_bind (ok_or kid (MissingHeader HDR_KID)) (\<lambda>kid.
         res_bind (ok_or x (MissingHeader HDR_EPHEMERAL_KEY)) (\<lambda>x.
         res_bind (dt M d) (\<lambda>t.
         if t = TyNull then res_bind (ok_or (mc_null M d) Malformed) (\<lambda>d. Inr ((rp, kid, x), d))
         else Inl RecipientCiphertextPresent)))))))"

definition decode_encrypt_strict ::
  "Minicbor \<Rightarrow> CoseEnv \<Rightarrow> u8 list \<Rightarrow> ClaimsExpectation \<Rightarrow> DecodeError + DecodedEncrypt" where
  "decode_encrypt_strict M env bytes expectation =
     res_bind (scan bytes) (\<lambda>sc.
     res_bind (check_tag sc TAG_ENCRYPT) (\<lambda>_.
     res_bind (ok_or (mc_tag M bytes) Malformed) (\<lambda>(_, d).
     res_bind (read_array_len M d) (\<lambda>(n, d).
     if n \<noteq> 4 then Inl Malformed
     else
       res_bind (read_protected M d) (\<lambda>(protected, d).
       res_bind (parse_unprotected M (iv_entry M) None d) (\<lambda>(iv, d).
       res_bind (ok_or iv (MissingHeader HDR_IV)) (\<lambda>iv.
       res_bind (read_content M d) (\<lambda>(ciphertext, d).
       res_bind (read_recipient M d) (\<lambda>((rp, kid, x), d).
       res_bind (parse_claims_capable_header M env protected False) (\<lambda>h.
       res_bind (ok_or (content_from_codepoint (ch_alg h)) (UnknownAlgorithm (ch_alg h))) (\<lambda>alg.
       res_bind (finish_claims_capable h expectation) (\<lambda>_.
       res_bind (ok_or (ch_content_type h) (MissingHeader HDR_CONTENT_TYPE)) (\<lambda>ct.
       res_bind (parse_recipient_protected M rp) (\<lambda>parties.
       res_bind (rebuilt (encode_encrypt_protected M env alg ct (ch_claims h))) (\<lambda>rebuilt_protected.
       res_bind (rebuilt (encode_recipient_protected M parties)) (\<lambda>rebuilt_rp.
       if assemble_encrypt M \<lparr>ea_protected = rebuilt_protected, ea_iv = iv, ea_ciphertext = ciphertext,
            ea_recipient_protected = rebuilt_rp, ea_recipient_kid = kid, ea_ephemeral_x = x\<rparr> \<noteq> bytes
       then Inl NonDeterministicEncoding
       else Inr \<lparr>de_protected = protected, de_content_algorithm = alg, de_content_type = ct, de_claims = ch_claims h,
         de_iv = iv, de_ciphertext = ciphertext, de_recipient_protected = rp, de_recipient_kid = kid,
         de_ephemeral_x = x, de_parties = parties\<rparr>))))))))))))))))"


section \<open>What the library promises\<close>

fun tok_ok :: "Tok \<Rightarrow> bool" where
  "tok_ok (TInt x) = is_i64 x"
| "tok_ok (TU64 n) = (n < 2 ^ 64)"
| "tok_ok (TBytes b) = (length b < 2 ^ 64)"
| "tok_ok (TStr s) = (length s < 2 ^ 64 \<and> utf8_valid (bytes_of s))"
| "tok_ok (TArr n) = (n < 2 ^ 64)"
| "tok_ok (TMap n) = (n < 2 ^ 64)"
| "tok_ok (TTag n) = (n < 2 ^ 64)"
| "tok_ok TNull = True"

fun rfc_token :: "Tok \<Rightarrow> u8 list" where
  "rfc_token (TInt x) = int_bytes x"
| "rfc_token (TU64 n) = cbor_head 0 n"
| "rfc_token (TBytes b) = cbor_head 2 (length b) @ b"
| "rfc_token (TStr s) = cbor_head 3 (length s) @ bytes_of s"
| "rfc_token (TArr n) = cbor_head 4 n"
| "rfc_token (TMap n) = cbor_head 5 n"
| "rfc_token (TTag n) = cbor_head 6 n"
| "rfc_token TNull = [0xf6]"

text \<open>Reading token \<open>t\<close> off the unread bytes \<open>x\<close> leaves \<open>r\<close>.\<close>

fun reads_as :: "Minicbor \<Rightarrow> Tok \<Rightarrow> u8 list \<Rightarrow> u8 list \<Rightarrow> bool" where
  "reads_as M (TInt v) x r \<longleftrightarrow> mc_datatype M x = Some TyInt \<and> mc_i64 M x = Some (v, r)"
| "reads_as M (TU64 n) x r \<longleftrightarrow> mc_datatype M x = Some TyInt"
| "reads_as M (TBytes b) x r \<longleftrightarrow> mc_datatype M x = Some TyBytes \<and> mc_bytes M x = Some (b, r)"
| "reads_as M (TStr s) x r \<longleftrightarrow> mc_datatype M x = Some TyString \<and> mc_str M x = Some (s, r)"
| "reads_as M (TArr n) x r \<longleftrightarrow> mc_datatype M x = Some TyArray \<and> mc_array M x = Some (Some n, r)"
| "reads_as M (TMap n) x r \<longleftrightarrow> mc_datatype M x = Some TyMap \<and> mc_map M x = Some (Some n, r)"
| "reads_as M (TTag n) x r \<longleftrightarrow> mc_datatype M x = Some TyTag \<and> mc_tag M x = Some (n, r)"
| "reads_as M TNull x r \<longleftrightarrow> mc_datatype M x = Some TyNull \<and> mc_null M x = Some r"

definition minicbor_ok :: "Minicbor \<Rightarrow> bool" where
  "minicbor_ok M \<longleftrightarrow>
     (\<forall>t. tok_ok t \<longrightarrow> mc_enc M t = rfc_token t \<and> (\<forall>r. reads_as M t (mc_enc M t @ r) r)) \<and>
     (\<forall>b. length b \<le> length (mc_enc M (TBytes b)))"

lemma encode_with_simps [simp]:
  "encode_with M [] = []"
  "encode_with M (t # ts) = mc_enc M t @ encode_with M ts"
  "encode_with M (ts @ us) = encode_with M ts @ encode_with M us"
  by (simp_all add: encode_with_def)

lemma minicbor_back: "minicbor_ok M \<Longrightarrow> tok_ok t \<Longrightarrow> reads_as M t (mc_enc M t @ r) r"
  unfolding minicbor_ok_def by blast

lemma minicbor_enc: "minicbor_ok M \<Longrightarrow> tok_ok t \<Longrightarrow> mc_enc M t = rfc_token t"
  by (simp add: minicbor_ok_def)

lemma read_label_tok [simp]: "minicbor_ok M \<Longrightarrow> is_i64 x \<Longrightarrow> read_label M (mc_enc M (TInt x) @ r) = Inr (x, r)"
  using minicbor_back [of M "TInt x" r] by (simp add: read_label_def dt_def ok_or_def is_int_def)

lemma read_int_tok [simp]: "minicbor_ok M \<Longrightarrow> is_i64 x \<Longrightarrow> read_int M (mc_enc M (TInt x) @ r) l = Inr (x, r)"
  using minicbor_back [of M "TInt x" r] by (simp add: read_int_def dt_def ok_or_def is_int_def)

lemma read_time_tok [simp]: "minicbor_ok M \<Longrightarrow> is_i64 x \<Longrightarrow> read_time M (mc_enc M (TInt x) @ r) l = Inr (x, r)"
  using minicbor_back [of M "TInt x" r] by (simp add: read_time_def dt_def ok_or_def is_int_def)

lemma read_bytes_tok [simp]:
  "minicbor_ok M \<Longrightarrow> length b < 2 ^ 64 \<Longrightarrow> read_bytes M (mc_enc M (TBytes b) @ r) l = Inr (b, r)"
  "minicbor_ok M \<Longrightarrow> length b < 2 ^ 64 \<Longrightarrow> read_protected M (mc_enc M (TBytes b) @ r) = Inr (b, r)"
  "minicbor_ok M \<Longrightarrow> length b < 2 ^ 64 \<Longrightarrow> read_content M (mc_enc M (TBytes b) @ r) = Inr (b, r)"
  using minicbor_back [of M "TBytes b" r]
  by (simp_all add: read_bytes_def read_protected_def read_content_def dt_def ok_or_def)

lemma read_str_tok [simp]:
  "minicbor_ok M \<Longrightarrow> tok_ok (TStr s) \<Longrightarrow> read_str M (mc_enc M (TStr s) @ r) l = Inr (s, r)"
  using minicbor_back [of M "TStr s" r] by (simp add: read_str_def dt_def ok_or_def)

lemma read_len_tok [simp]:
  "minicbor_ok M \<Longrightarrow> n < 2 ^ 64 \<Longrightarrow> read_array_len M (mc_enc M (TArr n) @ r) = Inr (n, r)"
  "minicbor_ok M \<Longrightarrow> n < 2 ^ 64 \<Longrightarrow> read_map_len M (mc_enc M (TMap n) @ r) = Inr (n, r)"
  using minicbor_back [of M "TArr n" r] minicbor_back [of M "TMap n" r]
  by (simp_all add: read_array_len_def read_map_len_def dt_def ok_or_def definite_def)

lemma mc_tag_tok [simp]: "minicbor_ok M \<Longrightarrow> n < 2 ^ 64 \<Longrightarrow> mc_tag M (mc_enc M (TTag n) @ r) = Some (n, r)"
  using minicbor_back [of M "TTag n" r] by simp

lemma mc_null_tok [simp]:
  "minicbor_ok M \<Longrightarrow> mc_null M (mc_enc M TNull @ r) = Some r" "minicbor_ok M \<Longrightarrow> dt M (mc_enc M TNull @ r) = Inr TyNull"
  using minicbor_back [of M TNull r] by (simp_all add: dt_def ok_or_def)

text \<open>A byte string starts with at most one list of tokens of a given length.\<close>

fun plain :: "Tok \<Rightarrow> bool" where
  "plain (TU64 n) = False"
| "plain _ = True"

lemma reads_as_unique: "reads_as M t x r \<Longrightarrow> reads_as M u x s \<Longrightarrow> plain t \<Longrightarrow> plain u \<Longrightarrow> t = u \<and> r = s"
  by (cases t; cases u; simp)

lemma toks_unique:
  assumes "minicbor_ok M" and "length ts = length us"
    and "encode_with M ts @ r = encode_with M us @ s" and "list_all (\<lambda>t. tok_ok t \<and> plain t) ts"
    and "list_all (\<lambda>t. tok_ok t \<and> plain t) us"
  shows "ts = us \<and> r = s"
  using assms(2-)
proof (induction ts us arbitrary: r s rule: list_induct2)
  case (Cons t ts u us)
  have e: "mc_enc M t @ encode_with M ts @ r = mc_enc M u @ encode_with M us @ s"
    using Cons.prems(1) by simp
  have "reads_as M t (mc_enc M t @ encode_with M ts @ r) (encode_with M ts @ r)"
    "reads_as M u (mc_enc M u @ encode_with M us @ s) (encode_with M us @ s)"
    using minicbor_back [OF assms(1)] Cons.prems(2,3) by auto
  then have "t = u \<and> encode_with M ts @ r = encode_with M us @ s"
    using reads_as_unique Cons.prems unfolding e by fastforce
  then show ?case using Cons.IH [of r s] Cons.prems(2,3) by auto
qed simp

lemma toks_inj:
  assumes "minicbor_ok M" and "encode_with M ts = encode_with M us" and "length ts = length us"
    and "list_all (\<lambda>t. tok_ok t \<and> plain t) ts" and "list_all (\<lambda>t. tok_ok t \<and> plain t) us"
  shows "ts = us"
  using toks_unique [OF assms(1,3) _ assms(4,5), of "[]" "[]"] by (simp only: assms(2) append_Nil2)

section \<open>Strict decoding is canonical\<close>

lemma enc_bytes_length: "minicbor_ok M \<Longrightarrow> length (mc_enc M (TBytes b)) \<le> usize_max \<Longrightarrow> length b < 2 ^ 64"
  by (auto simp: minicbor_ok_def usize_max_def dest: order_trans [of "length b"] spec [of _ b])

lemma parse_no_unprotected:
  assumes "minicbor_ok M"
  shows "parse_unprotected M f s (mc_enc M (TMap 0) @ r) = Inr (s, r)"
  using assms by (simp add: parse_unprotected_def)

lemma assemble_sign1_parts:
  assumes "minicbor_ok M" and "assemble_sign1 M rp payload sig = bytes" and "length bytes \<le> usize_max"
  shows "length rp < 2 ^ 64 \<and> length payload < 2 ^ 64 \<and> length sig < 2 ^ 64"
proof -
  have "length (mc_enc M (TBytes rp)) + length (mc_enc M (TBytes payload)) + length (mc_enc M (TBytes sig)) \<le> usize_max"
    using assms(2,3) by (auto simp: assemble_sign1_def)
  then show ?thesis
    using enc_bytes_length [OF assms(1), of rp] enc_bytes_length [OF assms(1), of payload]
      enc_bytes_length [OF assms(1), of sig] by linarith
qed

lemma assemble_sign1_inj:
  assumes "minicbor_ok M" and "assemble_sign1 M a p s = assemble_sign1 M a' p' s'"
    and "length a < 2 ^ 64" "length a' < 2 ^ 64" "length p < 2 ^ 64" "length p' < 2 ^ 64" "length s < 2 ^ 64" "length s' < 2 ^ 64"
  shows "a = a' \<and> p = p' \<and> s = s'"
proof -
  have "[TTag TAG_SIGN1, TArr 4, TBytes a, TMap 0, TBytes p, TBytes s] =
      [TTag TAG_SIGN1, TArr 4, TBytes a', TMap 0, TBytes p', TBytes s']"
    using assms(3-) by (intro toks_inj [OF assms(1) assms(2) [unfolded assemble_sign1_def]]) (simp_all add: TAG_SIGN1_def)
  then show ?thesis by simp
qed

text \<open>Decoding starts from the parts the message was assembled of.\<close>

lemma decode_assembled:
  assumes "minicbor_ok M" and "length rp < 2 ^ 64" "length payload < 2 ^ 64" "length sig < 2 ^ 64"
    and "scan (assemble_sign1 M rp payload sig) = Inr sc"
  shows "decode_sign1_strict M env (assemble_sign1 M rp payload sig) layer =
    res_bind (check_tag sc TAG_SIGN1) (\<lambda>_.
      if sig = [] then Inl Malformed
      else res_bind (sign1_header M env layer rp) (\<lambda>(alg, kid, ct, claims, headers, rp').
        if assemble_sign1 M rp' payload sig \<noteq> assemble_sign1 M rp payload sig then Inl NonDeterministicEncoding
        else Inr \<lparr>ds_protected = rp, ds_algorithm = alg, ds_kid = kid, ds_content_type = ct,
           ds_claims = claims, ds_protected_headers = headers, ds_payload = payload, ds_signature = sig\<rparr>))"
proof -
  let ?bytes = "assemble_sign1 M rp payload sig"
  have b: "?bytes = mc_enc M (TTag TAG_SIGN1) @ mc_enc M (TArr 4) @ mc_enc M (TBytes rp) @ mc_enc M (TMap 0)
      @ mc_enc M (TBytes payload) @ mc_enc M (TBytes sig) @ []"
    by (simp add: assemble_sign1_def)
  have t: "mc_tag M ?bytes = Some (TAG_SIGN1, mc_enc M (TArr 4) @ mc_enc M (TBytes rp) @ mc_enc M (TMap 0)
      @ mc_enc M (TBytes payload) @ mc_enc M (TBytes sig) @ [])"
    unfolding b by (rule mc_tag_tok [OF assms(1)]) (simp add: TAG_SIGN1_def)
  have sg: "read_bytes M (mc_enc M (TBytes sig)) 0 = Inr (sig, [])"
    using read_bytes_tok(1) [OF assms(1,4), of "[]" 0] by simp
  show ?thesis
    unfolding decode_sign1_strict_def assms(5) t
    using assms(1-4) sg by (simp add: ok_or_def parse_no_unprotected res_map_err_def)
qed

lemma sign1_canonical:
  assumes "minicbor_ok M" and "length bytes \<le> usize_max" and "decode_sign1_strict M env bytes layer = Inr ds"
  shows "bytes = assemble_sign1 M (ds_protected ds) (ds_payload ds) (ds_signature ds) \<and>
    sign1_header M env layer (ds_protected ds) = Inr (ds_algorithm ds, ds_kid ds, ds_content_type ds, ds_claims ds,
      ds_protected_headers ds, ds_protected ds) \<and>
    length (ds_protected ds) < 2 ^ 64 \<and> length (ds_payload ds) < 2 ^ 64 \<and> length (ds_signature ds) < 2 ^ 64"
proof -
  obtain sc rp payload sig where sc: "scan bytes = Inr sc" and b: "assemble_sign1 M rp payload sig = bytes"
    using assms(3) by (auto simp: decode_sign1_strict_def split: if_splits prod.splits)
  note l = assemble_sign1_parts [OF assms(1) b assms(2)]
  note d = decode_assembled [OF assms(1), of rp payload sig sc env layer, unfolded b,
      OF l [THEN conjunct1] l [THEN conjunct2, THEN conjunct1] l [THEN conjunct2, THEN conjunct2] sc]
  obtain rp' where h: "sign1_header M env layer rp = Inr (ds_algorithm ds, ds_kid ds, ds_content_type ds, ds_claims ds,
      ds_protected_headers ds, rp')" "assemble_sign1 M rp' payload sig = bytes"
      "ds_protected ds = rp" "ds_payload ds = payload" "ds_signature ds = sig"
    using assms(3) [unfolded d] by (auto split: if_splits)
  have "rp' = rp"
    using assemble_sign1_inj [OF assms(1) b [folded h(2)]] l assemble_sign1_parts [OF assms(1) h(2) assms(2)] by blast
  then show ?thesis using h l b by simp
qed


section \<open>What is signed\<close>

lemma sig_structure_inj:
  assumes "minicbor_ok M" and "sig_structure M a e p = sig_structure M a' e' p'"
    and "length a < 2 ^ 64" "length a' < 2 ^ 64" "length e < 2 ^ 64" "length e' < 2 ^ 64" "length p < 2 ^ 64" "length p' < 2 ^ 64"
  shows "a = a' \<and> e = e' \<and> p = p'"
proof -
  have u: "utf8_valid (bytes_of ''Signature1'')" by code_simp
  have "[TArr 4, TStr ''Signature1'', TBytes a, TBytes e, TBytes p] =
      [TArr 4, TStr ''Signature1'', TBytes a', TBytes e', TBytes p']"
    using assms(3-) u by (intro toks_inj [OF assms(1) assms(2) [unfolded sig_structure_def]]) simp_all
  then show ?thesis by simp
qed

lemma rebuilt_Inr [simp]: "rebuilt r = Inr x \<longleftrightarrow> r = Inr x"
  by (simp add: rebuilt_def)

lemma sign1_header_fields:
  assumes "sign1_header M env layer p = Inr (alg, kid, ct, claims, h, r)"
  shows "(case layer of
      Bare \<Rightarrow> \<exists>t. ct = Some t \<and> encode_sign1_protected_bare_with_headers M env alg kid t claims (Some h) = Inr r
    | SealedOuter \<Rightarrow> ct = None \<and> claims = None \<and> encode_sign1_protected_sealed_outer_with_headers M alg kid (Some h) = Inr r)"
  using assms by (cases layer) (auto simp: sign1_header_def)

text \<open>
  C10: Of two signed messages the strict decoder accepts on the same layer, the bytes are equal
  exactly when what was decoded is equal, so no accepted message has a second encoding. What is
  signed is equal exactly when the external data and everything decoded except the signature
  itself (algorithm, key, content type, claims, proof headers, payload) are equal, so a signature
  covers every field the caller acts on and nothing else.
\<close>

theorem signed_content_exact:
  assumes "minicbor_ok M" and "length b \<le> usize_max" and "length b' \<le> usize_max"
    and "decode_sign1_strict M env b layer = Inr m" and "decode_sign1_strict M env b' layer = Inr m'"
    and "length aad < 2 ^ 64" and "length aad' < 2 ^ 64"
  shows "(b = b' \<longleftrightarrow> m = m') \<and>
    (sig_structure M (ds_protected m) aad (ds_payload m) = sig_structure M (ds_protected m') aad' (ds_payload m') \<longleftrightarrow>
      aad = aad' \<and> ds_algorithm m = ds_algorithm m' \<and> ds_kid m = ds_kid m' \<and> ds_content_type m = ds_content_type m' \<and>
      ds_claims m = ds_claims m' \<and> ds_protected_headers m = ds_protected_headers m' \<and> ds_payload m = ds_payload m')"
proof -
  note c = sign1_canonical [OF assms(1,2,4)]
  note c' = sign1_canonical [OF assms(1,3,5)]
  note h = c [THEN conjunct2, THEN conjunct1] and h' = c' [THEN conjunct2, THEN conjunct1]
  have det: "ds_protected m = ds_protected m' \<longleftrightarrow>
      ds_algorithm m = ds_algorithm m' \<and> ds_kid m = ds_kid m' \<and> ds_content_type m = ds_content_type m' \<and>
      ds_claims m = ds_claims m' \<and> ds_protected_headers m = ds_protected_headers m'"
  proof
    assume "ds_protected m = ds_protected m'"
    then show "ds_algorithm m = ds_algorithm m' \<and> ds_kid m = ds_kid m' \<and> ds_content_type m = ds_content_type m' \<and>
      ds_claims m = ds_claims m' \<and> ds_protected_headers m = ds_protected_headers m'"
      using h h' by simp
  next
    assume f: "ds_algorithm m = ds_algorithm m' \<and> ds_kid m = ds_kid m' \<and> ds_content_type m = ds_content_type m' \<and>
      ds_claims m = ds_claims m' \<and> ds_protected_headers m = ds_protected_headers m'"
    then show "ds_protected m = ds_protected m'"
      using sign1_header_fields [OF h] sign1_header_fields [OF h'] by (cases layer) auto
  qed
  have "b = b' \<longleftrightarrow> m = m'"
    using assms(4,5) c [THEN conjunct1] c' [THEN conjunct1] by (metis sum.inject(2))
  moreover have "sig_structure M (ds_protected m) aad (ds_payload m) = sig_structure M (ds_protected m') aad' (ds_payload m') \<longleftrightarrow>
      ds_protected m = ds_protected m' \<and> aad = aad' \<and> ds_payload m = ds_payload m'"
    using sig_structure_inj [OF assms(1), of "ds_protected m" aad "ds_payload m" "ds_protected m'" aad' "ds_payload m'"]
      c c' assms(6,7) by (intro iffI, blast, elim conjE, simp only:)
  ultimately show ?thesis using det by auto
qed

section \<open>Encrypted messages\<close>

definition assembly_ok :: "EncryptAssembly \<Rightarrow> bool" where
  "assembly_ok a \<longleftrightarrow> length (ea_protected a) < 2 ^ 64 \<and> length (ea_iv a) = NONCE_LEN \<and> length (ea_ciphertext a) < 2 ^ 64 \<and>
     length (ea_recipient_protected a) < 2 ^ 64 \<and> ea_recipient_kid a \<noteq> [] \<and> length (ea_recipient_kid a) \<le> 128 \<and>
     length (ea_ephemeral_x a) = X25519_LEN"

lemma small_i64 [simp]: "is_i64 (numeral n) \<longleftrightarrow> numeral n \<le> i64_max" "is_i64 1" "is_i64 0"
  "is_i64 (- numeral n) \<longleftrightarrow> i64_min \<le> - numeral n" "is_i64 (- 1)"
  by (simp_all add: is_i64_def i64_min_def i64_max_def)

lemma labels_i64 [simp]:
  "is_i64 IN_REPLY_TO" "is_i64 REQUEST_HASH" "is_i64 SENDER_KEY_ID" "is_i64 RESPONSE_KEY_ID" "is_i64 RESPONSE_SUBJECT"
  "is_i64 SIGNER_CERTIFICATES_JWT" "is_i64 SIGNER_PUBLIC_KEY_COSE" "is_i64 FRESHNESS_CHALLENGE"
  "is_i64 RESPONSE_PUBLIC_KEY_COSE" "is_i64 OPERATION_TARGET_KEY_ID" "is_i64 HDR_ALG" "is_i64 HDR_CRIT"
  "is_i64 HDR_CONTENT_TYPE" "is_i64 HDR_KID" "is_i64 HDR_IV" "is_i64 HDR_CWT_CLAIMS" "is_i64 HDR_EPHEMERAL_KEY"
  "is_i64 HDR_PARTY_U_IDENTITY" "is_i64 HDR_PARTY_V_IDENTITY" "is_i64 CWT_ISS" "is_i64 CWT_AUD" "is_i64 CWT_EXP"
  "is_i64 CWT_IAT" "is_i64 CWT_CTI"
  by (simp_all add: label_defs is_i64_def i64_min_def i64_max_def)


lemma map_entries_inv:
  assumes "map_entries M f n prev s d = Inr (s', d')" and "I s"
    and "\<And>s l d s' d'. I s \<Longrightarrow> f s l d = Inr (s', d') \<Longrightarrow> I s'"
  shows "I s'"
  using assms
proof (induction M f n prev s d rule: map_entries.induct)
  case (2 M f n prev s d)
  then obtain l d1 s1 d2 where "f s l d1 = Inr (s1, d2)" "map_entries M f n (Some l) s1 d2 = Inr (s', d')"
    by auto
  then show ?case using "2.IH" "2.prems" by blast
qed simp

lemma map_entries_Suc:
  assumes "minicbor_ok M" and "is_i64 l" and "check_order prev l = Inr ()" and "f s l d = Inr (s', d')"
  shows "map_entries M f (Suc n) prev s (mc_enc M (TInt l) @ d) = map_entries M f n (Some l) s' d'"
  using assms by simp

lemma iv_length:
  assumes "parse_unprotected M (iv_entry M) None d = Inr (Some iv, d')"
  shows "length iv = NONCE_LEN"
proof -
  obtain n d1 where "map_entries M (unprotected_entry (iv_entry M)) n None None d1 = Inr (Some iv, d')"
    using assms by (auto simp: parse_unprotected_def)
  then have "\<forall>b. Some iv = Some b \<longrightarrow> length b = NONCE_LEN"
    by (rule map_entries_inv)
      (auto simp: unprotected_entry_def iv_entry_def split: if_splits option.splits prod.splits)
  then show ?thesis by simp
qed

lemma ephemeral_length:
  assumes "parse_ephemeral_key M d = Inr (x, d')"
  shows "length x = X25519_LEN"
proof -
  obtain n d1 s where m: "map_entries M (ephemeral_entry M) n None \<lparr>ep_x = None, ep_kty_ok = False, ep_crv_ok = False\<rparr> d1 = Inr (s, d')"
    and x: "ep_x s = Some x"
    using assms by (auto simp: parse_ephemeral_key_def split: if_splits prod.splits)
  from m have "\<forall>b. ep_x s = Some b \<longrightarrow> length b = X25519_LEN"
    by (rule map_entries_inv) (auto simp: ephemeral_entry_def split: if_splits prod.splits)
  then show ?thesis using x by simp
qed

lemma recipient_shape:
  assumes "read_recipient M d = Inr ((rp, kid, x), d')"
  shows "kid \<noteq> [] \<and> length kid \<le> 128 \<and> length x = X25519_LEN"
proof -
  obtain n d1 d2 where
    m: "map_entries M (unprotected_entry (recipient_unprotected_entry M)) n None (None, None) d1 = Inr ((Some kid, Some x), d2)"
    using assms by (auto simp: read_recipient_def parse_unprotected_def split: if_splits prod.splits)
  let ?I = "\<lambda>s. (\<forall>k. fst s = Some k \<longrightarrow> k \<noteq> [] \<and> length k \<le> 128) \<and> (\<forall>x. snd s = Some x \<longrightarrow> length x = X25519_LEN)"
  from m have "?I (Some kid, Some x)"
    by (rule map_entries_inv)
      (auto simp: unprotected_entry_def recipient_unprotected_entry_def ident_def KeyId_from_bytes_def
        dest: ephemeral_length split: if_splits option.splits prod.splits)
  then show ?thesis by simp
qed

lemma kid_ok: "kid \<noteq> [] \<Longrightarrow> length kid \<le> 128 \<Longrightarrow> ident (KeyId_from_bytes kid) = Inr kid"
  by (simp add: ident_def KeyId_from_bytes_def)

lemma not_claim_label:
  "HDR_IV \<notin> set CLAIM_LABELS" "HDR_KID \<notin> set CLAIM_LABELS" "HDR_EPHEMERAL_KEY \<notin> set CLAIM_LABELS"
  by (simp_all add: CLAIM_LABELS_def label_defs)

lemma order_small:
  "check_order None l = Inr ()" "check_order (Some HDR_KID) HDR_EPHEMERAL_KEY = Inr ()"
  "check_order (Some 1) (- 1) = Inr ()" "check_order (Some (- 1)) (- 2) = Inr ()"
  by (simp_all add: check_order_def sort_key_eq HDR_KID_def HDR_EPHEMERAL_KEY_def is_i64_def i64_min_def i64_max_def)

lemma read_iv:
  assumes "minicbor_ok M" and "length iv = NONCE_LEN"
  shows "parse_unprotected M (iv_entry M) None (encode_with M [TMap 1, TInt HDR_IV, TBytes iv] @ r) = Inr (Some iv, r)"
proof -
  have "length iv < 2 ^ 64" using assms(2) by (simp add: NONCE_LEN_def)
  then show ?thesis
    using assms by (simp add: parse_unprotected_def order_small unprotected_entry_def not_claim_label iv_entry_def)
qed

lemma count_Suc: "map_entries M f 3 = map_entries M f (Suc (Suc (Suc 0)))" "map_entries M f 2 = map_entries M f (Suc (Suc 0))"
  by (simp_all add: numeral_3_eq_3 numeral_2_eq_2)

lemma read_ephemeral:
  assumes "minicbor_ok M" and "length x = X25519_LEN"
  shows "parse_ephemeral_key M (encode_with M [TMap 3, TInt 1, TInt 1, TInt (- 1), TInt 4, TInt (- 2), TBytes x] @ r) = Inr (x, r)"
proof -
  have "dt M (mc_enc M (TMap 3) @ d) = Inr TyMap" "definite (mc_map M (mc_enc M (TMap 3) @ d)) = Inr (3, d)" for d
    using minicbor_back [OF assms(1), of "TMap 3" d] by (simp_all add: dt_def ok_or_def definite_def)
  moreover have "length x < 2 ^ 64" using assms(2) by (simp add: X25519_LEN_def)
  ultimately show ?thesis
    using assms by (simp add: parse_ephemeral_key_def count_Suc order_small
        ephemeral_entry_def i64_max_def i64_min_def ok_or_def)
qed

lemma read_recipient_toks:
  assumes "minicbor_ok M" and "length rp < 2 ^ 64" and "kid \<noteq> []" and "length kid \<le> 128" and "length x = X25519_LEN"
  shows "read_recipient M (encode_with M [TArr 1, TArr 3, TBytes rp, TMap 2, TInt HDR_KID, TBytes kid,
      TInt HDR_EPHEMERAL_KEY, TMap 3, TInt 1, TInt 1, TInt (- 1), TInt 4, TInt (- 2), TBytes x, TNull] @ r) =
    Inr ((rp, kid, x), r)"
proof -
  have e: "parse_ephemeral_key M (mc_enc M (TMap 3) @ mc_enc M (TInt 1) @ mc_enc M (TInt 1) @ mc_enc M (TInt (- 1))
      @ mc_enc M (TInt 4) @ mc_enc M (TInt (- 2)) @ mc_enc M (TBytes x) @ r') = Inr (x, r')" for r'
    using read_ephemeral [OF assms(1,5), of r'] by simp
  have ne: "HDR_EPHEMERAL_KEY \<noteq> HDR_KID" by (simp add: label_defs)
  have n: "dt M (mc_enc M TNull @ r) = Inr TyNull" "mc_null M (mc_enc M TNull @ r) = Some r"
    using minicbor_back [OF assms(1), of TNull r] by (simp_all add: dt_def ok_or_def)
  have "length kid < 2 ^ 64" using assms(4) by simp
  then show ?thesis
    using assms n by (simp add: read_recipient_def parse_unprotected_def count_Suc order_small unprotected_entry_def
        not_claim_label recipient_unprotected_entry_def kid_ok e ne ok_or_def)
qed

text \<open>The fields of an assembled message that its bytes give to the decoder.\<close>

lemma encrypt_reads:
  assumes "minicbor_ok M" and "assembly_ok a"
  obtains d0 d1 d2 d3 d4 where
    "mc_tag M (assemble_encrypt M a) = Some (TAG_ENCRYPT, d0)" and "read_array_len M d0 = Inr (4, d1)"
    and "read_protected M d1 = Inr (ea_protected a, d2)" and "parse_unprotected M (iv_entry M) None d2 = Inr (Some (ea_iv a), d3)"
    and "read_content M d3 = Inr (ea_ciphertext a, d4)"
    and "read_recipient M d4 = Inr ((ea_recipient_protected a, ea_recipient_kid a, ea_ephemeral_x a), [])"
proof
  let ?r = "encode_with M [TArr 1, TArr 3, TBytes (ea_recipient_protected a), TMap 2, TInt HDR_KID,
      TBytes (ea_recipient_kid a), TInt HDR_EPHEMERAL_KEY, TMap 3, TInt 1, TInt 1, TInt (- 1), TInt 4, TInt (- 2),
      TBytes (ea_ephemeral_x a), TNull] @ []"
  let ?d3 = "mc_enc M (TBytes (ea_ciphertext a)) @ ?r"
  let ?d2 = "encode_with M [TMap 1, TInt HDR_IV, TBytes (ea_iv a)] @ ?d3"
  let ?d1 = "mc_enc M (TBytes (ea_protected a)) @ ?d2"
  let ?d0 = "mc_enc M (TArr 4) @ ?d1"
  note ok = assms(2) [unfolded assembly_ok_def]
  have b: "assemble_encrypt M a = mc_enc M (TTag TAG_ENCRYPT) @ ?d0"
    by (simp add: assemble_encrypt_def)
  show "mc_tag M (assemble_encrypt M a) = Some (TAG_ENCRYPT, ?d0)"
    unfolding b by (rule mc_tag_tok [OF assms(1)]) (simp add: TAG_ENCRYPT_def)
  show "read_array_len M ?d0 = Inr (4, ?d1)" by (rule read_len_tok [OF assms(1)]) simp
  show "read_protected M ?d1 = Inr (ea_protected a, ?d2)" using ok by (intro read_bytes_tok(2) [OF assms(1)]) simp
  show "parse_unprotected M (iv_entry M) None ?d2 = Inr (Some (ea_iv a), ?d3)"
    using ok by (intro read_iv [OF assms(1)]) simp
  show "read_content M ?d3 = Inr (ea_ciphertext a, ?r)" using ok by (intro read_bytes_tok(3) [OF assms(1)]) simp
  show "read_recipient M ?r = Inr ((ea_recipient_protected a, ea_recipient_kid a, ea_ephemeral_x a), [])"
    using ok by (intro read_recipient_toks [OF assms(1)]) simp_all
qed

lemma assembly_ok_parts:
  assumes "minicbor_ok M" and "length (assemble_encrypt M a) \<le> usize_max" and "length (ea_iv a) = NONCE_LEN"
    and "ea_recipient_kid a \<noteq> [] \<and> length (ea_recipient_kid a) \<le> 128 \<and> length (ea_ephemeral_x a) = X25519_LEN"
  shows "assembly_ok a"
proof -
  have "length (mc_enc M (TBytes (ea_protected a))) \<le> usize_max" "length (mc_enc M (TBytes (ea_ciphertext a))) \<le> usize_max"
    "length (mc_enc M (TBytes (ea_recipient_protected a))) \<le> usize_max"
    using assms(2) by (simp_all add: assemble_encrypt_def)
  then show ?thesis
    using enc_bytes_length [OF assms(1)] assms(3,4) by (simp add: assembly_ok_def)
qed

text \<open>The headers of a decoded message, as re-encoded by the decoder.\<close>

definition encrypt_headers :: "Minicbor \<Rightarrow> CoseEnv \<Rightarrow> DecodedEncrypt \<Rightarrow> bool" where
  "encrypt_headers M env m \<longleftrightarrow>
     encode_encrypt_protected M env (de_content_algorithm m) (de_content_type m) (de_claims m) = Inr (de_protected m) \<and>
     encode_recipient_protected M (de_parties m) = Inr (de_recipient_protected m)"

definition assembly_of :: "DecodedEncrypt \<Rightarrow> EncryptAssembly" where
  "assembly_of m = \<lparr>ea_protected = de_protected m, ea_iv = de_iv m, ea_ciphertext = de_ciphertext m,
     ea_recipient_protected = de_recipient_protected m, ea_recipient_kid = de_recipient_kid m,
     ea_ephemeral_x = de_ephemeral_x m\<rparr>"

lemma encrypt_canonical:
  assumes "minicbor_ok M" and "length bytes \<le> usize_max" and "decode_encrypt_strict M env bytes ex = Inr m"
  shows "bytes = assemble_encrypt M (assembly_of m) \<and> encrypt_headers M env m \<and> assembly_ok (assembly_of m)"
proof -
  obtain d0 d1 d2 d3 d4 d5 t n p iv rp kid x ct a where
    r: "mc_tag M bytes = Some (t, d0)" "read_array_len M d0 = Inr (n, d1)" "read_protected M d1 = Inr (p, d2)"
      "parse_unprotected M (iv_entry M) None d2 = Inr (Some iv, d3)" "read_content M d3 = Inr (ct, d4)"
      "read_recipient M d4 = Inr ((rp, kid, x), d5)"
    and f: "p = de_protected m" "iv = de_iv m" "ct = de_ciphertext m" "rp = de_recipient_protected m"
      "kid = de_recipient_kid m" "x = de_ephemeral_x m"
    and a: "ea_iv a = iv" "ea_ciphertext a = ct" "ea_recipient_kid a = kid" "ea_ephemeral_x a = x"
    and h: "encode_encrypt_protected M env (de_content_algorithm m) (de_content_type m) (de_claims m) = Inr (ea_protected a)"
      "encode_recipient_protected M (de_parties m) = Inr (ea_recipient_protected a)"
    and b: "bytes = assemble_encrypt M a"
    using assms(3) by (auto simp: decode_encrypt_strict_def split: if_splits prod.splits)
  have ok: "assembly_ok a"
    using assms(2) iv_length [OF r(4)] recipient_shape [OF r(6)] a unfolding b
    by (intro assembly_ok_parts [OF assms(1)]) simp_all
  obtain e0 e1 e2 e3 e4 where
    "mc_tag M bytes = Some (TAG_ENCRYPT, e0)" "read_array_len M e0 = Inr (4, e1)"
    "read_protected M e1 = Inr (ea_protected a, e2)" "parse_unprotected M (iv_entry M) None e2 = Inr (Some (ea_iv a), e3)"
    "read_content M e3 = Inr (ea_ciphertext a, e4)"
    "read_recipient M e4 = Inr ((ea_recipient_protected a, ea_recipient_kid a, ea_ephemeral_x a), [])"
    unfolding b by (rule encrypt_reads [OF assms(1) ok])
  then have "p = ea_protected a" "rp = ea_recipient_protected a" using r by auto
  then have "a = assembly_of m" "encrypt_headers M env m" using a f h by (simp_all add: assembly_of_def encrypt_headers_def)
  then show ?thesis using b ok by simp
qed

lemma enc_structure_inj:
  assumes "minicbor_ok M" and "enc_structure M a e = enc_structure M a' e'"
    and "length a < 2 ^ 64" "length a' < 2 ^ 64" "length e < 2 ^ 64" "length e' < 2 ^ 64"
  shows "a = a' \<and> e = e'"
proof -
  have u: "utf8_valid (bytes_of ''Encrypt'')" by code_simp
  have "[TArr 3, TStr ''Encrypt'', TBytes a, TBytes e] = [TArr 3, TStr ''Encrypt'', TBytes a', TBytes e']"
    using assms(3-) u by (intro toks_inj [OF assms(1) assms(2) [unfolded enc_structure_def]]) simp_all
  then show ?thesis by simp
qed

text \<open>The header parsers are functions of the protected bytes.\<close>

lemma encrypt_header_fields:
  assumes "decode_encrypt_strict M env b ex = Inr m" and "decode_encrypt_strict M env b' ex' = Inr m'"
  shows "(de_protected m = de_protected m' \<longrightarrow> de_content_algorithm m = de_content_algorithm m' \<and>
      de_content_type m = de_content_type m' \<and> de_claims m = de_claims m') \<and>
    (de_recipient_protected m = de_recipient_protected m' \<longrightarrow> de_parties m = de_parties m')"
proof -
  have "\<exists>h. parse_claims_capable_header M env (de_protected m) False = Inr h \<and>
      content_from_codepoint (ch_alg h) = Some (de_content_algorithm m) \<and> ch_content_type h = Some (de_content_type m) \<and>
      ch_claims h = de_claims m \<and> parse_recipient_protected M (de_recipient_protected m) = Inr (de_parties m)"
    if "decode_encrypt_strict M env b ex = Inr m" for b ex m
    using that by (auto simp: decode_encrypt_strict_def split: if_splits prod.splits)
  from this [OF assms(1)] this [OF assms(2)] show ?thesis by auto
qed




section \<open>An RFC 8949 reader and writer\<close>

text \<open>What the documentation promises of the CBOR library is satisfiable: the encoder of the RFC with
  the reader of heads of the scan keeps it.\<close>

definition head_of :: "nat \<Rightarrow> u8 list \<Rightarrow> (nat \<times> u8 list) option" where
  "head_of major x =
     (if x \<noteq> [] \<and> unat (drop_bit 5 (hd x)) = major then
        (case read_head x 0 of Inr (n, p) \<Rightarrow> Some (n, drop p x) | Inl _ \<Rightarrow> None)
      else None)"

definition rfc_datatype :: "u8 list \<Rightarrow> CborType option" where
  "rfc_datatype x =
     (if x = [] then None
      else if hd x = 0xf6 then Some TyNull
      else Some ([TyInt, TyInt, TyBytes, TyString, TyArray, TyMap, TyTag, TyOther] ! unat (drop_bit 5 (hd x))))"

definition rfc_int :: "u8 list \<Rightarrow> (int \<times> u8 list) option" where
  "rfc_int x =
     (case head_of 0 x of
        Some (n, r) \<Rightarrow> Some (int n, r)
      | None \<Rightarrow> map_option (\<lambda>(n, r). (- 1 - int n, r)) (head_of 1 x))"

definition rfc_slice :: "nat \<Rightarrow> u8 list \<Rightarrow> (u8 list \<times> u8 list) option" where
  "rfc_slice major x =
     (case head_of major x of
        Some (n, r) \<Rightarrow> if n \<le> length r then Some (take n r, drop n r) else None
      | None \<Rightarrow> None)"

definition rfc_minicbor :: Minicbor where
  "rfc_minicbor = \<lparr>mc_enc = rfc_token, mc_datatype = rfc_datatype, mc_i64 = rfc_int, mc_bytes = rfc_slice 2,
     mc_str = (\<lambda>x. map_option (\<lambda>(b, r). (map (\<lambda>v. char_of (unat v)) b, r)) (rfc_slice 3 x)),
     mc_map = (\<lambda>x. map_option (\<lambda>(n, r). (Some n, r)) (head_of 5 x)),
     mc_array = (\<lambda>x. map_option (\<lambda>(n, r). (Some n, r)) (head_of 4 x)), mc_tag = head_of 6,
     mc_null = (\<lambda>x. if x \<noteq> [] \<and> hd x = 0xf6 then Some (tl x) else None)\<rparr>"

lemma head_of_head:
  assumes "major < 7" and "n < 2 ^ 64"
  shows "head_of k (cbor_head major n @ r) = (if k = major then Some (n, r) else None)"
    and "rfc_datatype (cbor_head major n @ r) =
      Some ([TyInt, TyInt, TyBytes, TyString, TyArray, TyMap, TyTag, TyOther] ! major)"
proof -
  obtain ini tl where h: "cbor_head major n = ini # tl" "unat (drop_bit 5 ini) = major"
    and rd: "read_head (cbor_head major n @ r) 0 = Inr (n, length (cbor_head major n))"
    using head_complete [of major n "[]" r] assms by auto
  have "ini \<noteq> 0xf6" using h(2) assms(1) by auto
  then show "head_of k (cbor_head major n @ r) = (if k = major then Some (n, r) else None)"
    "rfc_datatype (cbor_head major n @ r) =
      Some ([TyInt, TyInt, TyBytes, TyString, TyArray, TyMap, TyTag, TyOther] ! major)"
    using h rd by (auto simp: head_of_def rfc_datatype_def)
qed

lemma rfc_slice_head:
  "major < 7 \<Longrightarrow> length b < 2 ^ 64 \<Longrightarrow> rfc_slice major (cbor_head major (length b) @ b @ r) = Some (b, r)"
  by (simp add: rfc_slice_def head_of_head)

lemma rfc_reads: "tok_ok t \<Longrightarrow> reads_as rfc_minicbor t (rfc_token t @ r) r"
proof (cases t)
  case (TInt v)
  assume "tok_ok t"
  then have "nat v < 2 ^ 64" "nat (- 1 - v) < 2 ^ 64"
    using TInt by (auto simp: is_i64_def i64_max_def i64_min_def)
  then show ?thesis
    using TInt by (auto simp: rfc_minicbor_def int_bytes_def head_of_head rfc_int_def)
next
  case (TStr s)
  assume "tok_ok t"
  then show ?thesis
    using TStr rfc_slice_head [of 3 "bytes_of s" r] head_of_head(2) [of 3 "length s" "bytes_of s @ r"]
    by (simp add: rfc_minicbor_def bytes_of_def byte_of_def o_def unat_of_nat)
qed (simp_all add: rfc_minicbor_def head_of_head rfc_slice_head rfc_datatype_def [of "_ # _"])

lemma rfc_minicbor_ok: "minicbor_ok rfc_minicbor"
  using rfc_reads by (simp add: minicbor_ok_def rfc_minicbor_def)


section \<open>The outer layer of a sealed message\<close>

lemma kid_len: "length kid \<le> 128 \<Longrightarrow> length kid < 2 ^ 64"
  by simp

definition outer_item :: "SignatureAlgorithm \<Rightarrow> KeyId \<Rightarrow> Cbor" where
  "outer_item alg kid =
     CMap [(CUint 1, CNint (case alg of EdDsa \<Rightarrow> 7 | Es256 \<Rightarrow> 6)), (CUint 4, CBytes kid)]"

lemma outer_item_bytes:
  assumes "minicbor_ok M" and "length kid \<le> 128"
  shows "encode_with M (sealed_outer_toks alg kid None) = cbor_bytes (outer_item alg kid)"
  using assms minicbor_enc [OF assms(1), of "TBytes kid"]
  by (cases alg) (simp_all add: sealed_outer_toks_def outer_item_def opt_toks_def one_if_def minicbor_enc int_bytes_def
      i64_max_def i64_min_def HDR_ALG_def HDR_KID_def numeral_2_eq_2 [symmetric])

lemma cbor_head_length: "length (cbor_head major n) \<le> 9"
  by (simp add: cbor_head_def)

lemma outer_item_length: "length kid \<le> 128 \<Longrightarrow> length (cbor_bytes (outer_item alg kid)) \<le> 200"
  using cbor_head_length [of 2 "length kid"] by (cases alg) (simp_all add: outer_item_def cbor_head_def)

lemma outer_layer_header:
  assumes "minicbor_ok M" and "kid \<noteq> []" and "length kid \<le> 128"
  shows "sign1_header M env SealedOuter (encode_with M (sealed_outer_toks alg kid None)) =
    Inr (alg, kid, None, None, no_headers, encode_with M (sealed_outer_toks alg kid None))"
proof -
  let ?b = "encode_with M (sealed_outer_toks alg kid None)"
  have "scan ?b = Inr \<lparr>top_tag = None\<rparr>" "?b \<noteq> []"
    using scan_encoded [of "outer_item alg kid"] outer_item_length [OF assms(3), of alg] assms(3)
    unfolding outer_item_bytes [OF assms(1,3)]
    by (auto simp: outer_item_def usize_max_def cbor_head_def split: SignatureAlgorithm.splits)
  moreover have "sealed_outer_toks alg kid (Some no_headers) = sealed_outer_toks alg kid None"
    by (simp add: sealed_outer_toks_def no_headers_def headers_empty_def write_jwts_def opt_toks_def)
  moreover have b: "?b = mc_enc M (TMap 2) @ mc_enc M (TInt HDR_ALG) @ mc_enc M (TInt (signature_codepoint alg))
      @ mc_enc M (TInt HDR_KID) @ mc_enc M (TBytes kid) @ []"
    by (simp add: sealed_outer_toks_def one_if_def opt_toks_def numeral_2_eq_2)
  moreover have "check_order (Some HDR_ALG) HDR_KID = Inr ()" "HDR_KID \<noteq> HDR_ALG"
    by (simp_all add: check_order_def sort_key_eq HDR_KID_def HDR_ALG_def is_i64_def i64_min_def i64_max_def)
  moreover have "is_i64 (signature_codepoint alg)" "signature_from_codepoint (signature_codepoint alg) = Some alg"
    by (cases alg; simp add: signature_from_codepoint_def i64_min_def i64_max_def)+
  ultimately have "parse_sealed_outer_protected M ?b = Inr (alg, kid, no_headers)"
    using assms read_bytes_tok(1) [OF assms(1) kid_len [OF assms(3)], of "[]" HDR_KID]
    by (simp add: parse_sealed_outer_protected_def count_Suc order_small outer_entry_def kid_ok ok_or_def
        headers_empty_def no_headers_def)
  then show ?thesis
    using \<open>sealed_outer_toks alg kid (Some no_headers) = _\<close>
    by (simp add: sign1_header_def encode_sign1_protected_sealed_outer_with_headers_def rebuilt_def res_map_err_def)
qed


lemma outer_layer_roundtrip:
  assumes "minicbor_ok M" and "kid \<noteq> []" and "length kid \<le> 128" and "sig \<noteq> []"
    and "length payload < 2 ^ 32" and "length sig < 2 ^ 32"
  shows "decode_sign1_strict M env (assemble_sign1 M (encode_with M (sealed_outer_toks alg kid None)) payload sig) SealedOuter =
    Inr \<lparr>ds_protected = encode_with M (sealed_outer_toks alg kid None), ds_algorithm = alg, ds_kid = kid,
      ds_content_type = None, ds_claims = None, ds_protected_headers = no_headers, ds_payload = payload, ds_signature = sig\<rparr>"
proof -
  let ?p = "encode_with M (sealed_outer_toks alg kid None)"
  let ?it = "CTag 18 (CArray [CBytes ?p, CMap [], CBytes payload, CBytes sig])"
  have p: "length ?p \<le> 200"
    using outer_item_length [OF assms(3)] by (simp only: outer_item_bytes [OF assms(1,3)])
  have "Suc (Suc (Suc (Suc 0))) = 4" by simp
  then have four: "cbor_head 4 (Suc (Suc (Suc (Suc 0)))) = cbor_head 4 4" by (simp only:)
  have b: "assemble_sign1 M ?p payload sig = cbor_bytes ?it"
    using assms p four by (simp add: assemble_sign1_def minicbor_enc TAG_SIGN1_def)
  have "length (cbor_bytes ?it) \<le> 200 + length payload + length sig + 60"
    using cbor_head_length [of 6 18] cbor_head_length [of 4 4] cbor_head_length [of 2 "length ?p"]
      cbor_head_length [of 2 "length payload"] cbor_head_length [of 2 "length sig"] cbor_head_length [of 5 0] p
    by (simp add: four)
  then have "length (cbor_bytes ?it) \<le> usize_max" using assms(5,6) by (simp add: usize_max_def)
  then have "scan (assemble_sign1 M ?p payload sig) = Inr \<lparr>top_tag = Some 18\<rparr>"
    using scan_encoded [of ?it] p assms(5,6) unfolding b by simp
  from decode_assembled [OF assms(1) _ _ _ this, of env SealedOuter] show ?thesis
    using p assms(4-6) outer_layer_header [OF assms(1-3)] by (simp add: check_tag_def TAG_SIGN1_def)
qed

theorem signed_content_exact_witness:
  "sig_structure rfc_minicbor (encode_with rfc_minicbor (sealed_outer_toks EdDsa [0x61] None)) [] [1] \<noteq>
   sig_structure rfc_minicbor (encode_with rfc_minicbor (sealed_outer_toks EdDsa [0x61] None)) [] [2]"
proof -
  have p: "length (encode_with rfc_minicbor (sealed_outer_toks EdDsa [0x61] None)) \<le> 200"
    unfolding outer_item_bytes [OF rfc_minicbor_ok, of "[0x61]", simplified] by (rule outer_item_length) simp
  have l: "length (assemble_sign1 rfc_minicbor (encode_with rfc_minicbor (sealed_outer_toks EdDsa [0x61] None)) [n] [7]) \<le> usize_max" for n
    using p cbor_head_length [of 2 "length (encode_with rfc_minicbor (sealed_outer_toks EdDsa [0x61] None))"]
    by (simp add: assemble_sign1_def rfc_minicbor_def cbor_head_def TAG_SIGN1_def usize_max_def)
  note d = outer_layer_roundtrip [OF rfc_minicbor_ok, of "[0x61]" "[7]" "[n]" demo_cose EdDsa for n, simplified]
  show ?thesis
    using signed_content_exact [OF rfc_minicbor_ok l l d d, of "[]" "[]" 1 2] by simp
qed



section \<open>A message without claims for an anonymous recipient\<close>

definition plain_item :: "ContentAlgorithm \<Rightarrow> ContentType \<Rightarrow> Cbor" where
  "plain_item alg ct =
     CMap [(CUint 1, CUint (case alg of A256Gcm \<Rightarrow> 3 | ChaCha20Poly1305 \<Rightarrow> 24)), (CUint 2, CArray [CUint 3]),
       (CUint 3, CText (bytes_of ct))]"

definition plain_protected :: "Minicbor \<Rightarrow> ContentAlgorithm \<Rightarrow> ContentType \<Rightarrow> u8 list" where
  "plain_protected M alg ct = encode_with M [TMap 3, TInt HDR_ALG, TInt (content_codepoint alg),
     TInt HDR_CRIT, TArr 1, TInt HDR_CONTENT_TYPE, TInt HDR_CONTENT_TYPE, TStr ct]"

lemma plain_encodes: "encode_encrypt_protected M env alg ct None = Inr (plain_protected M alg ct)"
  by (simp add: encode_encrypt_protected_def plain_protected_def write_claims_capable_tail_def claims_capable_tail_len_def
      crit_labels_def protected_header_crit_labels_def write_crit_def opt_toks_def one_if_def numeral_3_eq_3)

lemma plain_item_bytes:
  assumes "minicbor_ok M" and "length ct \<le> 128" and "utf8_valid (bytes_of ct)"
  shows "plain_protected M alg ct = cbor_bytes (plain_item alg ct)"
proof -
  have three: "cbor_head 5 (Suc (Suc (Suc 0))) = cbor_head 5 3" by (simp only: numeral_3_eq_3)
  have "length (bytes_of ct) = length ct" by (simp add: bytes_of_def)
  then show ?thesis
    using assms three by (cases alg) (simp_all add: plain_protected_def plain_item_def minicbor_enc int_bytes_def
      i64_max_def HDR_ALG_def HDR_CRIT_def HDR_CONTENT_TYPE_def)
qed

lemma plain_header:
  assumes "minicbor_ok M" and "length ct \<le> 128" and "utf8_valid (bytes_of ct)" and "ContentType_new ct = Inr ct"
  shows "parse_claims_capable_header M env (plain_protected M alg ct) False =
    Inr \<lparr>ch_alg = content_codepoint alg, ch_crit = Some [HDR_CONTENT_TYPE], ch_content_type = Some ct, ch_kid = None,
      ch_claims = None, ch_headers = no_headers\<rparr>"
proof -
  let ?b = "plain_protected M alg ct"
  have "length (cbor_bytes (plain_item alg ct)) \<le> 200" if "length (bytes_of ct) \<le> 128"
    using cbor_head_length [of 3 "length (bytes_of ct)"] that by (cases alg) (simp_all add: plain_item_def cbor_head_def)
  then have "scan ?b = Inr \<lparr>top_tag = None\<rparr>" "?b \<noteq> []"
    using scan_encoded [of "plain_item alg ct"] assms(2)
    unfolding plain_item_bytes [OF assms(1-3)]
    by (auto simp: plain_item_def usize_max_def cbor_head_def bytes_of_def split: ContentAlgorithm.splits)
  moreover have b: "?b = mc_enc M (TMap 3) @ mc_enc M (TInt HDR_ALG) @ mc_enc M (TInt (content_codepoint alg))
      @ mc_enc M (TInt HDR_CRIT) @ mc_enc M (TArr 1) @ mc_enc M (TInt HDR_CONTENT_TYPE)
      @ mc_enc M (TInt HDR_CONTENT_TYPE) @ mc_enc M (TStr ct) @ []"
    by (simp add: plain_protected_def)
  moreover have "check_order (Some HDR_ALG) HDR_CRIT = Inr ()" "check_order (Some HDR_CRIT) HDR_CONTENT_TYPE = Inr ()"
      "HDR_CRIT \<noteq> HDR_ALG" "HDR_CONTENT_TYPE \<noteq> HDR_ALG" "HDR_CONTENT_TYPE \<noteq> HDR_CRIT"
    by (simp_all add: check_order_def sort_key_eq HDR_CONTENT_TYPE_def HDR_ALG_def HDR_CRIT_def is_i64_def i64_min_def i64_max_def)
  moreover have "is_i64 (content_codepoint alg)" by (cases alg) (simp_all add: i64_max_def)
  moreover have "read_str M (mc_enc M (TStr ct)) HDR_CONTENT_TYPE = Inr (ct, [])"
    using read_str_tok [OF assms(1), of ct "[]" HDR_CONTENT_TYPE] assms(2,3) by simp
  ultimately show ?thesis
    using assms
    by (simp add: parse_claims_capable_header_def count_Suc order_small header_entry_def parse_crit_def ok_or_def
        no_header_parts_def no_parts_def into_claims_def ident_def)
qed

lemma anonymous_recipient:
  assumes "minicbor_ok M"
  shows "encode_recipient_protected M anonymous = Inr (encode_with M [TMap 1, TInt HDR_ALG, TInt ECDH_ES_HKDF_256])"
    and "parse_recipient_protected M (encode_with M [TMap 1, TInt HDR_ALG, TInt ECDH_ES_HKDF_256]) = Inr anonymous"
proof -
  show "encode_recipient_protected M anonymous = Inr (encode_with M [TMap 1, TInt HDR_ALG, TInt ECDH_ES_HKDF_256])"
    by (simp add: encode_recipient_protected_def recipient_toks_def party_labels_def anonymous_def present_def
        one_if_def opt_toks_def)
  let ?b = "encode_with M [TMap 1, TInt HDR_ALG, TInt ECDH_ES_HKDF_256]"
  have e: "is_i64 ECDH_ES_HKDF_256" by (simp add: ECDH_ES_HKDF_256_def i64_min_def)
  have r: "read_int M (mc_enc M (TInt ECDH_ES_HKDF_256)) HDR_ALG = Inr (ECDH_ES_HKDF_256, [])"
    using read_int_tok [OF assms e, of "[]" HDR_ALG] by simp
  have b: "?b = cbor_bytes (CMap [(CUint 1, CNint 24)])"
    using assms e by (simp add: minicbor_enc int_bytes_def HDR_ALG_def ECDH_ES_HKDF_256_def)
  have "scan ?b = Inr \<lparr>top_tag = None\<rparr>" "?b \<noteq> []"
    using scan_encoded [of "CMap [(CUint 1, CNint 24)]"] unfolding b by (simp_all add: usize_max_def cbor_head_def)
  then show "parse_recipient_protected M ?b = Inr anonymous"
    using assms e r by (simp add: parse_recipient_protected_def order_small recipient_entry_def ok_or_def party_labels_def
        anonymous_def present_def)
qed


definition encrypt_item :: "u8 list \<Rightarrow> EncryptAssembly \<Rightarrow> Cbor" where
  "encrypt_item rp a =
     CTag 96 (CArray [CBytes (ea_protected a), CMap [(CUint 5, CBytes (ea_iv a))], CBytes (ea_ciphertext a),
       CArray [CArray [CBytes rp, CMap [(CUint 4, CBytes (ea_recipient_kid a)),
         (CNint 0, CMap [(CUint 1, CUint 1), (CNint 0, CUint 4), (CNint 1, CBytes (ea_ephemeral_x a))])], CSimple 22]]])"

lemma encrypt_item_bytes:
  assumes "minicbor_ok M" and "assembly_ok a"
  shows "assemble_encrypt M a = cbor_bytes (encrypt_item (ea_recipient_protected a) a)"
proof -
  have "Suc (Suc (Suc (Suc 0))) = 4" "Suc (Suc (Suc 0)) = 3" "Suc (Suc 0) = 2" by simp_all
  then have n: "cbor_head k (Suc (Suc (Suc (Suc 0)))) = cbor_head k 4" "cbor_head k (Suc (Suc (Suc 0))) = cbor_head k 3"
    "cbor_head k (Suc (Suc 0)) = cbor_head k 2" for k by (simp_all only:)
  show ?thesis
    using assms by (simp add: assemble_encrypt_def encrypt_item_def minicbor_enc assembly_ok_def NONCE_LEN_def X25519_LEN_def
        TAG_ENCRYPT_def n int_bytes_def HDR_IV_def HDR_KID_def HDR_EPHEMERAL_KEY_def i64_max_def i64_min_def initial_def)
qed

definition plain_assembly ::
  "Minicbor \<Rightarrow> ContentAlgorithm \<Rightarrow> ContentType \<Rightarrow> KeyId \<Rightarrow> u8 list \<Rightarrow> u8 list \<Rightarrow> u8 list \<Rightarrow> EncryptAssembly" where
  "plain_assembly M alg ct kid x iv data = \<lparr>ea_protected = plain_protected M alg ct, ea_iv = iv, ea_ciphertext = data,
     ea_recipient_protected = encode_with M [TMap 1, TInt HDR_ALG, TInt ECDH_ES_HKDF_256], ea_recipient_kid = kid,
     ea_ephemeral_x = x\<rparr>"

lemma plain_assembly_ok:
  assumes "minicbor_ok M" and "length ct \<le> 128" "utf8_valid (bytes_of ct)" and "kid \<noteq> []" "length kid \<le> 128"
    and "length x = X25519_LEN" "length iv = NONCE_LEN" "length data < 2 ^ 32"
  shows "assembly_ok (plain_assembly M alg ct kid x iv data)"
    and "length (assemble_encrypt M (plain_assembly M alg ct kid x iv data)) \<le> usize_max"
proof -
  let ?a = "plain_assembly M alg ct kid x iv data"
  have p: "length (plain_protected M alg ct) \<le> 200"
    using assms(2) cbor_head_length [of 3 "length (bytes_of ct)"] unfolding plain_item_bytes [OF assms(1-3)]
    by (cases alg) (simp_all add: plain_item_def cbor_head_def bytes_of_def)
  have e: "is_i64 ECDH_ES_HKDF_256" by (simp add: ECDH_ES_HKDF_256_def i64_min_def)
  have r: "length (encode_with M [TMap 1, TInt HDR_ALG, TInt ECDH_ES_HKDF_256]) \<le> 27"
    using assms(1) e by (simp add: minicbor_enc int_bytes_def HDR_ALG_def ECDH_ES_HKDF_256_def cbor_head_def)
  show ok: "assembly_ok ?a" using p r assms(4-) by (simp add: assembly_ok_def plain_assembly_def)
  have "length (assemble_encrypt M ?a) \<le> 1000 + length data"
    using p r assms(5-7) cbor_head_length [of 2 "length (plain_protected M alg ct)"] cbor_head_length [of 2 "length data"]
      cbor_head_length [of 2 "length kid"] cbor_head_length [of 2 "length (encode_with M [TMap 1, TInt HDR_ALG, TInt ECDH_ES_HKDF_256])"]
    unfolding encrypt_item_bytes [OF assms(1) ok]
    by (simp add: encrypt_item_def plain_assembly_def NONCE_LEN_def X25519_LEN_def cbor_head_def [of _ "numeral _"]
        cbor_head_def [of _ "Suc _"] cbor_head_def [of _ 0] cbor_head_def [of _ 1])
  then show "length (assemble_encrypt M ?a) \<le> usize_max" using assms(8) by (simp add: usize_max_def)
qed

lemma plain_message_roundtrip:
  assumes "minicbor_ok M" and "length ct \<le> 128" "utf8_valid (bytes_of ct)" and "kid \<noteq> []" "length kid \<le> 128"
    and "length x = X25519_LEN" "length iv = NONCE_LEN" "length data < 2 ^ 32" and "ContentType_new ct = Inr ct"
  shows "decode_encrypt_strict M env (assemble_encrypt M (plain_assembly M alg ct kid x iv data)) ClaimsOptional =
    Inr \<lparr>de_protected = plain_protected M alg ct, de_content_algorithm = alg, de_content_type = ct, de_claims = None,
      de_iv = iv, de_ciphertext = data,
      de_recipient_protected = encode_with M [TMap 1, TInt HDR_ALG, TInt ECDH_ES_HKDF_256], de_recipient_kid = kid,
      de_ephemeral_x = x, de_parties = anonymous\<rparr>"
proof -
  let ?a = "plain_assembly M alg ct kid x iv data"
  let ?it = "encrypt_item (ea_recipient_protected ?a) ?a"
  note ok = plain_assembly_ok [OF assms(1-8), of alg]
  note b = encrypt_item_bytes [OF assms(1) ok(1)]
  have "item_ok 0 ?it" using ok(1) by (simp add: encrypt_item_def assembly_ok_def NONCE_LEN_def X25519_LEN_def)
  then have s: "scan (assemble_encrypt M ?a) = Inr \<lparr>top_tag = Some 96\<rparr>"
    using scan_encoded [of ?it] ok(2) unfolding b by (simp add: encrypt_item_def)
  obtain d0 d1 d2 d3 d4 where r:
    "mc_tag M (assemble_encrypt M ?a) = Some (TAG_ENCRYPT, d0)" "read_array_len M d0 = Inr (4, d1)"
    "read_protected M d1 = Inr (ea_protected ?a, d2)" "parse_unprotected M (iv_entry M) None d2 = Inr (Some (ea_iv ?a), d3)"
    "read_content M d3 = Inr (ea_ciphertext ?a, d4)"
    "read_recipient M d4 = Inr ((ea_recipient_protected ?a, ea_recipient_kid ?a, ea_ephemeral_x ?a), [])"
    by (rule encrypt_reads [OF assms(1) ok(1)])
  have f: "content_from_codepoint (content_codepoint alg) = Some alg" "crit_labels None (Some no_headers) = [HDR_CONTENT_TYPE]"
    by (cases alg; simp add: content_from_codepoint_def)
      (simp add: crit_labels_def protected_header_crit_labels_def no_headers_def present_def)
  show ?thesis
    using r s plain_header [OF assms(1-3,9)] anonymous_recipient [OF assms(1)] plain_encodes [of M env alg ct] f
    by (simp add: decode_encrypt_strict_def check_tag_def TAG_ENCRYPT_def ok_or_def finish_claims_capable_def
        check_crit_def rebuilt_def res_map_err_def plain_assembly_def del: encode_with_simps)
qed



end
