(* ===== verification/Spec2Isabelle.thy ===== *)
theory Spec2Isabelle
  imports Pdp Challenge Revocation Capability Audit_Record Loader_Catalog Loader_Policy Connection
    Listener Configuration Run_Quota Crypto_Provider Federation Jwks_Cache Cose_Codec
begin

text \<open>
  Verification of the Basil secrets broker.

  \<^bold>\<open>The program.\<close> Basil (\<open>crates/basil-core\<close>) is a host daemon that performs cryptographic and
  secret operations for local workloads and for sealed requests from CI jobs. At start it reads a
  configuration corpus (\<open>core/configuration.rs\<close>), validates the key catalog and compiles the policy
  (\<open>core/catalog/loader.rs\<close>), and checks that its backends can do what the keys need
  (\<open>core/capability.rs\<close>). Connections arrive on named listeners (\<open>transport\<close>) and are counted in
  one registry. The facts known about a caller become evidence, evidence selects exactly one subject
  (\<open>core/catalog/evidence.rs\<close>, \<open>core/actor.rs\<close>), and the decision point (\<open>core/catalog/pdp.rs\<close>)
  decides each operation on each key and leaves an audit record (\<open>core/decision.rs\<close>). A sealed
  request is a COSE message (\<open>crates/basil-cose\<close>); its freshness comes from a single-use challenge
  (\<open>core/challenge.rs\<close>), its authority from a CI provider's token checked against a rule
  (\<open>core/ci_federation.rs\<close>), and it is charged to a quota of the workflow run. Keys live in a
  backend or in software custody (\<open>core/crypto_provider.rs\<close>); minted tokens can be revoked
  (\<open>core/revocation.rs\<close>).

  \<^bold>\<open>Conventions.\<close> \<open>Basil_Prelude\<close> fixes the reading of Rust: \<open>Result\<close> is a sum with the error on
  the left and \<open>?\<close> is \<open>res_bind\<close>; a \<open>str\<close> is the list of its UTF-8 bytes; \<open>BTreeMap\<close> and
  \<open>HashMap\<close> are association lists behind the \<open>kv_map\<close> contract; fixed-width arithmetic is written with
  its saturation or as words where the code's result depends on the width. A locked section is one
  function on the state; interleavings are sequences of such steps (\<open>steps\<close>), over which invariants
  are shown by rule induction. Code that is not in the repository (text parsers, hashing, AEAD,
  signatures, HTTP, the file system, clocks, randomness) is an argument of the definitions that use
  it. What a result needs of such an argument is a named hypothesis, and its witness supplies a
  concrete function that meets it.

  \<^bold>\<open>The theories, in the order of their dependencies.\<close>

  \<^item> \<open>Basil_Prelude\<close>: the reading of Rust above; the contracts \<open>kv_map\<close> (maps), \<open>token_codec\<close> and
    \<open>strict_codec\<close> (print and parse), \<open>first_match\<close> (searches that stop at a hit), \<open>single_use\<close>
    (what is issued is consumed at most once), each with the lemmas its clients share.
  \<^item> \<open>Glob\<close> (\<open>catalog/glob.rs\<close>): target globs. Parsing and printing are inverse; the matcher agrees
    with a relational reading of patterns.
  \<^item> \<open>Policy\<close> (\<open>catalog/policy.rs\<close>): operations, rules, name tables and the resolved policy, with
    strict codecs of the operation and action tokens.
  \<^item> \<open>Nkey\<close> (\<open>basil-nats/src/lib.rs\<close>, the public-key form), \<open>Cose_Party\<close> (\<open>basil-cose/src/kdf.rs\<close>)
    and \<open>Catalog_Schema\<close> (\<open>catalog/schema.rs\<close>): the data of the key catalog.
  \<^item> \<open>Evidence\<close> (\<open>catalog/evidence.rs\<close>) and \<open>Actor\<close> (\<open>actor.rs\<close>, data of \<open>peer.rs\<close>): three-valued
    evaluation is strong Kleene logic and monotone; resolution selects a subject exactly when one
    matches and none is undetermined; a match for a sealed request names the signing key.
  \<^item> \<open>Pdp\<close> (\<open>catalog/pdp.rs\<close>): exactly when an operation is allowed; the hard caps hold whatever the
    policy says; administrative decisions; the offline explanation agrees with the live decision.
  \<^item> \<open>Json_Value\<close>, \<open>Serde\<close>, \<open>Loader_Catalog\<close>, \<open>Loader_Policy\<close> (\<open>catalog/loader.rs\<close>): the catalogs that
    validate are exactly the well-formed ones; a loaded policy is well-formed; a decision on it, read
    in terms of the source document; the break-glass gate; administrative actions are explicit.
  \<^item> \<open>Configuration\<close> (\<open>configuration.rs\<close>): a source is accepted only if it did not change while it
    was read; startup overrides change only what they name.
  \<^item> \<open>Capability\<close>, \<open>Audit_Record\<close>, \<open>Revocation\<close>: startup enforcement is exact; sanitized audit values
    are safe to log; a revocation takes effect and survives persistence.
  \<^item> \<open>Token_Bucket\<close>, \<open>Challenge\<close> (\<open>challenge.rs\<close>): rate bounds; the table invariant; exactly-once
    consumption over every interleaving; an issued challenge stays usable until it expires; a refused
    issue changes nothing.
  \<^item> \<open>Connection\<close> (\<open>transport/connection.rs\<close>), \<open>Listener\<close> (\<open>transport/listener.rs\<close>, the gate of
    \<open>listener_manager.rs\<close>, \<open>rewire.rs\<close>): exact counts under four ceilings in every reachable state;
    transitions are atomic and disturb no listener they do not name; the rewire ledger.
  \<^item> \<open>Crypto_Provider\<close> (\<open>crypto_provider.rs\<close>): provider selection, custody records and the data that
    binds them, generation and use of software-custody signing keys.
  \<^item> \<open>Run_Quota\<close>, \<open>Federation\<close>, \<open>Jwks_Cache\<close> (\<open>ci_federation.rs\<close>, and the parts of
    \<open>service/invocation.rs\<close> that resolve a key set and try one rule): a token verifies under at most
    one rule; trust bundles are pinned; a run is never admitted more often than its rule allows; a
    key set is served only within its age bounds and refreshed at a bounded rate.
  \<^item> \<open>Cbor_Scan\<close>, \<open>Cose_Types\<close>, \<open>Cose_Codec\<close> (\<open>basil-cose/src\<close>): the pre-check accepts exactly the
    deterministic encodings; accepted claims lie in a bounded window; what the strict decoders accept
    is the canonical encoding of what they return, and what is signed or authenticated determines
    every field they return.

  \<^bold>\<open>Bounds and termination.\<close> No definition uses fuel. Loops over collections are structural
  recursion; the CBOR walk terminates because its depth is limited to 32 and its loops count down; the
  eviction loop of the rewire ledger and the purge loop of the challenge table terminate because each
  round shortens the collection. Results on encoded messages assume that a message fits into a
  \<open>usize\<close> and external data into \<open>u64\<close>, as every Rust slice does.

  \<^bold>\<open>Not modelled.\<close>

  \<^item> The gRPC surface (\<open>service/*\<close>, \<open>transport/grpc_server.rs\<close>, \<open>rpc_registry.rs\<close>, \<open>basil-proto\<close>): request
    plumbing over generated protobuf code. The decisions it asks for are modelled in the components
    above; the composition of one whole sealed invocation is not.
  \<^item> Reload (\<open>core/reload.rs\<close>, \<open>core/state.rs\<close>), key management (\<open>core/manager.rs\<close>, \<open>reconcile.rs\<close>), minting
    (\<open>core/minter.rs\<close>) and the Nix cache files: orchestration of asynchronous backend and file-system
    calls. The comparison of generations in \<open>reload.rs\<close> is pure and remains to be modelled.
  \<^item> Backends (\<open>core/backend/*\<close>, \<open>basil-keystore-backend\<close>), sealing and unlocking (\<open>core/seal\<close>, \<open>unlock.rs\<close>)
    and the primitives of \<open>ed25519_sign.rs\<close>, \<open>ml_dsa_sign.rs\<close>, \<open>ml_kem_envelope.rs\<close>, \<open>x25519_seal.rs\<close>:
    calls into cryptographic libraries, devices and remote services.
  \<^item> The signing, verifying, sealing and opening entry points of \<open>basil-cose\<close> over the codec, and
    its in-memory keys.
  \<^item> Command-line tools, clients, couriers, bridges, tests, packaging: terminal, network and process
    I/O around the broker.
\<close>

end
